(* ===== verification/Pype_Prelude.thy ===== *)
theory Pype_Prelude
  imports Complex_Main "HOL-Library.AList" "HOL-Library.Word"
begin

text \<open>
  What every component of the development shares: the model of the Python values the
  program passes around, the model of the Python dict, and the hint collections.

  \<^item> A Python \<open>str\<close> is a \<^typ>\<open>string\<close>, a \<open>bytes\<close> object a list of
    8-bit words, an unbounded \<open>int\<close> an \<^typ>\<open>int\<close>.
  \<^item> A Python dict is an association list in insertion order: \<^const>\<open>map_of\<close> looks a
    key up, \<^const>\<open>AList.update\<close> overwrites in place or appends (which is what
    \<open>d[k] = v\<close> does to the iteration order), \<^const>\<open>AList.delete\<close> is
    \<open>d.pop(k, None)\<close>.
  \<^item> \<open>py_str_int\<close> is \<open>str(n)\<close> on an integer, as used by f-strings and by the
    request-id generator of the client.
\<close>

type_synonym bytes = "8 word list"
type_synonym ('k, 'v) dict = "('k \<times> 'v) list"

named_theorems dict_simps "lookup, keys and length of a dict after an update or a delete"
named_theorems object_simps "reading an object store after an allocation or a write"
named_theorems handler_defs "the definitions a request handler is made of"

section \<open>Dicts\<close>

abbreviation dict_keys :: "('k, 'v) dict \<Rightarrow> 'k list" where
  "dict_keys d \<equiv> map fst d"

lemma dict_get_update [dict_simps]:
  "map_of (AList.update k v d) k' = (if k' = k then Some v else map_of d k')"
  by (simp add: update_conv')

lemma dict_get_pop [dict_simps]:
  "map_of (AList.delete k d) k' = (if k' = k then None else map_of d k')"
  by (simp add: delete_conv')

lemma dict_keys_update [dict_simps]:
  "dict_keys (AList.update k v d) = dict_keys d @ (if k \<in> set (dict_keys d) then [] else [k])"
  by (simp add: update_keys)

lemma dict_keys_pop [dict_simps]:
  "dict_keys (AList.delete k d) = removeAll k (dict_keys d)"
  by (induction d) auto

lemma dict_get_None: "map_of d k = None \<longleftrightarrow> k \<notin> set (dict_keys d)"
  by (simp add: map_of_eq_None_iff)

lemma dict_update_fresh:
  "map_of d k = None \<Longrightarrow> AList.update k v d = d @ [(k, v)]"
  by (induction d) (auto split: if_splits)

lemma dict_pop_fresh: "map_of d k = None \<Longrightarrow> AList.delete k d = d"
  by (simp add: delete_idem map_of_eq_None_iff)

lemma dict_pop_filter: "AList.delete k d = filter (\<lambda>p. fst p \<noteq> k) d"
  by (induction d) auto

lemma dict_get_filter:
  "distinct (dict_keys d) \<Longrightarrow> map_of (filter P d) k = Some v \<Longrightarrow> map_of d k = Some v"
  by (auto dest: map_of_SomeD)

lemma dict_len_pop:
  assumes "distinct (dict_keys d)" "map_of d k = Some v"
  shows "Suc (length (AList.delete k d)) = length d"
  using assms
proof (induction d)
  case Nil
  then show ?case by simp
next
  case (Cons p d)
  show ?case
  proof (cases "fst p = k")
    case True
    then have "map_of d k = None" using Cons.prems(1) by (auto simp: map_of_eq_None_iff)
    with True show ?thesis by (simp add: dict_pop_fresh)
  next
    case False
    with Cons show ?thesis by (cases p) auto
  qed
qed

lemma distinct_snd_inject:
  "distinct (map snd d) \<Longrightarrow> (j, v) \<in> set d \<Longrightarrow> (k, v) \<in> set d \<Longrightarrow> j = k"
  by (induction d) force+

section \<open>Decimal notation of integers\<close>

definition digit_char :: "nat \<Rightarrow> char" where
  "digit_char d = char_of (48 + d)"

fun py_str_nat :: "nat \<Rightarrow> string" where
  "py_str_nat n = (if n < 10 then [digit_char n]
                   else py_str_nat (n div 10) @ [digit_char (n mod 10)])"

declare py_str_nat.simps [simp del]

definition py_str_int :: "int \<Rightarrow> string" where
  "py_str_int i = (if i < 0 then CHR ''-'' # py_str_nat (nat (- i)) else py_str_nat (nat i))"

text \<open>Reading a decimal numeral back inverts the printing, so printing is injective.\<close>

definition digits_value :: "string \<Rightarrow> nat" where
  "digits_value s = foldl (\<lambda>a c. 10 * a + (of_char c - 48)) 0 s"

lemma of_char_digit_char: "d < 10 \<Longrightarrow> (of_char (digit_char d) :: nat) = 48 + d"
  by (simp add: digit_char_def)

lemma digits_value_py_str_nat: "digits_value (py_str_nat n) = n"
proof (induction n rule: py_str_nat.induct)
  case (1 n)
  show ?case
  proof (cases "n < 10")
    case True
    then show ?thesis
      by (simp add: py_str_nat.simps [of n] digits_value_def of_char_digit_char)
  next
    case False
    with 1 have "digits_value (py_str_nat (n div 10)) = n div 10" by simp
    with False show ?thesis
      by (simp add: py_str_nat.simps [of n] digits_value_def of_char_digit_char)
  qed
qed

lemma py_str_nat_inject: "py_str_nat m = py_str_nat n \<longleftrightarrow> m = n"
  by (metis digits_value_py_str_nat)

lemma py_str_nat_nonempty: "py_str_nat n \<noteq> []"
  by (subst py_str_nat.simps) simp

lemma py_str_int_inject:
  "0 \<le> i \<Longrightarrow> 0 \<le> j \<Longrightarrow> py_str_int i = py_str_int j \<longleftrightarrow> i = j"
  by (simp add: py_str_int_def py_str_nat_inject nat_eq_iff)

section \<open>Lists\<close>

lemma nth_list_update_field: "f y = f (xs ! i) \<Longrightarrow> f (xs[i := y] ! j) = f (xs ! j)"
  by (cases "i < length xs"; cases "i = j") (simp_all add: list_update_beyond)

lemma nth_list_update_if [object_simps]:
  "j < length xs \<Longrightarrow> xs[i := x] ! j = (if i = j then x else xs ! j)"
  by (simp add: nth_list_update)

lemma map_nth_slice:
  "b \<le> length xs \<Longrightarrow> map ((!) xs) [a..<b] = take (b - a) (drop a xs)"
  by (rule nth_equalityI) auto

end
