(* ===== verification/Py_Float.thy ===== *)
theory Py_Float
  imports Pype_Prelude
begin

text \<open>
  Python floats. The program computes with \<open>float\<close> wherever it handles time
  (\<open>time.monotonic()\<close>, deadlines, the reaper's thresholds), and a Python float is an
  IEEE-754 double. A float is modelled by the rational it denotes, and every arithmetic
  operation by the exact operation followed by \<open>fl\<close>, the rounding to 53 significant bits,
  ties to even. The exponent range is not modelled: all the program's times lie between
  microseconds and years, far from overflow and from the subnormal numbers.

  \<^item> \<open>ilog2\<close>, \<open>two_pow\<close>, \<open>binade\<close>, \<open>round_even\<close>, \<open>fl\<close>: the rounding, executable.
  \<^item> locale \<open>rounding\<close>: what the time computations rely on (monotone, exact on integers
    up to $2^{53}$, relative error, idempotent), interpreted on \<open>fl\<close> as \<open>binary64\<close>.
  \<^item> \<open>deadline_at\<close> and \<open>ms_until\<close>: the two expressions every deadline of the program is
    made of, \<open>now + ms / 1000.0\<close> and \<open>int((deadline - now) * 1000)\<close>, with the bounds
    that hold in spite of the rounding.
\<close>

section \<open>Rounding to 53 bits\<close>

fun ilog2 :: "int \<Rightarrow> int" where
  "ilog2 n = (if n \<le> 1 then 0 else 1 + ilog2 (n div 2))"

declare ilog2.simps [simp del]

definition two_pow :: "int \<Rightarrow> rat" where
  "two_pow e = (if 0 \<le> e then 2 ^ nat e else 1 / 2 ^ nat (- e))"

definition binade :: "rat \<Rightarrow> int" where
  "binade x = (case quotient_of x of (n, d) \<Rightarrow>
     let k = ilog2 n - ilog2 d in if two_pow k \<le> x then k else k - 1)"

definition round_even :: "rat \<Rightarrow> int" where
  "round_even y = (let f = \<lfloor>y\<rfloor>; r = y - of_int f in
     if r < 1 / 2 then f else if 1 / 2 < r then f + 1 else if even f then f else f + 1)"

definition fl_pos :: "rat \<Rightarrow> rat" where
  "fl_pos x = (let u = two_pow (binade x - 52) in of_int (round_even (x / u)) * u)"

definition fl :: "rat \<Rightarrow> rat" where
  "fl x = (if x = 0 then 0 else if 0 < x then fl_pos x else - fl_pos (- x))"

lemma ilog2_bounds: "1 \<le> n \<Longrightarrow> 0 \<le> ilog2 n \<and> 2 ^ nat (ilog2 n) \<le> n \<and> n < 2 * 2 ^ nat (ilog2 n)"
proof (induction n rule: ilog2.induct)
  case (1 n)
  show ?case
  proof (cases "n \<le> 1")
    case True
    with 1 show ?thesis by (simp add: ilog2.simps)
  next
    case False
    let ?l = "ilog2 (n div 2)"
    from False 1 have IH: "0 \<le> ?l" "2 ^ nat ?l \<le> n div 2" "n div 2 < 2 * 2 ^ nat ?l"
      by auto
    have eq: "ilog2 n = 1 + ?l" using False by (subst ilog2.simps) simp
    have "nat (1 + ?l) = Suc (nat ?l)" using IH(1) by simp
    with IH show ?thesis unfolding eq by simp linarith
  qed
qed

lemma two_pow_pos [simp]: "0 < two_pow e"
  by (simp add: two_pow_def)

lemma two_pow_powi: "two_pow e = 2 powi e"
  by (simp add: two_pow_def power_int_def field_simps)

lemma two_pow_add: "two_pow (a + b) = two_pow a * two_pow b"
  by (simp add: two_pow_powi power_int_add)

lemma two_pow_mono: "a \<le> b \<Longrightarrow> two_pow a \<le> two_pow b"
  by (simp add: two_pow_powi power_int_increasing)

lemma two_pow_nat: "two_pow (int n) = 2 ^ n"
  by (simp add: two_pow_def)

lemma two_pow_ilog2:
  assumes "1 \<le> n"
  shows "two_pow (ilog2 n) \<le> of_int n" "of_int n < 2 * two_pow (ilog2 n)"
proof -
  have b: "0 \<le> ilog2 n" "2 ^ nat (ilog2 n) \<le> n" "n < 2 * 2 ^ nat (ilog2 n)"
    using ilog2_bounds [OF assms] by auto
  have "rat_of_int (2 ^ nat (ilog2 n)) \<le> of_int n" using b(2) by (simp only: of_int_le_iff)
  then show "two_pow (ilog2 n) \<le> of_int n" using b(1) by (simp add: two_pow_def)
  have "rat_of_int n < of_int (2 * 2 ^ nat (ilog2 n))" using b(3) by (simp only: of_int_less_iff)
  then show "of_int n < 2 * two_pow (ilog2 n)" using b(1) by (simp add: two_pow_def)
qed

lemma binade_bounds:
  assumes "0 < x"
  shows "two_pow (binade x) \<le> x" "x < 2 * two_pow (binade x)"
proof -
  obtain n d where q: "quotient_of x = (n, d)" by (cases "quotient_of x")
  have d: "0 < d" using q by (rule quotient_of_denom_pos)
  have x: "x = of_int n / of_int d" using q by (rule quotient_of_div)
  have n: "1 \<le> n" using assms d unfolding x by (simp add: zero_less_divide_iff)
  let ?a = "ilog2 n" and ?b = "ilog2 d"
  note A = two_pow_ilog2 [OF n]
  have "1 \<le> d" using d by simp
  note B = two_pow_ilog2 [OF this]
  have k: "two_pow (?a - ?b) * two_pow ?b = two_pow ?a" by (simp flip: two_pow_add)
  have dpos: "0 < rat_of_int d" using d by simp
  have up: "x < 2 * two_pow (?a - ?b)"
  proof -
    have "of_int n < 2 * two_pow (?a - ?b) * two_pow ?b" using A(2) k by (simp add: mult.assoc)
    also have "\<dots> \<le> 2 * two_pow (?a - ?b) * of_int d" using B(1) by (intro mult_left_mono) (simp_all add: less_imp_le)
    finally show ?thesis using dpos by (simp add: x divide_less_eq)
  qed
  have lo: "two_pow (?a - ?b) < 2 * x"
  proof -
    have "two_pow (?a - ?b) * of_int d < two_pow (?a - ?b) * (2 * two_pow ?b)"
      using B(2) by (intro mult_strict_left_mono) simp_all
    also have "\<dots> \<le> 2 * of_int n" using A(1) k by (simp add: mult.left_commute)
    finally show ?thesis using dpos by (simp add: x field_simps)
  qed
  have half: "two_pow (?a - ?b) = 2 * two_pow (?a - ?b - 1)"
    using two_pow_add[of 1 "?a - ?b - 1"] by (simp add: two_pow_def[of 1])
  show "two_pow (binade x) \<le> x" "x < 2 * two_pow (binade x)"
    using up lo half by (auto simp: binade_def q Let_def)
qed


lemma binade_unique:
  assumes "0 < x" "two_pow k \<le> x" "x < 2 * two_pow k"
  shows "binade x = k"
proof (rule antisym)
  have *: "2 * two_pow k = two_pow (k + 1)" for k
    using two_pow_add [of k 1] by (simp add: two_pow_def [of 1])
  have mono: "a < b" if "two_pow a < two_pow b" for a b
    using that two_pow_mono [of b a] by (cases "a < b") auto
  show "binade x \<le> k"
    using binade_bounds [OF assms(1)] assms * mono [of "binade x" "k + 1"] by (metis le_less_trans zless_imp_add1_zle add_le_cancel_right)
  show "k \<le> binade x"
    using binade_bounds [OF assms(1)] assms * mono [of k "binade x + 1"] by (metis le_less_trans zless_imp_add1_zle add_le_cancel_right)
qed

lemma round_even_mono: "x \<le> y \<Longrightarrow> round_even x \<le> round_even y"
proof -
  assume le: "x \<le> y"
  then have fl: "\<lfloor>x\<rfloor> \<le> \<lfloor>y\<rfloor>" by (rule floor_mono)
  show ?thesis
  proof (cases "\<lfloor>x\<rfloor> = \<lfloor>y\<rfloor>")
    case True
    then show ?thesis using le by (simp add: round_even_def Let_def)
  next
    case False
    then have "\<lfloor>x\<rfloor> + 1 \<le> \<lfloor>y\<rfloor>" using fl by simp
    moreover have "round_even x \<le> \<lfloor>x\<rfloor> + 1" and "\<lfloor>y\<rfloor> \<le> round_even y"
      by (auto simp: round_even_def Let_def)
    ultimately show ?thesis by linarith
  qed
qed

lemma round_even_int [simp]: "round_even (of_int n) = n"
  by (simp add: round_even_def)

lemma round_even_error: "\<bar>of_int (round_even y) - y\<bar> \<le> 1 / 2"
proof -
  have "of_int \<lfloor>y\<rfloor> \<le> y" "y < of_int \<lfloor>y\<rfloor> + 1" by linarith+
  then show ?thesis by (auto simp: round_even_def Let_def abs_le_iff)
qed

lemma fl_pos_ulp:
  assumes "0 < x"
  defines "u \<equiv> two_pow (binade x - 52)"
  shows "0 < u" "two_pow (binade x) = 2 ^ 52 * u" "2 ^ 52 \<le> x / u" "x / u < 2 ^ 53"
    "fl_pos x = of_int (round_even (x / u)) * u"
proof -
  show u: "0 < u" by (simp add: u_def)
  show e: "two_pow (binade x) = 2 ^ 52 * u"
    using two_pow_add [of 52 "binade x - 52"] by (simp add: u_def two_pow_def [of 52])
  show "2 ^ 52 \<le> x / u" "x / u < 2 ^ 53"
    using binade_bounds [OF assms(1)] u e by (simp_all add: le_divide_eq divide_less_eq)
  show "fl_pos x = of_int (round_even (x / u)) * u" by (simp add: fl_pos_def u_def Let_def)
qed

lemma fl_pos_binade:
  assumes "0 < x"
  shows "two_pow (binade x) \<le> fl_pos x" "fl_pos x \<le> 2 * two_pow (binade x)"
proof -
  define u where "u = two_pow (binade x - 52)"
  note f = fl_pos_ulp [OF assms, folded u_def]
  have lo: "2 ^ 52 \<le> round_even (x / u)" "round_even (x / u) \<le> 2 ^ 53"
    using round_even_mono [OF f(3)] round_even_mono [OF less_imp_le [OF f(4)]]
      round_even_int [of "2 ^ 52"] round_even_int [of "2 ^ 53"] by simp_all
  have "rat_of_int (2 ^ 52) \<le> of_int (round_even (x / u))"
    "of_int (round_even (x / u)) \<le> rat_of_int (2 ^ 53)"
    using lo by (simp_all only: of_int_le_iff)
  with f(1) show "two_pow (binade x) \<le> fl_pos x" "fl_pos x \<le> 2 * two_pow (binade x)"
    unfolding f(2,5) by simp_all
qed

lemma fl_pos_error: "0 < x \<Longrightarrow> \<bar>fl_pos x - x\<bar> \<le> x / 2 ^ 53"
proof -
  assume x: "0 < x"
  define u where "u = two_pow (binade x - 52)"
  note f = fl_pos_ulp [OF x, folded u_def]
  have "fl_pos x - x = (of_int (round_even (x / u)) - x / u) * u"
    using f(1) by (simp add: f(5) field_simps)
  then have "\<bar>fl_pos x - x\<bar> \<le> (1 / 2) * u"
    using f(1) round_even_error [of "x / u"] by (simp add: abs_mult mult_right_mono)
  also have "\<dots> \<le> x / 2 ^ 53"
    using f(1,3) by (simp add: le_divide_eq field_simps)
  finally show ?thesis .
qed

lemma fl_pos_mono:
  assumes "0 < x" "x \<le> y"
  shows "fl_pos x \<le> fl_pos y"
proof -
  have y: "0 < y" using assms by simp
  show ?thesis
  proof (cases "binade x = binade y")
    case True
    define u where "u = two_pow (binade x - 52)"
    note f = fl_pos_ulp [OF assms(1), folded u_def]
    note g = fl_pos_ulp [OF y, folded True, folded u_def]
    have "x / u \<le> y / u" using assms(2) f(1) by (simp add: divide_right_mono)
    then show ?thesis unfolding f(5) g(5)
      using f(1) round_even_mono by (simp add: mult_right_mono)
  next
    case False
    have "two_pow (binade x) < 2 * two_pow (binade y)"
      using binade_bounds [OF assms(1)] binade_bounds [OF y] assms(2) by linarith
    moreover have dbl: "2 * two_pow k = two_pow (k + 1)" for k
      using two_pow_add [of k 1] by (simp add: two_pow_def [of 1])
    ultimately have "binade x < binade y + 1"
      using two_pow_mono [of "binade y + 1" "binade x"] by (cases "binade x < binade y + 1") auto
    with False have "binade x + 1 \<le> binade y" by simp
    then have "2 * two_pow (binade x) \<le> two_pow (binade y)"
      using two_pow_mono dbl by simp
    then show ?thesis
      using fl_pos_binade [OF assms(1)] fl_pos_binade [OF y] by linarith
  qed
qed

lemma two_pow_52: "two_pow 52 = 2 ^ 52"
  by (simp add: two_pow_def)

lemma fl_pos_exact:
  assumes "0 < x" "x = of_int m * two_pow (binade x - 52)"
  shows "fl_pos x = x"
proof -
  have "x / two_pow (binade x - 52) = of_int m"
    by (subst (1) assms(2)) (simp add: less_imp_neq [OF two_pow_pos, THEN not_sym])
  then show ?thesis using assms(2) by (simp add: fl_pos_def Let_def)
qed

lemma fl_pos_int:
  assumes "1 \<le> n" "n \<le> 2 ^ 53"
  shows "fl_pos (of_int n) = of_int n"
proof (rule fl_pos_exact)
  let ?e = "binade (of_int n)"
  have n: "0 < rat_of_int n" using assms by simp
  then show "0 < rat_of_int n" .
  note b = binade_bounds [OF n]
  show "rat_of_int n = of_int (if n = 2 ^ 53 then 2 ^ 52 else n * 2 ^ nat (52 - ?e)) * two_pow (?e - 52)"
  proof (cases "n = 2 ^ 53")
    case True
    have "binade (2 ^ 53) = 53" by (rule binade_unique) (simp_all add: two_pow_def)
    with True show ?thesis by (simp add: two_pow_def)
  next
    case False
    with assms have "n < 2 ^ 53" by simp
    then have "rat_of_int n < of_int (2 ^ 53)" by (simp only: of_int_less_iff)
    with b have "two_pow ?e < two_pow 53" by (simp add: two_pow_def [of 53])
    then have "?e < 53" using two_pow_mono [of 53 ?e] by (cases "?e < 53") auto
    then have "int (nat (52 - ?e)) = 52 - ?e" by simp
    then have "2 ^ nat (52 - ?e) * two_pow (?e - 52) = 1"
      using two_pow_add [of "52 - ?e" "?e - 52"] two_pow_nat [of "nat (52 - ?e)"]
      by (simp add: two_pow_def [of 0])
    with False show ?thesis by (simp add: mult.assoc)
  qed
qed

lemma fl_pos_idem:
  assumes "0 < x"
  shows "fl_pos (fl_pos x) = fl_pos x"
proof -
  define u where "u = two_pow (binade x - 52)"
  note f = fl_pos_ulp [OF assms, folded u_def]
  note b = fl_pos_binade [OF assms]
  have pos: "0 < fl_pos x" using b(1) two_pow_pos [of "binade x"] by linarith
  have dbl: "2 * two_pow k = two_pow (k + 1)" for k
    using two_pow_add [of k 1] by (simp add: two_pow_def [of 1])
  show ?thesis
  proof (cases "fl_pos x < 2 * two_pow (binade x)")
    case True
    then have "binade (fl_pos x) = binade x" using b(1) pos by (intro binade_unique)
    then have "fl_pos x = of_int (round_even (x / u)) * two_pow (binade (fl_pos x) - 52)"
      using f(5) by (simp only: u_def)
    then show ?thesis by (rule fl_pos_exact [OF pos])
  next
    case False
    then have eq: "fl_pos x = two_pow (binade x + 1)" using b(2) dbl by simp
    have "binade (fl_pos x) = binade x + 1"
      unfolding eq by (intro binade_unique) simp_all
    moreover have "two_pow (binade x + 1) = of_int (2 ^ 52) * two_pow (binade x + 1 - 52)"
      using two_pow_add [of 52 "binade x + 1 - 52"]
      by (simp add: two_pow_52 add.commute)
    ultimately have "fl_pos x = of_int (2 ^ 52) * two_pow (binade (fl_pos x) - 52)"
      using eq by simp
    then show ?thesis by (rule fl_pos_exact [OF pos])
  qed
qed

lemma fl_0 [simp]: "fl 0 = 0"
  by (simp add: fl_def)

lemma fl_uminus: "fl (- x) = - fl x"
  by (auto simp: fl_def)

lemma fl_pos_pos: "0 < x \<Longrightarrow> 0 < fl_pos x"
  using fl_pos_binade(1) [of x] two_pow_pos [of "binade x"] by linarith

lemma fl_mono: "x \<le> y \<Longrightarrow> fl x \<le> fl y"
  using fl_pos_mono [of x y] fl_pos_mono [of "- y" "- x"] fl_pos_pos [of y] fl_pos_pos [of "- x"]
  by (auto simp: fl_def)

lemma fl_int: "\<bar>n\<bar> \<le> 2 ^ 53 \<Longrightarrow> fl (of_int n) = of_int n"
  using fl_pos_int [of n] fl_pos_int [of "- n"] by (auto simp: fl_def)

lemma fl_error: "\<bar>fl x - x\<bar> \<le> \<bar>x\<bar> / 2 ^ 53"
proof (cases "0 < x \<or> x = 0")
  case True
  then show ?thesis using fl_pos_error [of x] by (auto simp: fl_def)
next
  case False
  then have "fl x - x = - (fl_pos (- x) - (- x))" by (simp add: fl_def)
  with False show ?thesis using fl_pos_error [of "- x"] by (simp only: abs_minus_cancel) simp
qed

lemma fl_idem [simp]: "fl (fl x) = fl x"
  using fl_pos_idem [of x] fl_pos_idem [of "- x"] fl_pos_pos [of x] fl_pos_pos [of "- x"]
  by (auto simp: fl_def)


section \<open>What the time computations rely on\<close>

text \<open>\<open>int(x)\<close> on a float truncates towards zero.\<close>

definition trunc :: "rat \<Rightarrow> int" where
  "trunc x = (if 0 \<le> x then \<lfloor>x\<rfloor> else \<lceil>x\<rceil>)"

locale rounding =
  fixes rnd :: "rat \<Rightarrow> rat"
  assumes rnd_mono: "x \<le> y \<Longrightarrow> rnd x \<le> rnd y"
    and rnd_int: "\<bar>n\<bar> \<le> 2 ^ 53 \<Longrightarrow> rnd (of_int n) = of_int n"
    and rnd_error: "\<bar>rnd x - x\<bar> \<le> \<bar>x\<bar> / 2 ^ 53"
    and rnd_idem: "rnd (rnd x) = rnd x"
begin

lemma rnd_0 [simp]: "rnd 0 = 0"
  using rnd_int [of 0] by simp

lemma rnd_nonneg: "0 \<le> x \<Longrightarrow> 0 \<le> rnd x"
  using rnd_mono [of 0 x] by simp

lemma rnd_nonpos: "x \<le> 0 \<Longrightarrow> rnd x \<le> 0"
  using rnd_mono [of x 0] by simp

lemma rnd_le_fixed: "x \<le> y \<Longrightarrow> rnd y = y \<Longrightarrow> rnd x \<le> y"
  using rnd_mono [of x y] by simp

lemma rnd_ge_fixed: "y \<le> x \<Longrightarrow> rnd y = y \<Longrightarrow> y \<le> rnd x"
  using rnd_mono [of y x] by simp

lemma rnd_le_int: "x \<le> of_int n \<Longrightarrow> \<bar>n\<bar> \<le> 2 ^ 53 \<Longrightarrow> rnd x \<le> of_int n"
  using rnd_le_fixed rnd_int by blast

lemma rnd_ge_int: "of_int n \<le> x \<Longrightarrow> \<bar>n\<bar> \<le> 2 ^ 53 \<Longrightarrow> of_int n \<le> rnd x"
  using rnd_ge_fixed rnd_int by blast

lemma rnd_near:
  assumes "\<bar>x\<bar> \<le> 2 ^ 33"
  shows "x - 1 / 2 ^ 20 \<le> rnd x" "rnd x \<le> x + 1 / 2 ^ 20"
proof -
  have "\<bar>x\<bar> / 2 ^ 53 \<le> 1 / 2 ^ 20" using assms by simp
  with rnd_error [of x] have "\<bar>rnd x - x\<bar> \<le> 1 / 2 ^ 20" by (rule order_trans)
  then show "x - 1 / 2 ^ 20 \<le> rnd x" "rnd x \<le> x + 1 / 2 ^ 20" by (simp_all only: abs_le_iff) linarith+
qed

end

interpretation binary64: rounding fl
  by unfold_locales (rule fl_mono fl_int fl_error fl_idem, assumption?)+

section \<open>Float arithmetic and deadlines\<close>

definition py_add :: "rat \<Rightarrow> rat \<Rightarrow> rat" where "py_add x y = fl (x + y)"
definition py_sub :: "rat \<Rightarrow> rat \<Rightarrow> rat" where "py_sub x y = fl (x - y)"
definition py_mul :: "rat \<Rightarrow> rat \<Rightarrow> rat" where "py_mul x y = fl (x * y)"
definition py_div :: "rat \<Rightarrow> rat \<Rightarrow> rat" where "py_div x y = fl (x / y)"

definition deadline_at :: "rat \<Rightarrow> int \<Rightarrow> rat" where
  "deadline_at now ms = py_add now (py_div (of_int ms) 1000)"

definition ms_until :: "rat \<Rightarrow> rat \<Rightarrow> int" where
  "ms_until deadline now = trunc (py_mul (py_sub deadline now) 1000)"

lemma trunc_mono:
  assumes "x \<le> y"
  shows "trunc x \<le> trunc y"
proof (cases "0 \<le> x \<or> y < 0")
  case True
  then show ?thesis using assms by (auto simp: trunc_def intro: floor_mono ceiling_mono)
next
  case False
  then have "\<lceil>x\<rceil> \<le> 0" "0 \<le> \<lfloor>y\<rfloor>" by simp_all
  then have "\<lceil>x\<rceil> \<le> \<lfloor>y\<rfloor>" by (rule order_trans)
  with False show ?thesis by (simp add: trunc_def)
qed

lemma trunc_le: "x < of_int n + 1 \<Longrightarrow> 0 \<le> n \<Longrightarrow> trunc x \<le> n"
  unfolding trunc_def by (auto split: if_splits) linarith+

lemma trunc_gt: "x - 1 < of_int (trunc x)"
  unfolding trunc_def by (auto split: if_splits) linarith+

lemma trunc_pos: "0 < trunc x \<Longrightarrow> 0 < x" "0 < trunc x \<Longrightarrow> of_int (trunc x) \<le> x"
  unfolding trunc_def by (auto split: if_splits)

lemma ms_until_antimono: "t \<le> t' \<Longrightarrow> ms_until d t' \<le> ms_until d t"
  unfolding ms_until_def py_mul_def py_sub_def by (intro trunc_mono fl_mono mult_right_mono) simp_all

lemma deadline_at_bounds:
  assumes "0 \<le> now" "now \<le> 2 ^ 32" "0 \<le> ms" "ms \<le> 2 ^ 32"
  shows "deadline_at now ms \<le> now + of_int ms / 1000 + 2 / 2 ^ 20"
    "now + of_int ms / 1000 - 2 / 2 ^ 20 \<le> deadline_at now ms"
    "now \<le> deadline_at now ms \<or> fl now \<noteq> now"
proof -
  let ?q = "rat_of_int ms / 1000"
  have ms: "0 \<le> rat_of_int ms" "rat_of_int ms \<le> 2 ^ 32" 
    using assms(3,4) of_int_le_iff [of ms "2 ^ 32", where 'a = rat] by simp_all
  have q: "\<bar>?q\<bar> \<le> 2 ^ 33" using ms by (simp add: abs_le_iff)
  note A = binary64.rnd_near [OF q]
  have "\<bar>now + fl ?q\<bar> \<le> 2 ^ 33"
    using assms ms A binary64.rnd_nonneg [of ?q] by (simp add: abs_le_iff)
  note B = binary64.rnd_near [OF this]
  show "deadline_at now ms \<le> now + ?q + 2 / 2 ^ 20" "now + ?q - 2 / 2 ^ 20 \<le> deadline_at now ms"
    using A B by (simp_all add: deadline_at_def py_add_def py_div_def)
  show "now \<le> deadline_at now ms \<or> fl now \<noteq> now"
    using binary64.rnd_nonneg [of ?q] ms fl_mono [of now "now + fl ?q"]
    by (auto simp: deadline_at_def py_add_def py_div_def)
qed

lemma ms_until_le:
  assumes "0 \<le> t" "t \<le> 2 ^ 32" "0 \<le> ms" "ms \<le> 2 ^ 32" "t \<le> now"
  shows "ms_until (deadline_at t ms) now \<le> ms"
proof -
  note D = deadline_at_bounds [OF assms(1-4)]
  have ms: "0 \<le> rat_of_int ms" "rat_of_int ms \<le> 2 ^ 32" 
    using assms(3,4) of_int_le_iff [of ms "2 ^ 32", where 'a = rat] by simp_all
  have "ms_until (deadline_at t ms) now \<le> ms_until (deadline_at t ms) t"
    by (rule ms_until_antimono [OF assms(5)])
  also have "\<dots> \<le> ms"
  proof -
    let ?s = "deadline_at t ms - t"
    have s: "?s \<le> of_int ms / 1000 + 2 / 2 ^ 20" "of_int ms / 1000 - 2 / 2 ^ 20 \<le> ?s" using D by simp_all
    then have "\<bar>?s\<bar> \<le> 2 ^ 33" using ms by (simp add: abs_le_iff)
    note A = binary64.rnd_near [OF this]
    have "\<bar>fl ?s * 1000\<bar> \<le> 2 ^ 33" using A s ms by (simp add: abs_le_iff)
    note B = binary64.rnd_near [OF this]
    have "fl (fl ?s * 1000) < of_int ms + 1" using A B s by simp
    then show ?thesis unfolding ms_until_def py_mul_def py_sub_def
      by (rule trunc_le) (rule assms(3))
  qed
  finally show ?thesis .
qed

lemma ms_until_ge:
  assumes "0 \<le> t" "t \<le> 2 ^ 32" "0 \<le> ms" "ms \<le> 2 ^ 32" "t \<le> now" "now \<le> t + 2 ^ 22"
  shows "of_int ms - 1000 * (now - t) - 2 < rat_of_int (ms_until (deadline_at t ms) now)"
proof -
  note D = deadline_at_bounds [OF assms(1-4)]
  have ms: "0 \<le> rat_of_int ms" "rat_of_int ms \<le> 2 ^ 32" 
    using assms(3,4) of_int_le_iff [of ms "2 ^ 32", where 'a = rat] by simp_all
  let ?s = "deadline_at t ms - now"
  have s: "?s \<le> of_int ms / 1000 + 2 / 2 ^ 20" "of_int ms / 1000 - (now - t) - 2 / 2 ^ 20 \<le> ?s"
    using D assms(5) by simp_all
  then have "\<bar>?s\<bar> \<le> 2 ^ 33" using ms assms(6) by (simp add: abs_le_iff)
  note A = binary64.rnd_near [OF this]
  have "\<bar>fl ?s * 1000\<bar> \<le> 2 ^ 33" using A s ms assms(6) by (simp add: abs_le_iff)
  note B = binary64.rnd_near [OF this]
  have "of_int ms - 1000 * (now - t) - 1 < fl (fl ?s * 1000)" using A B s by simp
  then show ?thesis using trunc_gt [of "fl (fl ?s * 1000)"]
    unfolding ms_until_def py_mul_def py_sub_def by linarith
qed

lemma ms_until_upper:
  assumes "0 \<le> t" "t \<le> now" "t \<le> 2 ^ 32" "now \<le> 2 ^ 32" "0 \<le> ms" "ms \<le> 2 ^ 32"
    and "0 < ms_until (deadline_at t ms) now"
  shows "now + of_int (ms_until (deadline_at t ms) now) / 1000 \<le> deadline_at t ms + 2 / 2 ^ 20"
proof -
  note D = deadline_at_bounds [OF assms(1,3,5,6)]
  have ms: "0 \<le> rat_of_int ms" "rat_of_int ms \<le> 2 ^ 32"
    using assms(5,6) of_int_le_iff [of ms "2 ^ 32", where 'a = rat] by simp_all
  let ?s = "deadline_at t ms - now"
  have "?s \<le> of_int ms / 1000 + 2 / 2 ^ 20" "- (2 ^ 32) - 1 \<le> ?s" using D assms(1-4) ms by simp_all
  then have "\<bar>?s\<bar> \<le> 2 ^ 33" using ms by (simp add: abs_le_iff)
  note A = binary64.rnd_near [OF this]
  let ?p = "fl (fl ?s * 1000)"
  have p: "0 < ?p" "of_int (ms_until (deadline_at t ms) now) \<le> ?p"
    using trunc_pos [OF assms(7) [unfolded ms_until_def py_mul_def py_sub_def]]
    by (simp_all add: ms_until_def py_mul_def py_sub_def)
  have "0 < fl ?s * 1000"
  proof (rule ccontr)
    assume "\<not> 0 < fl ?s * 1000"
    then show False using binary64.rnd_nonpos [of "fl ?s * 1000"] p(1) by simp
  qed
  then have "\<bar>fl ?s * 1000\<bar> \<le> 2 ^ 33" using A \<open>?s \<le> of_int ms / 1000 + 2 / 2 ^ 20\<close> ms by (simp add: abs_le_iff)
  note B = binary64.rnd_near [OF this]
  with A p(2) show ?thesis by simp
qed

section \<open>The monotonic clock\<close>

text \<open>
  \<open>time.monotonic()\<close>: the clock holds its last reading and how much time passes before each of
  the next readings (\<open>ticks\<close>; when they are used up the clock stands still until it is
  advanced). The code between two readings takes an unknown time, so theorems quantify over
  \<open>ticks\<close>.
\<close>

record mono_clock =
  now :: rat
  ticks :: "rat list"

definition monotonic :: "mono_clock \<Rightarrow> rat \<times> mono_clock" where
  "monotonic c = (case ticks c of
     [] \<Rightarrow> (now c, c)
   | d # ds \<Rightarrow> (now c + d, c\<lparr>now := now c + d, ticks := ds\<rparr>))"

definition advance :: "rat \<Rightarrow> mono_clock \<Rightarrow> mono_clock" where
  "advance t c = (if now c \<le> t then c\<lparr>now := t\<rparr> else c)"

definition clock_ok :: "mono_clock \<Rightarrow> bool" where
  "clock_ok c \<longleftrightarrow> 0 \<le> now c \<and> list_all (\<lambda>d. 0 \<le> d) (ticks c)"

lemma monotonic_ok:
  assumes "monotonic c = (t, c')" "clock_ok c"
  shows "clock_ok c'" "now c \<le> t" "now c' = t"
  using assms by (auto simp: monotonic_def clock_ok_def split: list.splits)

lemma advance_ok: "clock_ok c \<Longrightarrow> clock_ok (advance t c)" "now c \<le> now (advance t c)" "t \<le> now (advance t c)"
  by (auto simp: advance_def clock_ok_def)

end
