(* ===== verification/Config.thy ===== *)
theory Config
  imports Py_Float
begin

text \<open>
  \<open>config.py\<close>: the server's settings with the constraints pydantic checks on them
  (\<open>settings_valid\<close>), and the detection of the host's private address. The two lookups
  (\<open>socket.gethostbyname_ex\<close> and the UDP probe) are inputs, \<open>None\<close> standing for the
  \<open>OSError\<close> that the code swallows; \<open>parse_ipv4\<close> is \<open>ipaddress.IPv4Address\<close> on a string.
\<close>

unbundle bit_operations_syntax

section \<open>Settings\<close>

record settings =
  jwt_secret_key :: string
  jwt_algorithm :: string
  max_timeout_ms :: int
  client_queue_max_size :: int
  service_queue_max_size :: int
  client_reaper_period_seconds :: rat
  client_reaper_batch_size :: int
  client_reaper_target_sweep_seconds :: rat
  client_inactivity_threshold_seconds :: rat
  default_content_type :: string
  internal_ip :: string

definition default_settings :: "string \<Rightarrow> settings" where
  "default_settings ip = \<lparr>
     jwt_secret_key = ''dev-only-secret-change-in-production'', jwt_algorithm = ''HS256'',
     max_timeout_ms = 480000, client_queue_max_size = 8, service_queue_max_size = 8000,
     client_reaper_period_seconds = 60, client_reaper_batch_size = 1000,
     client_reaper_target_sweep_seconds = 600, client_inactivity_threshold_seconds = 600,
     default_content_type = ''application/json'', internal_ip = ip\<rparr>"

text \<open>The \<open>ge\<close> and \<open>gt\<close> constraints of the fields; the seconds are floats.\<close>

definition settings_valid :: "settings \<Rightarrow> bool" where
  "settings_valid cfg \<longleftrightarrow>
     1 \<le> max_timeout_ms cfg \<and> 1 \<le> client_queue_max_size cfg \<and> 1 \<le> service_queue_max_size cfg \<and>
     0 < client_reaper_period_seconds cfg \<and> 1 \<le> client_reaper_batch_size cfg \<and>
     0 < client_reaper_target_sweep_seconds cfg \<and> 0 < client_inactivity_threshold_seconds cfg \<and>
     fl (client_reaper_period_seconds cfg) = client_reaper_period_seconds cfg \<and>
     fl (client_reaper_target_sweep_seconds cfg) = client_reaper_target_sweep_seconds cfg \<and>
     fl (client_inactivity_threshold_seconds cfg) = client_inactivity_threshold_seconds cfg"

lemma default_settings_valid: "settings_valid (default_settings ip)"
  using fl_int [of 60] fl_int [of 600] by (simp add: settings_valid_def default_settings_def)

section \<open>IPv4 addresses\<close>

fun split_on :: "char \<Rightarrow> string \<Rightarrow> string list" where
  "split_on sep [] = [[]]"
| "split_on sep (c # cs) =
     (if c = sep then [] # split_on sep cs
      else case split_on sep cs of [] \<Rightarrow> [[c]] | w # ws \<Rightarrow> (c # w) # ws)"

definition is_digit :: "char \<Rightarrow> bool" where
  "is_digit c \<longleftrightarrow> (48::nat) \<le> of_char c \<and> (of_char c :: nat) \<le> 57"

definition parse_octet :: "string \<Rightarrow> nat option" where
  "parse_octet s =
     (if s = [] \<or> \<not> list_all is_digit s \<or> 3 < length s \<or> (s \<noteq> ''0'' \<and> hd s = CHR ''0'')
        \<or> 255 < digits_value s
      then None else Some (digits_value s))"

definition ipv4_octets :: "string \<Rightarrow> (nat \<times> nat \<times> nat \<times> nat) option" where
  "ipv4_octets s = (case split_on (CHR ''.'') s of
     [w, x, y, z] \<Rightarrow> (case (parse_octet w, parse_octet x, parse_octet y, parse_octet z) of
         (Some a, Some b, Some c, Some d) \<Rightarrow> Some (a, b, c, d)
       | _ \<Rightarrow> None)
   | _ \<Rightarrow> None)"

definition parse_ipv4 :: "string \<Rightarrow> (32 word) option" where
  "parse_ipv4 s = map_option
     (\<lambda>(a, b, c, d). word_of_nat (((a * 256 + b) * 256 + c) * 256 + d)) (ipv4_octets s)"

text \<open>A network is its address and its prefix length; \<open>address in network\<close> masks the address.\<close>

definition in_network :: "32 word \<Rightarrow> 32 word \<times> nat \<Rightarrow> bool" where
  "in_network address network = (case network of (net, prefix) \<Rightarrow> address AND NOT (mask (32 - prefix)) = net)"

definition rfc_1918_networks :: "(32 word \<times> nat) list" where
  "rfc_1918_networks = [(0x0A000000, 8), (0xAC100000, 12), (0xC0A80000, 16)]"

fun first_private :: "string list \<Rightarrow> string option" where
  "first_private [] = None"
| "first_private (candidate # rest) = (case parse_ipv4 candidate of
     None \<Rightarrow> first_private rest
   | Some address \<Rightarrow>
       if list_ex (in_network address) rfc_1918_networks then Some candidate else first_private rest)"

definition detect_internal_ip :: "string list option \<Rightarrow> string option \<Rightarrow> string" where
  "detect_internal_ip by_hostname by_probe =
     (let candidates = (case by_hostname of None \<Rightarrow> [] | Some ips \<Rightarrow> ips) @
                       (case by_probe of None \<Rightarrow> [] | Some ip \<Rightarrow> [ip])
      in case first_private candidates of Some ip \<Rightarrow> ip | None \<Rightarrow> ''127.0.0.1'')"

section \<open>Membership in the private ranges\<close>

lemma parse_octet_bound: "parse_octet s = Some n \<Longrightarrow> n \<le> 255"
  by (auto simp: parse_octet_def split: if_splits)

lemma and_not_mask_eq_iff:
  fixes w net :: "32 word"
  assumes "net AND mask n = 0"
  shows "w AND NOT (mask n) = net \<longleftrightarrow> drop_bit n w = drop_bit n net"
proof
  assume "w AND NOT (mask n) = net"
  moreover have "drop_bit n (w AND NOT (mask n)) = drop_bit n w"
    by (rule bit_eqI) (auto simp: bit_simps dest: bit_imp_le_length)
  ultimately show "drop_bit n w = drop_bit n net" by metis
next
  assume d: "drop_bit n w = drop_bit n net"
  show "w AND NOT (mask n) = net"
  proof (rule bit_word_eqI)
    fix i assume i: "i < LENGTH(32)"
    show "bit (w AND NOT (mask n)) i = bit net i"
    proof (cases "i < n")
      case True
      have "\<not> bit (net AND mask n) i" using assms by simp
      with True i show ?thesis by (auto simp: bit_simps)
    next
      case False
      then have "bit w i = bit net i"
        using arg_cong [OF d, of "\<lambda>x. bit x (i - n)"] by (simp add: bit_simps)
      with False i show ?thesis by (auto simp: bit_simps)
    qed
  qed
qed

text \<open>The private ranges in dotted-quad terms.\<close>

definition private_quad :: "nat \<Rightarrow> nat \<Rightarrow> bool" where
  "private_quad a b \<longleftrightarrow> a = 10 \<or> (a = 172 \<and> 16 \<le> b \<and> b \<le> 31) \<or> (a = 192 \<and> b = 168)"

lemma in_private_iff:
  assumes "a \<le> 255" "b \<le> 255" "c \<le> 255" "d \<le> 255"
  shows "list_ex (in_network (word_of_nat (((a * 256 + b) * 256 + c) * 256 + d))) rfc_1918_networks
    \<longleftrightarrow> private_quad a b"
proof -
  define n where "n = ((a * 256 + b) * 256 + c) * 256 + d"
  let ?w = "word_of_nat n :: 32 word"
  have "n < 2 ^ 32" using assms by (simp add: n_def)
  then have u: "unat ?w = n" by (simp add: unat_of_nat take_bit_nat_eq_self_iff)
  have drop: "drop_bit k ?w = net \<longleftrightarrow> n div 2 ^ k = unat net" for k net
    by (simp only: word_unat_eq_iff unat_drop_bit_eq u) (simp only: drop_bit_eq_div)
  have "in_network ?w (0x0A000000, 8) \<longleftrightarrow> n div 2 ^ 24 = 10"
    unfolding in_network_def prod.case by (subst and_not_mask_eq_iff) (simp_all add: drop mask_eq_exp_minus_1)
  moreover have "in_network ?w (0xAC100000, 12) \<longleftrightarrow> n div 2 ^ 20 = 172 * 16 + 1"
    unfolding in_network_def prod.case by (subst and_not_mask_eq_iff) (simp_all add: drop mask_eq_exp_minus_1)
  moreover have "in_network ?w (0xC0A80000, 16) \<longleftrightarrow> n div 2 ^ 16 = 192 * 256 + 168"
    unfolding in_network_def prod.case by (subst and_not_mask_eq_iff) (simp_all add: drop mask_eq_exp_minus_1)
  moreover have "n div 2 ^ 24 = a" "n div 2 ^ 16 = a * 256 + b" "n div 2 ^ 20 = a * 16 + b div 16"
    using assms by (simp_all add: n_def)
  ultimately have "list_ex (in_network ?w) rfc_1918_networks \<longleftrightarrow>
      a = 10 \<or> a * 16 + b div 16 = 172 * 16 + 1 \<or> a * 256 + b = 192 * 256 + 168"
    by (simp add: rfc_1918_networks_def)
  also have "\<dots> \<longleftrightarrow> private_quad a b"
  proof -
    have "a * 16 + b div 16 = 172 * 16 + 1 \<longleftrightarrow> a = 172 \<and> b div 16 = 1"
    proof -
      have "x \<le> 15 \<Longrightarrow> a * 16 + x = 172 * 16 + 1 \<longleftrightarrow> a = 172 \<and> x = 1" for x :: nat by presburger
      moreover have "b div 16 \<le> 15" using assms(2) by presburger
      ultimately show ?thesis by blast
    qed
    moreover have "b div 16 = 1 \<longleftrightarrow> 16 \<le> b \<and> b \<le> 31"
      using div_nat_eqI [of 16 1 b] div_mult_mod_eq [of b 16] mod_less_divisor [of 16 b] by auto
    moreover have "a * 256 + b = 192 * 256 + 168 \<longleftrightarrow> a = 192 \<and> b = 168"
      using assms(2) by presburger
    ultimately show ?thesis by (simp add: private_quad_def)
  qed
  finally show ?thesis by (simp only: n_def)
qed

lemma first_private_SomeD:
  "first_private cs = Some ip \<Longrightarrow>
    \<exists>pre post w. cs = pre @ ip # post \<and> first_private pre = None \<and> parse_ipv4 ip = Some w \<and>
      list_ex (in_network w) rfc_1918_networks"
proof (induction cs)
  case Nil
  then show ?case by simp
next
  case (Cons x cs)
  show ?case
  proof (cases "\<exists>w. parse_ipv4 x = Some w \<and> list_ex (in_network w) rfc_1918_networks")
    case True
    with Cons.prems have "ip = x" by auto
    with True show ?thesis by (intro exI [of _ "[]"] exI [of _ cs]) auto
  next
    case False
    with Cons.prems have "first_private cs = Some ip" by (auto split: option.splits)
    with Cons.IH obtain pre post w where "cs = pre @ ip # post" "first_private pre = None"
      "parse_ipv4 ip = Some w" "list_ex (in_network w) rfc_1918_networks" by blast
    moreover from False this(2) have "first_private (x # pre) = None" by (auto split: option.splits)
    ultimately show ?thesis
      by (intro exI [of _ "x # pre"] exI [of _ post] exI [of _ w]) (simp del: first_private.simps)
  qed
qed

lemma first_private_None:
  "first_private cs = None \<longleftrightarrow>
    (\<forall>ip \<in> set cs. \<forall>w. parse_ipv4 ip = Some w \<longrightarrow> \<not> list_ex (in_network w) rfc_1918_networks)"
  by (induction cs) (auto split: option.splits)

lemma ipv4_octets_bound:
  "ipv4_octets s = Some (a, b, c, d) \<Longrightarrow> a \<le> 255 \<and> b \<le> 255 \<and> c \<le> 255 \<and> d \<le> 255"
  by (auto simp: ipv4_octets_def dest: parse_octet_bound split: list.splits option.splits)

text \<open>A string that is a dotted quad in one of the private ranges.\<close>

definition is_private_ip :: "string \<Rightarrow> bool" where
  "is_private_ip s = (case ipv4_octets s of Some (a, b, c, d) \<Rightarrow> private_quad a b | None \<Rightarrow> False)"

lemma is_private_ip_iff:
  "is_private_ip s \<longleftrightarrow> (\<exists>w. parse_ipv4 s = Some w \<and> list_ex (in_network w) rfc_1918_networks)"
proof (cases "ipv4_octets s")
  case None
  then show ?thesis by (simp add: is_private_ip_def parse_ipv4_def)
next
  case (Some q)
  obtain a b c d where q: "q = (a, b, c, d)" by (metis prod_cases4)
  with Some ipv4_octets_bound have "a \<le> 255" "b \<le> 255" "c \<le> 255" "d \<le> 255" by blast+
  note in_private_iff [OF this]
  with Some q show ?thesis by (simp only: is_private_ip_def parse_ipv4_def) simp
qed

lemma first_private_None_iff: "first_private cs = None \<longleftrightarrow> (\<forall>ip \<in> set cs. \<not> is_private_ip ip)"
  unfolding first_private_None is_private_ip_iff by blast

text \<open>
  C39: the advertised address is always usable for sticky routing: it is either the fallback
  \<open>127.0.0.1\<close> or one of the addresses the two lookups offered, a dotted quad in 10/8, 172.16/12
  or 192.168/16, and the first such one; the fallback is used exactly when there is none.
\<close>

theorem detect_internal_ip_private:
  "let candidates = (case by_hostname of None \<Rightarrow> [] | Some ips \<Rightarrow> ips) @
                    (case by_probe of None \<Rightarrow> [] | Some ip \<Rightarrow> [ip]);
       ip = detect_internal_ip by_hostname by_probe
   in if list_ex is_private_ip candidates
      then \<exists>pre post. candidates = pre @ ip # post \<and> is_private_ip ip \<and> \<not> list_ex is_private_ip pre
      else ip = ''127.0.0.1''"
proof -
  define cs where "cs = (case by_hostname of None \<Rightarrow> [] | Some ips \<Rightarrow> ips) @
                    (case by_probe of None \<Rightarrow> [] | Some ip \<Rightarrow> [ip])"
  have ip: "detect_internal_ip by_hostname by_probe =
      (case first_private cs of Some ip \<Rightarrow> ip | None \<Rightarrow> ''127.0.0.1'')"
    by (simp add: detect_internal_ip_def cs_def Let_def)
  show ?thesis
  proof (cases "first_private cs")
    case None
    then have "\<not> list_ex is_private_ip cs" by (simp add: first_private_None_iff list_ex_iff)
    with None show ?thesis by (simp add: Let_def ip cs_def [symmetric])
  next
    case (Some x)
    then obtain pre post w where split: "cs = pre @ x # post" "first_private pre = None"
      and "parse_ipv4 x = Some w" "list_ex (in_network w) rfc_1918_networks"
      by (metis first_private_SomeD)
    then have "is_private_ip x" using is_private_ip_iff by blast
    with Some split show ?thesis
      by (auto simp: Let_def ip cs_def [symmetric] first_private_None_iff list_ex_iff)
  qed
qed

theorem detect_internal_ip_private_witness:
  "detect_internal_ip (Some [''127.0.0.1'', ''8.8.8.8'', ''10.0.5.20'', ''192.168.0.1'']) None = ''10.0.5.20''
   \<and> detect_internal_ip (Some [''172.32.0.1'', ''10.01.0.1'']) (Some ''1.2.3.4'') = ''127.0.0.1''"
proof -
  have p: "is_private_ip ''10.0.5.20''" "\<not> is_private_ip ''127.0.0.1''" "\<not> is_private_ip ''8.8.8.8''"
    "\<not> is_private_ip ''172.32.0.1''" "\<not> is_private_ip ''10.01.0.1''" "\<not> is_private_ip ''1.2.3.4''"
    "is_private_ip ''192.168.0.1''" by code_simp+
  then show ?thesis
    using detect_internal_ip_private [of "Some [''127.0.0.1'', ''8.8.8.8'', ''10.0.5.20'', ''192.168.0.1'']" None]
      detect_internal_ip_private [of "Some [''172.32.0.1'', ''10.01.0.1'']" "Some ''1.2.3.4''"]
    by (auto simp: Let_def Cons_eq_append_conv)
qed

end
