(* ===== verification/Messaging.thy ===== *)
theory Messaging
  imports Pype_Prelude
begin

text \<open>
  The values the server's components exchange: the two queue messages of
  \<open>messaging.py\<close>, the error classes of \<open>exceptions.py\<close>, and the HTTP response a handler
  answers with. \<open>pype_error_handler\<close> is the exception handler that \<open>main.py\<close> installs: it
  turns every error a handler raises into a JSON response.
\<close>

section \<open>Queue messages (messaging.py)\<close>

record pype_request =
  rq_client_id :: string
  rq_request_id :: string
  rq_content_type :: string
  rq_payload :: bytes

record pype_response =
  rs_request_id :: string
  rs_content_type :: string
  rs_payload :: bytes

section \<open>JSON values\<close>

datatype json =
    JNull
  | JBool bool
  | JInt int
  | JStr string
  | JArr "json list"
  | JObj "(string, json) dict"

text \<open>\<open>isinstance(v, str)\<close> on the result of \<open>d.get(k)\<close>, with the string it is.\<close>

fun as_str :: "json option \<Rightarrow> string option" where
  "as_str (Some (JStr x)) = Some x"
| "as_str _ = None"

lemma as_str_Some: "as_str v = Some x \<longleftrightarrow> v = Some (JStr x)"
  by (cases v rule: as_str.cases) auto

section \<open>Errors (exceptions.py)\<close>

datatype pype_error =
    PypeError (detail: string)
  | AuthError (detail: string)
  | RoleMismatchError (detail: string)
  | ForbiddenError (detail: string)
  | TimeoutOutOfRangeError (detail: string)

fun status_code :: "pype_error \<Rightarrow> int" where
  "status_code (PypeError _) = 500"
| "status_code (AuthError _) = 401"
| "status_code (RoleMismatchError _) = 400"
| "status_code (ForbiddenError _) = 403"
| "status_code (TimeoutOutOfRangeError _) = 400"

fun error_code :: "pype_error \<Rightarrow> string" where
  "error_code (PypeError _) = ''PYPE_ERROR''"
| "error_code (AuthError _) = ''UNAUTHENTICATED''"
| "error_code (RoleMismatchError _) = ''ROLE_MISMATCH''"
| "error_code (ForbiddenError _) = ''FORBIDDEN''"
| "error_code (TimeoutOutOfRangeError _) = ''TIMEOUT_OUT_OF_RANGE''"

section \<open>HTTP responses\<close>

text \<open>
  A response carries a status, headers, and a body that is either raw bytes with a media
  type (\<open>fastapi.Response\<close>) or a JSON document (\<open>JSONResponse\<close>, or a response model that
  FastAPI serialises).
\<close>

datatype body = Raw bytes | Json json

record http_response =
  status :: int
  media_type :: "string option"
  headers :: "(string, string) dict"
  content :: body

definition empty_response :: "int \<Rightarrow> http_response" where
  "empty_response code = \<lparr>status = code, media_type = None, headers = [], content = Raw []\<rparr>"

definition json_response :: "int \<Rightarrow> (string, string) dict \<Rightarrow> json \<Rightarrow> http_response" where
  "json_response code hs v =
     \<lparr>status = code, media_type = Some ''application/json'', headers = hs, content = Json v\<rparr>"

definition pype_error_handler :: "pype_error \<Rightarrow> http_response" where
  "pype_error_handler exc = json_response (status_code exc) []
     (JObj [(''detail'', JStr (detail exc)), (''code'', JStr (error_code exc))])"

text \<open>
  How a request ends: with a response of its handler, with an error the handler raised, or
  with the 422 that FastAPI answers when a parameter violates its declared constraints.
\<close>

datatype reply = Reply http_response | Raised pype_error | Unprocessable

fun reply_status :: "reply \<Rightarrow> int" where
  "reply_status (Reply response) = status response"
| "reply_status (Raised exc) = status (pype_error_handler exc)"
| "reply_status Unprocessable = 422"

lemma status_empty_response [simp]: "status (empty_response c) = c"
  by (simp add: empty_response_def)

lemma status_json_response [simp]: "status (json_response c hs v) = c"
  by (simp add: json_response_def)

lemma status_pype_error_handler [simp]: "status (pype_error_handler exc) = status_code exc"
  by (simp add: pype_error_handler_def)

lemma status_code_cases: "status_code e \<in> {400, 401, 403, 500}"
  by (cases e) auto

end
