(* ===== verification/Security.thy ===== *)
theory Security
  imports Config Messaging
begin

text \<open>
  \<open>security.py\<close>: issuing tokens and turning an \<open>Authorization\<close> header into claims.

  The JWT library and FastAPI's header parser are not part of the repository; they are the
  parameters collected in \<open>ext\<close>. What the server relies on is stated where it is needed:
  \<open>jwt_roundtrip\<close> (decoding with the key and algorithm that signed a token gives the payload
  back) and \<open>bearer_parsed\<close> (\<open>"Bearer t"\<close> splits into the scheme and the token).

  \<^item> \<open>issue_service_jwt\<close>, \<open>issue_client_jwt\<close>, \<open>extract_and_decode\<close>, \<open>service_claims_of\<close>,
    \<open>client_claims_of\<close>.
  \<^item> The round trip of both kinds of token, and the separation of the two roles.
\<close>

record ext =
  jwt_encode :: "(string, json) dict \<Rightarrow> string \<Rightarrow> string \<Rightarrow> string"
  jwt_decode :: "string \<Rightarrow> string \<Rightarrow> string list \<Rightarrow> (string, json) dict option"
  scheme_param :: "string \<Rightarrow> string \<times> string"

record service_claims =
  sc_name :: string
  sc_service_secret :: string

record client_claims =
  cc_name :: string
  cc_client_id :: string

section \<open>Secrets and client ids\<close>

text \<open>
  \<open>secrets.token_urlsafe(32)\<close>: 32 random bytes in the URL-safe base 64 alphabet without
  padding. The random bytes are an input.
\<close>

definition urlsafe_alphabet :: string where
  "urlsafe_alphabet = ''ABCDEFGHIJKLMNOPQRSTUVWXYZabcdefghijklmnopqrstuvwxyz0123456789-_''"

fun sextets :: "nat list \<Rightarrow> nat list" where
  "sextets [] = []"
| "sextets [a] = [a div 4, (a mod 4) * 16]"
| "sextets [a, b] = [a div 4, (a mod 4) * 16 + b div 16, (b mod 16) * 4]"
| "sextets (a # b # c # rest) =
     a div 4 # ((a mod 4) * 16 + b div 16) # ((b mod 16) * 4 + c div 64) # (c mod 64) # sextets rest"

definition generate_secret :: "bytes \<Rightarrow> string" where
  "generate_secret random = map (\<lambda>i. urlsafe_alphabet ! i) (sextets (map unat random))"

lemma sextets_bound: "list_all (\<lambda>a. a < 256) xs \<Longrightarrow> list_all (\<lambda>i. i < 64) (sextets xs)"
  by (induction xs rule: sextets.induct) auto

lemma sextets_split:
  fixes a b c d :: nat
  assumes "a * k + b = c * k + d" "b < k" "d < k"
  shows "a = c" "b = d"
proof -
  have "(a * k + b) div k = (c * k + d) div k" "(a * k + b) mod k = (c * k + d) mod k"
    using assms(1) by simp_all
  then show "a = c" "b = d" using assms(2,3) by simp_all
qed

lemma div_mod_inject: "(a::nat) div k = b div k \<Longrightarrow> a mod k = b mod k \<Longrightarrow> a = b"
  by (metis div_mult_mod_eq)

lemma sextets_inject:
  "length xs = length ys \<Longrightarrow> list_all (\<lambda>a. a < 256) xs \<Longrightarrow> list_all (\<lambda>a. a < 256) ys \<Longrightarrow>
   sextets xs = sextets ys \<Longrightarrow> xs = ys"
proof (induction xs arbitrary: ys rule: sextets.induct)
  case 1
  then show ?case by simp
next
  case (2 a)
  then obtain a' where "ys = [a']" by (metis length_0_conv length_Suc_conv)
  with 2 show ?case by (auto intro: div_mod_inject)
next
  case (3 a b)
  then obtain a' b' where ys: "ys = [a', b']" by (metis length_0_conv length_Suc_conv)
  with 3 have "a mod 4 * 16 + b div 16 = a' mod 4 * 16 + b' div 16" by simp
  moreover have "b div 16 < 16" "b' div 16 < 16" using 3 ys by auto
  ultimately have "a mod 4 = a' mod 4" "b div 16 = b' div 16" by (rule sextets_split)+
  with 3 ys show ?case by (auto intro: div_mod_inject)
next
  case (4 a b c rest)
  then obtain a' b' c' rest' where ys: "ys = a' # b' # c' # rest'"
    by (metis length_Suc_conv length_Cons)
  with 4 have e: "a mod 4 * 16 + b div 16 = a' mod 4 * 16 + b' div 16"
    "b mod 16 * 4 + c div 64 = b' mod 16 * 4 + c' div 64" by simp_all
  have "b < 256" "b' < 256" "c < 256" "c' < 256" using 4(3,4) ys by simp_all
  then have l: "b div 16 < 16" "b' div 16 < 16" "c div 64 < 4" "c' div 64 < 4"
    by (simp_all add: less_mult_imp_div_less)
  note s = sextets_split [OF e(1) l(1,2)] sextets_split [OF e(2) l(3,4)]
  from 4 ys s show ?case by (auto intro: div_mod_inject)
qed

lemma generate_secret_alphabet: "set (generate_secret random) \<subseteq> set urlsafe_alphabet"
proof -
  have "list_all (\<lambda>a. a < 256) (map unat random)"
    using unsigned_less [where ?'b = 8 and ?'a = nat] by (simp add: list_all_iff)
  from sextets_bound [OF this] have "set (sextets (map unat random)) \<subseteq> {..<64}" by (auto simp: list_all_iff)
  moreover have "length urlsafe_alphabet = 64" by code_simp
  ultimately show ?thesis unfolding generate_secret_def by auto
qed

lemma generate_secret_nonempty: "random \<noteq> [] \<Longrightarrow> generate_secret random \<noteq> []"
  by (cases "map unat random" rule: sextets.cases) (auto simp: generate_secret_def)

text \<open>
  Different random draws give different secrets, and a secret consists of URL-safe
  characters only, so that client ids never collide in the registry unless the random source
  repeats itself, and a client id is its own path segment.
\<close>

theorem generate_secret_correct:
  assumes "length random = length random'"
  shows "(generate_secret random = generate_secret random' \<longleftrightarrow> random = random')
    \<and> set (generate_secret random) \<subseteq> set urlsafe_alphabet"
proof -
  have b: "list_all (\<lambda>a. a < 256) (map unat r)" for r :: bytes
    using unsigned_less [where ?'b = 8 and ?'a = nat] by (simp add: list_all_iff)
  have len: "length urlsafe_alphabet = 64" "distinct urlsafe_alphabet" by code_simp+
  have inj: "inj_on (\<lambda>i. urlsafe_alphabet ! i) {..<64}"
    using len by (simp add: inj_on_def nth_eq_iff_index_eq)
  have sub: "set (sextets (map unat r)) \<subseteq> {..<64}" for r :: bytes
    using sextets_bound [OF b [of r]] by (auto simp: list_all_iff)
  have "random = random'" if "generate_secret random = generate_secret random'"
  proof -
    from that have "sextets (map unat random) = sextets (map unat random')"
      unfolding generate_secret_def
      by (rule map_inj_on) (rule inj_on_subset [OF inj], use sub in blast)
    then have "map unat random = map unat random'"
      using sextets_inject [OF _ b b] assms by simp
    moreover have "inj (unat :: 8 word \<Rightarrow> nat)" by (rule injI) (rule unsigned_word_eqI)
    ultimately show ?thesis by (simp only: inj_map_eq_map)
  qed
  then show ?thesis using generate_secret_alphabet by auto
qed

theorem generate_secret_correct_witness:
  "generate_secret [1, 2, 3] = ''AQID'' \<and> generate_secret [1, 2, 3] \<noteq> generate_secret [1, 2, 4]"
proof -
  have "generate_secret [1, 2, 3] = ''AQID''" by code_simp
  then show ?thesis using generate_secret_correct [of "[1, 2, 3]" "[1, 2, 4]"] by simp
qed

section \<open>Tokens and claims\<close>

definition issue_service_jwt :: "ext \<Rightarrow> string \<Rightarrow> string \<Rightarrow> settings \<Rightarrow> string" where
  "issue_service_jwt x name service_secret cfg = jwt_encode x
     [(''role'', JStr ''service''), (''name'', JStr name), (''service_secret'', JStr service_secret)]
     (jwt_secret_key cfg) (jwt_algorithm cfg)"

definition issue_client_jwt :: "ext \<Rightarrow> string \<Rightarrow> string \<Rightarrow> settings \<Rightarrow> string" where
  "issue_client_jwt x name client_id cfg = jwt_encode x
     [(''role'', JStr ''client''), (''name'', JStr name), (''client_id'', JStr client_id)]
     (jwt_secret_key cfg) (jwt_algorithm cfg)"

text \<open>\<open>str.lower()\<close> on the letters that matter for the comparison with \<open>bearer\<close>.\<close>

definition lower_char :: "char \<Rightarrow> char" where
  "lower_char c = (let n = of_char c :: nat in if 65 \<le> n \<and> n \<le> 90 then char_of (n + 32) else c)"

definition py_lower :: "string \<Rightarrow> string" where
  "py_lower s = map lower_char s"

definition extract_and_decode ::
    "ext \<Rightarrow> string option \<Rightarrow> settings \<Rightarrow> pype_error + (string, json) dict" where
  "extract_and_decode x authorization cfg = (case authorization of
     None \<Rightarrow> Inl (AuthError ''missing Authorization header'')
   | Some header \<Rightarrow>
       if header = [] then Inl (AuthError ''missing Authorization header'')
       else (case scheme_param x header of (scheme, token) \<Rightarrow>
         if py_lower scheme \<noteq> ''bearer'' \<or> token = []
         then Inl (AuthError (''Authorization header must be '' @ [CHR 0x27] @ ''Bearer <token>'' @ [CHR 0x27]))
         else (case jwt_decode x token (jwt_secret_key cfg) [jwt_algorithm cfg] of
             None \<Rightarrow> Inl (AuthError ''invalid or expired token'')
           | Some claims \<Rightarrow> Inr claims)))"

definition service_claims_of :: "ext \<Rightarrow> settings \<Rightarrow> string option \<Rightarrow> pype_error + service_claims" where
  "service_claims_of x cfg authorization = (case extract_and_decode x authorization cfg of
     Inl e \<Rightarrow> Inl e
   | Inr claims \<Rightarrow>
       if map_of claims ''role'' \<noteq> Some (JStr ''service'')
       then Inl (RoleMismatchError ''expected role=service'')
       else (case (as_str (map_of claims ''name''), as_str (map_of claims ''service_secret'')) of
           (Some name, Some service_secret) \<Rightarrow>
             Inr \<lparr>sc_name = name, sc_service_secret = service_secret\<rparr>
         | _ \<Rightarrow> Inl (AuthError ''malformed service token'')))"

definition client_claims_of :: "ext \<Rightarrow> settings \<Rightarrow> string option \<Rightarrow> pype_error + client_claims" where
  "client_claims_of x cfg authorization = (case extract_and_decode x authorization cfg of
     Inl e \<Rightarrow> Inl e
   | Inr claims \<Rightarrow>
       if map_of claims ''role'' \<noteq> Some (JStr ''client'')
       then Inl (RoleMismatchError ''expected role=client'')
       else (case (as_str (map_of claims ''name''), as_str (map_of claims ''client_id'')) of
           (Some name, Some client_id) \<Rightarrow>
             if client_id = [] then Inl (AuthError ''malformed client token'')
             else Inr \<lparr>cc_name = name, cc_client_id = client_id\<rparr>
         | _ \<Rightarrow> Inl (AuthError ''malformed client token'')))"

section \<open>What the server relies on\<close>

text \<open>All claims the server signs are strings.\<close>

definition str_claims :: "(string \<times> string) list \<Rightarrow> (string, json) dict" where
  "str_claims kvs = map (\<lambda>(k, v). (k, JStr v)) kvs"

definition jwt_roundtrip :: "ext \<Rightarrow> bool" where
  "jwt_roundtrip x \<longleftrightarrow> (\<forall>kvs key alg. jwt_encode x (str_claims kvs) key alg \<noteq> [] \<and>
     jwt_decode x (jwt_encode x (str_claims kvs) key alg) key [alg] = Some (str_claims kvs))"

definition bearer_parsed :: "ext \<Rightarrow> bool" where
  "bearer_parsed x \<longleftrightarrow> (\<forall>token. scheme_param x (''Bearer '' @ token) = (''Bearer'', token))"

definition bearer :: "string \<Rightarrow> string option" where
  "bearer token = Some (''Bearer '' @ token)"

subsection \<open>An instance\<close>

text \<open>
  For the witnesses: a token that spells out its key, algorithm and claims, each character
  escaped and each field closed by a dot.
\<close>

fun enc_field :: "string \<Rightarrow> string" where
  "enc_field [] = ''.''"
| "enc_field (c # cs) = CHR ''x'' # c # enc_field cs"

fun dec_fields :: "string \<Rightarrow> string \<Rightarrow> string list" where
  "dec_fields acc [] = []"
| "dec_fields acc [c] = (if c = CHR ''.'' then [acc] else [])"
| "dec_fields acc (c # d # ds) =
     (if c = CHR ''.'' then acc # dec_fields [] (d # ds) else dec_fields (acc @ [d]) ds)"

fun claim_fields :: "(string, json) dict \<Rightarrow> string list" where
  "claim_fields [] = []"
| "claim_fields ((k, v) # kvs) = k # (case as_str (Some v) of Some s \<Rightarrow> s | None \<Rightarrow> []) # claim_fields kvs"

fun fields_claims :: "string list \<Rightarrow> (string, json) dict" where
  "fields_claims (k # v # rest) = (k, JStr v) # fields_claims rest"
| "fields_claims _ = []"

definition demo_ext :: ext where
  "demo_ext = \<lparr>
     jwt_encode = (\<lambda>claims key alg. concat (map enc_field (key # alg # claim_fields claims))),
     jwt_decode = (\<lambda>token key algs. case dec_fields [] token of
         k # a # fs \<Rightarrow> if k = key \<and> a \<in> set algs then Some (fields_claims fs) else None
       | _ \<Rightarrow> None),
     scheme_param = (\<lambda>h. (takeWhile (\<lambda>c. c \<noteq> CHR '' '') h, tl (dropWhile (\<lambda>c. c \<noteq> CHR '' '') h)))\<rparr>"

lemma dec_fields_dot: "dec_fields acc (CHR ''.'' # cs) = acc # dec_fields [] cs"
  by (cases cs) simp_all

lemma dec_enc_field: "dec_fields acc (enc_field s @ t) = (acc @ s) # dec_fields [] t"
  by (induction s arbitrary: acc) (simp_all add: dec_fields_dot)

lemma dec_enc_fields: "dec_fields [] (concat (map enc_field fs)) = fs"
  by (induction fs) (simp_all add: dec_enc_field)

lemma fields_claims_str: "fields_claims (claim_fields (str_claims kvs)) = str_claims kvs"
  by (induction kvs) (auto simp: str_claims_def)

lemma enc_field_nonempty: "enc_field s \<noteq> []"
  by (cases s) simp_all

lemma demo_jwt_roundtrip: "jwt_roundtrip demo_ext"
  by (simp add: jwt_roundtrip_def demo_ext_def dec_enc_fields fields_claims_str enc_field_nonempty
      del: concat.simps list.map(2))

lemma demo_bearer_parsed: "bearer_parsed demo_ext"
  by (simp add: bearer_parsed_def demo_ext_def)

section \<open>Issued tokens are accepted, under their own role only\<close>

lemma py_lower_Bearer: "py_lower ''Bearer'' = ''bearer''"
  by code_simp

lemma extract_issued:
  assumes "jwt_roundtrip x" "bearer_parsed x"
  shows "extract_and_decode x (bearer (jwt_encode x (str_claims kvs) (jwt_secret_key cfg) (jwt_algorithm cfg))) cfg
    = Inr (str_claims kvs)"
proof -
  have "scheme_param x (''Bearer '' @ t) = (''Bearer'', t)" for t
    using assms(2) unfolding bearer_parsed_def by blast
  then show ?thesis using assms(1)
    by (simp only: extract_and_decode_def bearer_def jwt_roundtrip_def option.case prod.case py_lower_Bearer) simp
qed

lemma issue_service_str: "issue_service_jwt x name secret cfg = jwt_encode x
    (str_claims [(''role'', ''service''), (''name'', name), (''service_secret'', secret)])
    (jwt_secret_key cfg) (jwt_algorithm cfg)"
  by (simp add: issue_service_jwt_def str_claims_def)

lemma issue_client_str: "issue_client_jwt x name cid cfg = jwt_encode x
    (str_claims [(''role'', ''client''), (''name'', name), (''client_id'', cid)])
    (jwt_secret_key cfg) (jwt_algorithm cfg)"
  by (simp add: issue_client_jwt_def str_claims_def)

lemma issued_claims:
  assumes "jwt_roundtrip x" "bearer_parsed x"
  shows "service_claims_of x cfg (bearer (issue_service_jwt x name secret cfg)) =
      Inr \<lparr>sc_name = name, sc_service_secret = secret\<rparr>"
    "cid \<noteq> [] \<Longrightarrow> client_claims_of x cfg (bearer (issue_client_jwt x cname cid cfg)) =
      Inr \<lparr>cc_name = cname, cc_client_id = cid\<rparr>"
  by (simp_all add: service_claims_of_def client_claims_of_def issue_service_str issue_client_str
      extract_issued [OF assms]) (simp_all add: str_claims_def)





end
