(* ===== verification/Event_Loop.thy ===== *)
theory Event_Loop
  imports Py_Float
begin

text \<open>
  The asyncio event loop, as far as the server depends on it. A request handler is an
  \<open>async def\<close>: it runs without interruption between two \<open>await\<close>s and any other handler
  (or the reaper) may run at an \<open>await\<close>. A coroutine over a shared state \<open>'s\<close> is a value
  of type \<open>('s, 'r) co\<close>:

  \<^item> \<open>Return r\<close> has finished with result \<open>r\<close>;
  \<^item> \<open>Pause k\<close> waits for something that always arrives (the request body, the next
    iteration of the loop) and continues with the segment \<open>k\<close>;
  \<^item> \<open>Await try secs k\<close> is \<open>await asyncio.wait_for(op, timeout=secs)\<close>: it waits until
    \<open>try\<close> can act on the state, which yields the segment that handles the result, or
    until \<open>secs\<close> seconds have passed, which continues with \<open>k\<close>.

  A segment \<open>'s \<Rightarrow> 's \<times> ('s, 'r) co\<close> is the code from one \<open>await\<close> to the next. The loop
  (\<open>loop_step\<close>) is driven by an explicit list of moves, so a theorem about all move lists is
  a theorem about all interleavings. Which waiting task is served first is left open, as is
  the moment at which a satisfied or expired wait is noticed; this admits every schedule of
  asyncio (whose queues wake their waiters one by one).

  \<open>co_ok\<close> and \<open>task_ok\<close> say that a coroutine keeps an invariant \<open>I\<close> in every segment, that
  each of its segments is a step in \<open>G\<close> (of the state before, the state after and what is
  left to run) whatever the other tasks did within \<open>R\<close> since the last one, and that its
  result satisfies \<open>Q\<close>. The locale \<open>interference\<close> proves once that this lifts from segments
  to all interleavings. \<open>always P c\<close> says that every result the coroutine can still produce,
  under any interference, satisfies \<open>P\<close>.
\<close>

section \<open>Coroutines and tasks\<close>

datatype (dead 's, dead 'r) co =
    Return 'r
  | Pause "'s \<Rightarrow> 's \<times> ('s, 'r) co"
  | Await "'s \<Rightarrow> ('s \<times> ('s \<Rightarrow> 's \<times> ('s, 'r) co)) option" rat "'s \<Rightarrow> 's \<times> ('s, 'r) co"

type_synonym ('s, 'r) seg = "'s \<Rightarrow> 's \<times> ('s, 'r) co"
type_synonym ('s, 'r) attempt = "'s \<Rightarrow> ('s \<times> ('s, 'r) seg) option"

datatype (dead 's, dead 'r) task =
    Runnable "('s, 'r) seg"
  | Waiting "('s, 'r) attempt" rat "('s, 'r) seg"
  | Finished 'r

fun enter :: "rat \<Rightarrow> ('s, 'r) co \<Rightarrow> ('s, 'r) task" where
  "enter time (Return r) = Finished r"
| "enter time (Pause k) = Runnable k"
| "enter time (Await attempt secs k) = Waiting attempt (py_add time secs) k"

record ('s, 'r) loop =
  mem :: 's
  tasks :: "('s, 'r) task list"

datatype (dead 's, dead 'r) move =
    Spawn "('s, 'r) seg"
  | Run nat
  | Ready nat
  | Expire nat
  | Env "'s \<Rightarrow> 's"

fun loop_step :: "('s \<Rightarrow> rat) \<Rightarrow> ('s, 'r) loop \<Rightarrow> ('s, 'r) move \<Rightarrow> ('s, 'r) loop option" where
  "loop_step clk L (Spawn k) = Some (L\<lparr>tasks := tasks L @ [Runnable k]\<rparr>)"
| "loop_step clk L (Run i) =
     (if i < length (tasks L) then
        case tasks L ! i of
          Runnable k \<Rightarrow> (case k (mem L) of (s, c) \<Rightarrow>
            Some (L\<lparr>mem := s, tasks := (tasks L)[i := enter (clk s) c]\<rparr>))
        | _ \<Rightarrow> None
      else None)"
| "loop_step clk L (Ready i) =
     (if i < length (tasks L) then
        case tasks L ! i of
          Waiting attempt d k \<Rightarrow> (case attempt (mem L) of
            None \<Rightarrow> None
          | Some (s, k') \<Rightarrow> Some (L\<lparr>mem := s, tasks := (tasks L)[i := Runnable k']\<rparr>))
        | _ \<Rightarrow> None
      else None)"
| "loop_step clk L (Expire i) =
     (if i < length (tasks L) then
        case tasks L ! i of
          Waiting attempt d k \<Rightarrow>
            if d \<le> clk (mem L) then Some (L\<lparr>tasks := (tasks L)[i := Runnable k]\<rparr>) else None
        | _ \<Rightarrow> None
      else None)"
| "loop_step clk L (Env f) = Some (L\<lparr>mem := f (mem L)\<rparr>)"

fun loop_run :: "('s \<Rightarrow> rat) \<Rightarrow> ('s, 'r) loop \<Rightarrow> ('s, 'r) move list \<Rightarrow> ('s, 'r) loop option" where
  "loop_run clk L [] = Some L"
| "loop_run clk L (m # ms) = (case loop_step clk L m of None \<Rightarrow> None | Some L' \<Rightarrow> loop_run clk L' ms)"

section \<open>A coroutine that runs undisturbed\<close>

text \<open>
  \<open>solo\<close> runs a coroutine to its end with no other task in between: a wait is satisfied if
  its attempt succeeds and times out otherwise, \<open>idle d\<close> letting the time pass until \<open>d\<close>.
\<close>

primrec solo :: "('s \<Rightarrow> rat) \<Rightarrow> (rat \<Rightarrow> 's \<Rightarrow> 's) \<Rightarrow> ('s, 'r) co \<Rightarrow> 's \<Rightarrow> 's \<times> 'r" where
  "solo clk idle (Return r) = (\<lambda>s. (s, r))"
| "solo clk idle (Pause k) =
     (\<lambda>s. case (map_prod id (solo clk idle) \<circ> k) s of (s', f) \<Rightarrow> f s')"
| "solo clk idle (Await attempt secs k) =
     (\<lambda>s. case (map_option (map_prod id (\<lambda>k'. map_prod id (solo clk idle) \<circ> k')) \<circ> attempt) s of
        Some (s', g) \<Rightarrow> (case g s' of (s'', f) \<Rightarrow> f s'')
      | None \<Rightarrow> (case (map_prod id (solo clk idle) \<circ> k) (idle (py_add (clk s) secs) s) of (s', f) \<Rightarrow> f s'))"

definition solo_seg :: "('s \<Rightarrow> rat) \<Rightarrow> (rat \<Rightarrow> 's \<Rightarrow> 's) \<Rightarrow> ('s, 'r) seg \<Rightarrow> 's \<Rightarrow> 's \<times> 'r" where
  "solo_seg clk idle k s = (case k s of (s', c) \<Rightarrow> solo clk idle c s')"

lemma solo_Pause [simp]: "solo clk idle (Pause k) s = solo_seg clk idle k s"
  by (simp add: solo_seg_def split: prod.splits)

lemma solo_Await [simp]:
  "solo clk idle (Await attempt secs k) s =
     (case attempt s of
        Some (s', k') \<Rightarrow> solo_seg clk idle k' s'
      | None \<Rightarrow> solo_seg clk idle k (idle (py_add (clk s) secs) s))"
  by (auto simp: solo_seg_def split: prod.splits option.splits)

declare solo.simps(2,3) [simp del]

section \<open>Running undisturbed is one of the schedules\<close>

lemma loop_run_append:
  "loop_run clk L (ms @ ms') = (case loop_run clk L ms of None \<Rightarrow> None | Some L' \<Rightarrow> loop_run clk L' ms')"
  by (induction ms arbitrary: L) (auto split: option.splits)

lemma co_cases_induct [case_names Return Pause Await]:
  assumes "\<And>r. P (Return r)"
    and "\<And>k. (\<And>s s' c. k s = (s', c) \<Longrightarrow> P c) \<Longrightarrow> P (Pause k)"
    and "\<And>attempt secs k. (\<And>s s' k' t t' c. attempt s = Some (s', k') \<Longrightarrow> k' t = (t', c) \<Longrightarrow> P c) \<Longrightarrow>
      (\<And>s s' c. k s = (s', c) \<Longrightarrow> P c) \<Longrightarrow> P (Await attempt secs k)"
  shows "P c"
proof (induction c)
  case (Return r)
  then show ?case by (rule assms(1))
next
  case (Pause k)
  show ?case by (rule assms(2)) (metis Pause rangeI snds.intros snd_conv)
next
  case (Await attempt secs k)
  show ?case
  proof (rule assms(3))
    fix s s' k' t t' c assume "attempt s = Some (s', k')" and eq: "k' t = (t', c)"
    then have "k' \<in> Basic_BNFs.snds (s', k')" "(s', k') \<in> set_option (attempt s)"
      by (simp_all add: snds.intros)
    moreover have "(t', c) \<in> range k'" "c \<in> Basic_BNFs.snds (t', c)" using eq by (auto simp: snds.intros) (metis rangeI)
    ultimately show "P c" using Await(1) [OF rangeI] by blast
  next
    fix s s' c assume "k s = (s', c)"
    then show "P c" using Await(2) by (metis rangeI snds.intros snd_conv)
  qed
qed

text \<open>
  Every undisturbed run is a run of the loop: from a state where task \<open>i\<close> is about to run
  the coroutine there are moves, all of them of task \<open>i\<close> or the passing of time, after which
  the task has finished with the result of \<open>solo\<close>.
\<close>

lemma solo_co_scheduled:
  assumes idle: "\<And>d s. d \<le> clk (idle d s)"
  shows "i < length (tasks L) \<Longrightarrow> tasks L ! i = enter (clk (mem L)) c \<Longrightarrow>
    \<exists>ms. loop_run clk L ms =
      Some (L\<lparr>mem := fst (solo clk idle c (mem L)),
        tasks := (tasks L)[i := Finished (snd (solo clk idle c (mem L)))]\<rparr>)"
proof (induction c arbitrary: L rule: co_cases_induct)
  case (Return r)
  then have "(tasks L)[i := Finished r] = tasks L" by (metis enter.simps(1) list_update_id)
  then show ?case by (intro exI [of _ "[]"]) simp
next
  case (Pause k)
  obtain s c where k: "k (mem L) = (s, c)" by (cases "k (mem L)")
  let ?L = "L\<lparr>mem := s, tasks := (tasks L)[i := enter (clk s) c]\<rparr>"
  have "loop_step clk L (Run i) = Some ?L" using Pause.prems k by simp
  moreover obtain ms where "loop_run clk ?L ms = Some (?L\<lparr>mem := fst (solo clk idle c s),
      tasks := (tasks ?L)[i := Finished (snd (solo clk idle c s))]\<rparr>)"
    using Pause.IH [OF k, of ?L] Pause.prems by auto
  ultimately show ?case by (intro exI [of _ "Run i # ms"]) (simp add: solo_seg_def k)
next
  case (Await attempt secs k)
  show ?case
  proof (cases "attempt (mem L)")
    case None
    let ?s = "idle (py_add (clk (mem L)) secs) (mem L)"
    obtain s c where k: "k ?s = (s, c)" by (cases "k ?s")
    let ?L = "L\<lparr>mem := s, tasks := (tasks L)[i := enter (clk s) c]\<rparr>"
    have "loop_run clk L [Env (idle (py_add (clk (mem L)) secs)), Expire i, Run i] = Some ?L"
      using Await.prems k idle by simp
    moreover obtain ms where "loop_run clk ?L ms = Some (?L\<lparr>mem := fst (solo clk idle c s),
        tasks := (tasks ?L)[i := Finished (snd (solo clk idle c s))]\<rparr>)"
      using Await.IH(2) [OF k, of ?L] Await.prems by auto
    ultimately have "loop_run clk L ([Env (idle (py_add (clk (mem L)) secs)), Expire i, Run i] @ ms) =
        Some (?L\<lparr>mem := fst (solo clk idle c s), tasks := (tasks ?L)[i := Finished (snd (solo clk idle c s))]\<rparr>)"
      by (simp only: loop_run_append option.case)
    then show ?thesis
      by (intro exI [of _ "[Env (idle (py_add (clk (mem L)) secs)), Expire i, Run i] @ ms"])
        (simp only: solo_Await None option.case solo_seg_def k prod.case, simp)
  next
    case (Some p)
    obtain s k' where p: "p = (s, k')" by (cases p)
    obtain t c where k: "k' s = (t, c)" by (cases "k' s")
    let ?L = "L\<lparr>mem := t, tasks := (tasks L)[i := enter (clk t) c]\<rparr>"
    have "loop_run clk L [Ready i, Run i] = Some ?L" using Await.prems k Some p by simp
    moreover obtain ms where "loop_run clk ?L ms = Some (?L\<lparr>mem := fst (solo clk idle c t),
        tasks := (tasks ?L)[i := Finished (snd (solo clk idle c t))]\<rparr>)"
      using Await.IH(1) [of "mem L" s k' s t c ?L] k Some p Await.prems by auto
    ultimately have "loop_run clk L ([Ready i, Run i] @ ms) =
        Some (?L\<lparr>mem := fst (solo clk idle c t), tasks := (tasks ?L)[i := Finished (snd (solo clk idle c t))]\<rparr>)"
      by (simp only: loop_run_append option.case)
    then show ?thesis
      by (intro exI [of _ "[Ready i, Run i] @ ms"])
        (simp only: solo_Await Some p option.case solo_seg_def k prod.case, simp)
  qed
qed

lemma solo_scheduled:
  assumes "\<And>d s. d \<le> clk (idle d s)" "i < length (tasks L)" "tasks L ! i = Runnable k"
  shows "\<exists>ms. loop_run clk L ms =
    Some (L\<lparr>mem := fst (solo_seg clk idle k (mem L)),
      tasks := (tasks L)[i := Finished (snd (solo_seg clk idle k (mem L)))]\<rparr>)"
  using solo_co_scheduled [of clk idle i L "Pause k"] assms by simp

section \<open>Interference\<close>

definition seg_sat :: "('s \<Rightarrow> bool) \<Rightarrow> ('s \<Rightarrow> 's \<Rightarrow> bool) \<Rightarrow> ('s \<Rightarrow> 's \<Rightarrow> ('s, 'r) co \<Rightarrow> bool) \<Rightarrow>
    ('s \<Rightarrow> ('s, 'r) co \<Rightarrow> bool) \<Rightarrow> 's \<Rightarrow> ('s, 'r) seg \<Rightarrow> bool" where
  "seg_sat I R G P s k \<longleftrightarrow> (\<forall>s'. I s' \<longrightarrow> R s s' \<longrightarrow>
     I (fst (k s')) \<and> G s' (fst (k s')) (snd (k s')) \<and> P (fst (k s')) (snd (k s')))"

definition attempt_sat :: "('s \<Rightarrow> bool) \<Rightarrow> ('s \<Rightarrow> 's \<Rightarrow> bool) \<Rightarrow> ('s \<Rightarrow> 's \<Rightarrow> ('s, 'r) co \<Rightarrow> bool) \<Rightarrow>
    ('s \<Rightarrow> ('s, 'r) co \<Rightarrow> bool) \<Rightarrow> 's \<Rightarrow> ('s, 'r) attempt \<Rightarrow> bool" where
  "attempt_sat I R G P s attempt \<longleftrightarrow> (\<forall>s' t k. I s' \<longrightarrow> R s s' \<longrightarrow> attempt s' = Some (t, k) \<longrightarrow>
     I t \<and> G s' t (Pause k) \<and> seg_sat I R G P t k)"

lemma seg_sat_mono [mono]:
  "(\<And>s c. P s c \<longrightarrow> P' s c) \<Longrightarrow> seg_sat I R G P s k \<longrightarrow> seg_sat I R G P' s k"
  by (auto simp: seg_sat_def)

lemma attempt_sat_mono [mono]:
  "(\<And>s c. P s c \<longrightarrow> P' s c) \<Longrightarrow> attempt_sat I R G P s a \<longrightarrow> attempt_sat I R G P' s a"
  unfolding attempt_sat_def using seg_sat_mono [of P P' I R G] by metis

inductive co_ok :: "('s \<Rightarrow> bool) \<Rightarrow> ('s \<Rightarrow> 's \<Rightarrow> bool) \<Rightarrow> ('s \<Rightarrow> 's \<Rightarrow> ('s, 'r) co \<Rightarrow> bool) \<Rightarrow>
    ('r \<Rightarrow> bool) \<Rightarrow> 's \<Rightarrow> ('s, 'r) co \<Rightarrow> bool" for I R G Q where
  ok_Return: "Q r \<Longrightarrow> co_ok I R G Q s (Return r)"
| ok_Pause: "seg_sat I R G (co_ok I R G Q) s k \<Longrightarrow> co_ok I R G Q s (Pause k)"
| ok_Await: "attempt_sat I R G (co_ok I R G Q) s attempt \<Longrightarrow> seg_sat I R G (co_ok I R G Q) s k \<Longrightarrow>
     co_ok I R G Q s (Await attempt secs k)"

inductive_simps co_ok_simps [simp]:
  "co_ok I R G Q s (Return r)"
  "co_ok I R G Q s (Pause k)"
  "co_ok I R G Q s (Await attempt secs k)"

abbreviation seg_ok where "seg_ok I R G Q \<equiv> seg_sat I R G (co_ok I R G Q)"

text \<open>
  A segment that is under way: it started in \<open>base\<close>, its first operations have led to \<open>s\<close>
  and \<open>k\<close> is the rest of it.
\<close>

definition run_ok :: "('s \<Rightarrow> bool) \<Rightarrow> ('s \<Rightarrow> 's \<Rightarrow> bool) \<Rightarrow> ('s \<Rightarrow> 's \<Rightarrow> ('s, 'r) co \<Rightarrow> bool) \<Rightarrow>
    ('r \<Rightarrow> bool) \<Rightarrow> 's \<Rightarrow> 's \<Rightarrow> ('s, 'r) seg \<Rightarrow> bool" where
  "run_ok I R G Q base s k \<longleftrightarrow>
     I (fst (k s)) \<and> G base (fst (k s)) (snd (k s)) \<and> co_ok I R G Q (fst (k s)) (snd (k s))"

lemma seg_ok_run_ok: "seg_ok I R G Q s k \<longleftrightarrow> (\<forall>s'. I s' \<longrightarrow> R s s' \<longrightarrow> run_ok I R G Q s' s' k)"
  by (simp add: seg_sat_def run_ok_def)

lemma seg_sat_weaken:
  assumes "seg_sat I R G P s k" "\<And>s t c. G s t c \<Longrightarrow> G' s t c" "\<And>s c. P s c \<Longrightarrow> P' s c"
  shows "seg_sat I R G' P' s k"
  using assms by (auto simp: seg_sat_def)

lemma co_ok_weaken:
  assumes "co_ok I R G Q s c" "\<And>s t c. G s t c \<Longrightarrow> G' s t c" "\<And>r. Q r \<Longrightarrow> Q' r"
  shows "co_ok I R G' Q' s c"
  using assms(1)
proof (induction rule: co_ok.induct)
  case (ok_Return r s)
  then show ?case using assms(3) by simp
next
  case (ok_Pause s k)
  then show ?case using assms(2) by (auto simp: seg_sat_def)
next
  case (ok_Await s attempt k secs)
  then show ?case using assms(2) unfolding attempt_sat_def seg_sat_def co_ok_simps by blast
qed

lemma seg_ok_weaken:
  "seg_ok I R G Q s k \<Longrightarrow> (\<And>s t c. G s t c \<Longrightarrow> G' s t c) \<Longrightarrow> (\<And>r. Q r \<Longrightarrow> Q' r) \<Longrightarrow> seg_ok I R G' Q' s k"
  by (erule seg_sat_weaken) (auto elim: co_ok_weaken)

text \<open>All results a coroutine can still produce, whatever happens to the state.\<close>

definition always :: "('r \<Rightarrow> bool) \<Rightarrow> ('s, 'r) co \<Rightarrow> bool" where
  "always P c \<longleftrightarrow> (\<forall>s. co_ok (\<lambda>_. True) (\<lambda>_ _. True) (\<lambda>_ _ _. True) P s c)"

lemma always_any: "co_ok (\<lambda>_. True) (\<lambda>_ _. True) (\<lambda>_ _ _. True) P s c = always P c"
proof -
  have "co_ok (\<lambda>_. True) (\<lambda>_ _. True) (\<lambda>_ _ _. True) P s c \<Longrightarrow>
      co_ok (\<lambda>_. True) (\<lambda>_ _. True) (\<lambda>_ _ _. True) P t c" for s t
    by (cases c) (auto simp: seg_sat_def attempt_sat_def)
  then show ?thesis by (auto simp: always_def)
qed

lemma always_simps [simp]:
  "always P (Return r) \<longleftrightarrow> P r"
  "always P (Pause k) \<longleftrightarrow> (\<forall>s. always P (snd (k s)))"
  "always P (Await attempt secs k) \<longleftrightarrow>
     (\<forall>s t k'. attempt s = Some (t, k') \<longrightarrow> always P (Pause k')) \<and> always P (Pause k)"
  by (simp_all add: always_any [of P undefined, symmetric])
    (simp_all add: seg_sat_def attempt_sat_def always_any)

lemma always_triv [simp]: "always (\<lambda>_. True) c"
  by (induction c rule: co_cases_induct) (simp, (metis always_simps(2) prod.collapse),
      (metis always_simps(2,3) prod.collapse))

lemma always_mono: "always P c \<Longrightarrow> (\<And>r. P r \<Longrightarrow> P' r) \<Longrightarrow> always P' c"
  unfolding always_def by (blast intro: co_ok_weaken)

fun task_ok :: "('s \<Rightarrow> bool) \<Rightarrow> ('s \<Rightarrow> 's \<Rightarrow> bool) \<Rightarrow> ('s \<Rightarrow> 's \<Rightarrow> ('s, 'r) co \<Rightarrow> bool) \<Rightarrow>
    ('r \<Rightarrow> bool) \<Rightarrow> 's \<Rightarrow> ('s, 'r) task \<Rightarrow> bool" where
  "task_ok I R G Q s (Runnable k) = seg_ok I R G Q s k"
| "task_ok I R G Q s (Waiting attempt d k) =
     (attempt_sat I R G (co_ok I R G Q) s attempt \<and> seg_ok I R G Q s k)"
| "task_ok I R G Q s (Finished r) = Q r"

text \<open>
  Every task runs on behalf of someone, and \<open>G\<close> may depend on who that is; \<open>owners\<close> lists
  the owners of the tasks.
\<close>

definition loop_ok :: "('s \<Rightarrow> bool) \<Rightarrow> ('s \<Rightarrow> 's \<Rightarrow> bool) \<Rightarrow> ('w \<Rightarrow> 's \<Rightarrow> 's \<Rightarrow> ('s, 'r) co \<Rightarrow> bool) \<Rightarrow>
    ('r \<Rightarrow> bool) \<Rightarrow> 'w list \<Rightarrow> ('s, 'r) loop \<Rightarrow> bool" where
  "loop_ok I R G Q owners L \<longleftrightarrow> I (mem L)
     \<and> list_all2 (\<lambda>w. task_ok I R (G w) Q (mem L)) owners (tasks L)"

text \<open>What is asked of the moves that come from outside: new tasks and the environment.\<close>

fun move_ok :: "('s \<Rightarrow> bool) \<Rightarrow> ('s \<Rightarrow> 's \<Rightarrow> bool) \<Rightarrow> ('w \<Rightarrow> 's \<Rightarrow> 's \<Rightarrow> ('s, 'r) co \<Rightarrow> bool) \<Rightarrow>
    ('r \<Rightarrow> bool) \<Rightarrow> 's \<Rightarrow> 'w list \<Rightarrow> ('s, 'r) move \<Rightarrow> 'w list \<Rightarrow> bool" where
  "move_ok I R G Q s owners (Spawn k) owners' =
     (\<exists>w. owners' = owners @ [w] \<and> seg_ok I R (G w) Q s k)"
| "move_ok I R G Q s owners (Env f) owners' = (owners' = owners \<and> I (f s) \<and> R s (f s))"
| "move_ok I R G Q s owners _ owners' = (owners' = owners)"

text \<open>
  What a move does to the state: the move of a task is a step in \<open>G\<close> towards the coroutine
  that the task enters, the other moves of the loop leave the state alone.
\<close>

fun move_effect :: "('w \<Rightarrow> 's \<Rightarrow> 's \<Rightarrow> ('s, 'r) co \<Rightarrow> bool) \<Rightarrow> ('s \<Rightarrow> rat) \<Rightarrow> 'w list \<Rightarrow> ('s, 'r) loop \<Rightarrow>
    ('s, 'r) move \<Rightarrow> ('s, 'r) loop \<Rightarrow> bool" where
  "move_effect G clk owners L (Run i) L' =
     (\<exists>c. G (owners ! i) (mem L) (mem L') c \<and> tasks L' ! i = enter (clk (mem L')) c)"
| "move_effect G clk owners L (Ready i) L' =
     (\<exists>c. G (owners ! i) (mem L) (mem L') c \<and> tasks L' ! i = enter (clk (mem L')) c)"
| "move_effect G clk owners L (Spawn k) L' = (mem L' = mem L)"
| "move_effect G clk owners L (Expire i) L' = (mem L' = mem L)"
| "move_effect G clk owners L (Env f) L' = (mem L' = f (mem L))"

locale interference =
  fixes I :: "'s \<Rightarrow> bool" and R :: "'s \<Rightarrow> 's \<Rightarrow> bool"
    and G :: "'w \<Rightarrow> 's \<Rightarrow> 's \<Rightarrow> ('s, 'r) co \<Rightarrow> bool" and Q :: "'r \<Rightarrow> bool"
  assumes R_refl: "R s s"
    and R_trans: "R s t \<Longrightarrow> R t u \<Longrightarrow> R s u"
    and G_R: "G w s t c \<Longrightarrow> R s t"
begin

lemma seg_ok_stable: "seg_ok I R G' Q s k \<Longrightarrow> R s t \<Longrightarrow> seg_ok I R G' Q t k"
  unfolding seg_sat_def using R_trans by blast

lemma attempt_ok_stable:
  "attempt_sat I R G' (co_ok I R G' Q) s a \<Longrightarrow> R s t \<Longrightarrow> attempt_sat I R G' (co_ok I R G' Q) t a"
  unfolding attempt_sat_def using R_trans by blast

lemma task_ok_stable: "task_ok I R G' Q s t \<Longrightarrow> R s s' \<Longrightarrow> task_ok I R G' Q s' t"
  by (cases t) (auto intro: seg_ok_stable attempt_ok_stable)

lemma tasks_ok_stable:
  "list_all2 (\<lambda>w. task_ok I R (G w) Q s) ws ts \<Longrightarrow> R s s' \<Longrightarrow> list_all2 (\<lambda>w. task_ok I R (G w) Q s') ws ts"
  by (erule list_all2_mono) (rule task_ok_stable)

lemma enter_ok: "co_ok I R G' Q s c \<Longrightarrow> task_ok I R G' Q s (enter time c)"
  by (cases c) auto

lemma replace_task_ok:
  assumes "loop_ok I R G Q ws L" "I s" "R (mem L) s" "task_ok I R (G (ws ! i)) Q s t"
  shows "loop_ok I R G Q ws (L\<lparr>mem := s, tasks := (tasks L)[i := t]\<rparr>)"
proof -
  have "list_all2 (\<lambda>w. task_ok I R (G w) Q s) ws (tasks L)"
    using assms(1,3) tasks_ok_stable by (auto simp: loop_ok_def)
  then have "list_all2 (\<lambda>w. task_ok I R (G w) Q s) (ws[i := ws ! i]) ((tasks L)[i := t])"
    by (rule list_all2_update_cong) (rule assms(4))
  with assms(2) show ?thesis by (simp add: loop_ok_def)
qed

lemma step_ok:
  assumes ok: "loop_ok I R G Q ws L" and step: "loop_step clk L m = Some L'"
    and m: "move_ok I R G Q (mem L) ws m ws'"
  shows "loop_ok I R G Q ws' L'" "R (mem L) (mem L')" "move_effect G clk ws L m L'"
proof -
  have inv: "I (mem L)"
    and all: "\<And>i. i < length (tasks L) \<Longrightarrow> task_ok I R (G (ws ! i)) Q (mem L) (tasks L ! i)"
    using ok by (auto simp: loop_ok_def list_all2_conv_all_nth)
  have "loop_ok I R G Q ws' L' \<and> R (mem L) (mem L') \<and> move_effect G clk ws L m L'"
  proof (cases m)
    case (Spawn k)
    with ok m step show ?thesis by (auto simp: loop_ok_def R_refl intro!: list_all2_appendI)
  next
    case (Env f)
    with m have f: "ws' = ws" "I (f (mem L))" "R (mem L) (f (mem L))" by auto
    with ok Env step show ?thesis using tasks_ok_stable [OF _ f(3)] by (auto simp: loop_ok_def)
  next
    case (Run i)
    with step obtain k where i: "i < length (tasks L)" "tasks L ! i = Runnable k"
      and L': "L' = L\<lparr>mem := fst (k (mem L)), tasks := (tasks L)[i := enter (clk (fst (k (mem L)))) (snd (k (mem L)))]\<rparr>"
      by (auto split: if_splits task.splits prod.splits)
    have k: "I (fst (k (mem L)))" "G (ws ! i) (mem L) (fst (k (mem L))) (snd (k (mem L)))"
      "co_ok I R (G (ws ! i)) Q (fst (k (mem L))) (snd (k (mem L)))"
      using all [OF i(1)] i(2) inv by (auto simp: seg_sat_def R_refl)
    have "loop_ok I R G Q ws L'"
      unfolding L' by (rule replace_task_ok [OF ok k(1) G_R [OF k(2)] enter_ok [OF k(3)]])
    then show ?thesis using k(2) i(1) G_R [OF k(2)] m by (auto simp: Run L')
  next
    case (Ready i)
    with step obtain a d k s k' where i: "i < length (tasks L)" "tasks L ! i = Waiting a d k"
      and a: "a (mem L) = Some (s, k')" and L': "L' = L\<lparr>mem := s, tasks := (tasks L)[i := Runnable k']\<rparr>"
      by (auto split: if_splits task.splits option.splits)
    have k: "I s" "G (ws ! i) (mem L) s (Pause k')" "seg_ok I R (G (ws ! i)) Q s k'"
      using all [OF i(1)] i(2) inv a by (auto simp: attempt_sat_def R_refl)
    have "loop_ok I R G Q ws L'"
      unfolding L' by (rule replace_task_ok [OF ok k(1) G_R [OF k(2)]]) (simp add: k(3))
    then show ?thesis using k(2) i(1) G_R [OF k(2)] m by (auto simp: Ready L' intro!: exI [of _ "Pause k'"])
  next
    case (Expire i)
    with step obtain a d k where i: "i < length (tasks L)" "tasks L ! i = Waiting a d k"
      and L': "L' = L\<lparr>tasks := (tasks L)[i := Runnable k]\<rparr>"
      by (auto split: if_splits task.splits)
    have "task_ok I R (G (ws ! i)) Q (mem L) (Runnable k)" using all [OF i(1)] i(2) by simp
    then show ?thesis using replace_task_ok [OF ok inv R_refl, of i "Runnable k"] m
      by (simp add: L' R_refl Expire)
  qed
  then show "loop_ok I R G Q ws' L'" "R (mem L) (mem L')" "move_effect G clk ws L m L'" by auto
qed

text \<open>An undisturbed run keeps the contract too.\<close>

lemma solo_ok:
  assumes idle: "\<And>d s. I s \<Longrightarrow> I (idle d s) \<and> R s (idle d s)"
  shows "I s \<Longrightarrow> co_ok I R G' Q s c \<Longrightarrow> (\<And>s t c. G' s t c \<Longrightarrow> R s t) \<Longrightarrow>
    I (fst (solo clk idle c s)) \<and> R s (fst (solo clk idle c s)) \<and> Q (snd (solo clk idle c s))"
proof (induction c arbitrary: s rule: co_cases_induct)
  case (Return r)
  then show ?case by (simp add: R_refl)
next
  case (Pause k)
  obtain t c where k: "k s = (t, c)" by (cases "k s")
  have "I t \<and> G' s t c \<and> co_ok I R G' Q t c" using Pause.prems R_refl [of s] k by (fastforce simp: seg_sat_def)
  then show ?case using Pause.IH [OF k] Pause.prems(3) R_trans by (simp add: solo_seg_def k) blast
next
  case (Await attempt secs k)
  show ?case
  proof (cases "attempt s")
    case None
    let ?s = "idle (py_add (clk s) secs) s"
    obtain t c where k: "k ?s = (t, c)" by (cases "k ?s")
    have i: "I ?s" "R s ?s" using idle Await.prems(1) by auto
    have "I t \<and> G' ?s t c \<and> co_ok I R G' Q t c" using Await.prems i k by (fastforce simp: seg_sat_def)
    then show ?thesis using Await.IH(2) [OF k] Await.prems(3) R_trans i(2)
      by (simp add: None solo_seg_def k) blast
  next
    case (Some p)
    obtain t k' where p: "p = (t, k')" by (cases p)
    obtain u c where k: "k' t = (u, c)" by (cases "k' t")
    have "I t \<and> G' s t (Pause k') \<and> seg_ok I R G' Q t k'"
      using Await.prems Some p R_refl [of s] by (auto simp: attempt_sat_def)
    moreover from this have "I u \<and> G' t u c \<and> co_ok I R G' Q u c" using R_refl [of t] k by (fastforce simp: seg_sat_def)
    ultimately show ?thesis using Await.IH(1) [OF Some [unfolded p] k] Await.prems(3) R_trans
      by (simp add: Some p solo_seg_def k) blast
  qed
qed

end

end
