(* ===== verification/Queueing.thy ===== *)
theory Queueing
  imports Event_Loop Messaging
begin

text \<open>
  \<open>queueing.py\<close> over a model of \<open>asyncio.Queue\<close>.

  \<^item> \<open>'a queue\<close>, \<open>put_nowait\<close>, \<open>get_nowait\<close>: the bounded queue of the standard library
    (a \<open>maxsize\<close> of zero or less means unbounded), with \<open>QueueFull\<close> and \<open>QueueEmpty\<close> as
    values.
  \<^item> locale \<open>bounded_fifo\<close>: the contract of such a queue; every run of puts and gets is
    first-in first-out, loses and duplicates nothing and respects the bound. Interpreted on
    \<open>put_nowait\<close>/\<open>get_nowait\<close> as \<open>aq\<close>.
  \<^item> \<open>normalize_timeout\<close>, \<open>queue_put\<close>, \<open>queue_get\<close>: the functions of \<open>queueing.py\<close>. The two
    coroutines take the queue as a reference into the shared state (locale \<open>shared_queue\<close>)
    and the rest of the caller as a continuation.
\<close>

section \<open>asyncio.Queue\<close>

record 'a queue =
  q_maxsize :: int
  q_items :: "'a list"

datatype queue_exception = QueueFull | QueueEmpty

definition new_queue :: "int \<Rightarrow> 'a queue" where
  "new_queue maxsize = \<lparr>q_maxsize = maxsize, q_items = []\<rparr>"

definition qsize :: "'a queue \<Rightarrow> int" where
  "qsize q = int (length (q_items q))"

definition full :: "'a queue \<Rightarrow> bool" where
  "full q = (if q_maxsize q \<le> 0 then False else q_maxsize q \<le> qsize q)"

definition put_nowait :: "'a \<Rightarrow> 'a queue \<Rightarrow> queue_exception + 'a queue" where
  "put_nowait item q = (if full q then Inl QueueFull else Inr (q\<lparr>q_items := q_items q @ [item]\<rparr>))"

definition get_nowait :: "'a queue \<Rightarrow> queue_exception + ('a \<times> 'a queue)" where
  "get_nowait q = (case q_items q of
     [] \<Rightarrow> Inl QueueEmpty
   | item # rest \<Rightarrow> Inr (item, q\<lparr>q_items := rest\<rparr>))"

lemma put_nowait_Inr:
  "put_nowait x q = Inr q' \<longleftrightarrow> \<not> full q \<and> q' = q\<lparr>q_items := q_items q @ [x]\<rparr>"
  by (auto simp: put_nowait_def)

lemma put_nowait_Inl: "put_nowait x q = Inl e \<longleftrightarrow> full q \<and> e = QueueFull"
  by (auto simp: put_nowait_def)

lemma get_nowait_Inr:
  "get_nowait q = Inr (x, q') \<longleftrightarrow> q_items q = x # q_items q' \<and> q' = q\<lparr>q_items := q_items q'\<rparr>"
  by (auto simp: get_nowait_def split: list.splits)

lemma get_nowait_Inl: "get_nowait q = Inl e \<longleftrightarrow> q_items q = [] \<and> e = QueueEmpty"
  by (auto simp: get_nowait_def split: list.splits)

lemma new_queue_sel [simp]: "q_maxsize (new_queue n) = n" "q_items (new_queue n) = []"
  by (simp_all add: new_queue_def)

section \<open>The contract of a bounded queue\<close>

datatype 'a queue_op = Put 'a | Get

text \<open>A run of operations: the items accepted, the items delivered, the queue left behind.\<close>

fun fifo_run :: "('a \<Rightarrow> 'q \<Rightarrow> 'e + 'q) \<Rightarrow> ('q \<Rightarrow> 'e + ('a \<times> 'q)) \<Rightarrow> 'q \<Rightarrow> 'a queue_op list \<Rightarrow>
    'a list \<times> 'a list \<times> 'q" where
  "fifo_run put get q [] = ([], [], q)"
| "fifo_run put get q (Put x # ops) = (case put x q of
     Inl _ \<Rightarrow> fifo_run put get q ops
   | Inr q' \<Rightarrow> (case fifo_run put get q' ops of (ins, outs, r) \<Rightarrow> (x # ins, outs, r)))"
| "fifo_run put get q (Get # ops) = (case get q of
     Inl _ \<Rightarrow> fifo_run put get q ops
   | Inr (x, q') \<Rightarrow> (case fifo_run put get q' ops of (ins, outs, r) \<Rightarrow> (ins, x # outs, r)))"

locale bounded_fifo =
  fixes put :: "'a \<Rightarrow> 'q \<Rightarrow> 'e + 'q"
    and get :: "'q \<Rightarrow> 'e + ('a \<times> 'q)"
    and items :: "'q \<Rightarrow> 'a list"
    and bound :: "'q \<Rightarrow> int"
  assumes put_Inr: "put x q = Inr q' \<Longrightarrow> items q' = items q @ [x] \<and> bound q' = bound q"
    and get_Inr: "get q = Inr (x, q') \<Longrightarrow> items q = x # items q' \<and> bound q' = bound q"
    and put_full: "0 < bound q \<Longrightarrow> bound q \<le> int (length (items q)) \<Longrightarrow> \<exists>e. put x q = Inl e"
    and put_space: "bound q \<le> 0 \<or> int (length (items q)) < bound q \<Longrightarrow> \<exists>q'. put x q = Inr q'"
    and get_empty: "(\<exists>e. get q = Inl e) \<longleftrightarrow> items q = []"
begin

lemma run_correct:
  "fifo_run put get q ops = (ins, outs, q') \<Longrightarrow>
     items q @ ins = outs @ items q' \<and> bound q' = bound q \<and>
     (0 < bound q \<longrightarrow> int (length (items q)) \<le> bound q \<longrightarrow> int (length (items q')) \<le> bound q)"
proof (induction ops arbitrary: q ins outs q')
  case Nil
  then show ?case by simp
next
  case (Cons op ops)
  show ?case
  proof (cases op)
    case (Put x)
    show ?thesis
    proof (cases "put x q")
      case (Inl e)
      with Put Cons.prems show ?thesis by (auto dest: Cons.IH)
    next
      case (Inr r)
      then have "items r = items q @ [x]" "bound r = bound q"
        "\<not> (0 < bound q \<and> bound q \<le> int (length (items q)))"
        using put_Inr [OF Inr] put_full [of q x] Inr by auto
      with Put Inr Cons.prems show ?thesis by (fastforce split: prod.splits dest: Cons.IH)
    qed
  next
    case Get
    show ?thesis
    proof (cases "get q")
      case (Inl e)
      with Get Cons.prems show ?thesis by (auto dest: Cons.IH)
    next
      case (Inr p)
      obtain x r where p: "p = (x, r)" by (cases p)
      then have "items q = x # items r" "bound r = bound q" using get_Inr Inr by auto
      with Get Inr p Cons.prems show ?thesis by (fastforce split: prod.splits dest: Cons.IH)
    qed
  qed
qed

lemmas run_fifo = run_correct [THEN conjunct1]
  and run_bounded = run_correct [THEN conjunct2, THEN conjunct2, rule_format]

end

interpretation aq: bounded_fifo put_nowait get_nowait q_items q_maxsize
  by unfold_locales
    (auto simp: put_nowait_def get_nowait_def full_def qsize_def split: list.splits if_splits)

text \<open>
  A queue of the server is first-in first-out, loses and duplicates nothing: over any run
  of puts and gets, the items it held and the items it accepted are, in this order, the items
  it delivered and the items it holds at the end; and a bounded queue never exceeds its bound.
\<close>

theorem queue_run_fifo:
  assumes "fifo_run put_nowait get_nowait q ops = (ins, outs, q')"
    and "0 < q_maxsize q" "qsize q \<le> q_maxsize q"
  shows "q_items q @ ins = outs @ q_items q' \<and> qsize q' \<le> q_maxsize q \<and> q_maxsize q' = q_maxsize q"
  using aq.run_correct [OF assms(1)] assms(2,3) by (simp add: qsize_def)

theorem queue_run_fifo_witness:
  "q_items (\<lparr>q_maxsize = 2, q_items = [7]\<rparr> :: nat queue) @ [8, 9] = [7, 8] @ [9]"
  using queue_run_fifo [of "\<lparr>q_maxsize = 2, q_items = [7]\<rparr>" "[Put 8, Put (5::nat), Get, Put 9, Get]"
      "[8, 9]" "[7, 8]" "\<lparr>q_maxsize = 2, q_items = [9]\<rparr>"]
  by (simp add: put_nowait_def get_nowait_def full_def qsize_def)

section \<open>queueing.py\<close>

definition normalize_timeout :: "int option \<Rightarrow> int \<Rightarrow> pype_error + int" where
  "normalize_timeout timeout_ms max_timeout_ms = (case timeout_ms of
     None \<Rightarrow> Inr max_timeout_ms
   | Some t \<Rightarrow>
       if t < 0 \<or> max_timeout_ms < t
       then Inl (TimeoutOutOfRangeError (''timeout must be in [0, '' @ py_str_int max_timeout_ms @
              ''] ms; got '' @ py_str_int t))
       else Inr t)"

text \<open>
  A reference to a queue object somewhere in the shared state: how to read it and how to
  write it back.
\<close>

record ('s, 'a) queue_ref =
  deref :: "'s \<Rightarrow> 'a queue"
  assign :: "'a queue \<Rightarrow> 's \<Rightarrow> 's"

definition queue_put :: "('s, 'a) queue_ref \<Rightarrow> 'a \<Rightarrow> int \<Rightarrow> (bool \<Rightarrow> ('s, 'r) seg) \<Rightarrow> ('s, 'r) seg" where
  "queue_put queue item timeout_ms k = (\<lambda>s.
     if timeout_ms = 0 then
       (case put_nowait item (deref queue s) of
          Inr q \<Rightarrow> k True (assign queue q s)
        | Inl _ \<Rightarrow> k False s)
     else
       (s, Await
         (\<lambda>s. case put_nowait item (deref queue s) of
            Inr q \<Rightarrow> Some (assign queue q s, k True)
          | Inl _ \<Rightarrow> None)
         (py_div (of_int timeout_ms) 1000)
         (k False)))"

definition queue_get :: "('s, 'a) queue_ref \<Rightarrow> int \<Rightarrow> ('a option \<Rightarrow> ('s, 'r) seg) \<Rightarrow> ('s, 'r) seg" where
  "queue_get queue timeout_ms k = (\<lambda>s.
     if timeout_ms = 0 then
       (case get_nowait (deref queue s) of
          Inr (item, q) \<Rightarrow> k (Some item) (assign queue q s)
        | Inl _ \<Rightarrow> k None s)
     else
       (s, Await
         (\<lambda>s. case get_nowait (deref queue s) of
            Inr (item, q) \<Rightarrow> Some (assign queue q s, k (Some item))
          | Inl _ \<Rightarrow> None)
         (py_div (of_int timeout_ms) 1000)
         (k None)))"

subsection \<open>The two coroutines, undisturbed\<close>

abbreviation wait_until :: "('s \<Rightarrow> rat) \<Rightarrow> (rat \<Rightarrow> 's \<Rightarrow> 's) \<Rightarrow> int \<Rightarrow> 's \<Rightarrow> 's" where
  "wait_until clk idle ms s \<equiv>
     if ms = 0 then s else idle (py_add (clk s) (py_div (of_int ms) 1000)) s"

lemma solo_queue_put:
  "solo_seg clk idle (queue_put queue item ms k) s =
     (if full (deref queue s) then solo_seg clk idle (k False) (wait_until clk idle ms s)
      else solo_seg clk idle (k True)
        (assign queue ((deref queue s)\<lparr>q_items := q_items (deref queue s) @ [item]\<rparr>) s))"
  by (auto simp: queue_put_def solo_seg_def put_nowait_def)

lemma solo_queue_get:
  "solo_seg clk idle (queue_get queue ms k) s =
     (case q_items (deref queue s) of
        [] \<Rightarrow> solo_seg clk idle (k None) (wait_until clk idle ms s)
      | item # rest \<Rightarrow>
          solo_seg clk idle (k (Some item)) (assign queue ((deref queue s)\<lparr>q_items := rest\<rparr>) s))"
  by (auto simp: queue_get_def solo_seg_def get_nowait_def split: list.splits)

text \<open>
  What the handlers rely on when they keep such a reference: on the states where it is valid
  it behaves like a variable. Under this contract a get after a put on an empty queue returns
  the item, at once and with any timeouts, and leaves the state as it was.
\<close>

locale shared_queue =
  fixes queue :: "('s, 'a) queue_ref"
    and valid :: "'s \<Rightarrow> bool"
  assumes read_write: "valid s \<Longrightarrow> deref queue (assign queue q s) = q"
    and write_valid: "valid s \<Longrightarrow> valid (assign queue q s)"
    and write_write: "assign queue q' (assign queue q s) = assign queue q' s"
    and write_read: "valid s \<Longrightarrow> assign queue (deref queue s) s = s"
begin

lemma put_then_get:
  assumes "valid s" "q_items (deref queue s) = []" "\<not> full (deref queue s)"
  shows "solo_seg clk idle (queue_put queue item ms
      (\<lambda>ok. queue_get queue ms' (\<lambda>found s. (s, Return (ok, found))))) s = (s, (True, Some item))"
proof -
  have "(deref queue s)\<lparr>q_items := []\<rparr> = deref queue s" using assms(2) by (cases "deref queue s") simp
  then have "assign queue ((deref queue s)\<lparr>q_items := []\<rparr>) s = s"
    by (simp only: write_read [OF assms(1)])
  with assms show ?thesis
    by (simp add: solo_queue_put solo_queue_get read_write write_write) (simp add: solo_seg_def)
qed

end

text \<open>
  \<open>normalize_timeout\<close> answers with a timeout between 0 and the server's maximum, the
  maximum itself when the caller gave none and the caller's value otherwise; it raises
  \<open>TimeoutOutOfRangeError\<close> exactly on the values outside that range.
\<close>

theorem normalize_timeout_correct:
  assumes "0 \<le> max_ms"
  shows "(normalize_timeout t max_ms = Inr r \<longleftrightarrow>
      0 \<le> r \<and> r \<le> max_ms \<and> (t = Some r \<or> t = None \<and> r = max_ms))
    \<and> ((\<exists>d. normalize_timeout t max_ms = Inl (TimeoutOutOfRangeError d)) \<longleftrightarrow>
      (\<exists>v. t = Some v \<and> v \<notin> {0..max_ms}))
    \<and> (\<forall>e. normalize_timeout t max_ms = Inl e \<longrightarrow> status_code e = 400)"
  using assms by (auto simp: normalize_timeout_def split: option.splits if_splits)

theorem normalize_timeout_correct_witness:
  "normalize_timeout (Some 5000) 5000 = Inr 5000
   \<and> (\<exists>d. normalize_timeout (Some 5001) 5000 = Inl (TimeoutOutOfRangeError d))"
  using normalize_timeout_correct [of 5000 "Some 5000" 5000]
    normalize_timeout_correct [of 5000 "Some 5001" 0] by auto

end
