(* ===== verification/Registries.thy ===== *)
theory Registries
  imports Queueing
begin

text \<open>
  \<open>registries.py\<close>: the two dicts of in-memory queues. Queues and client entries are mutable
  objects that handlers keep references to across an \<open>await\<close>, while the dict may drop or
  replace them, so the model keeps the objects in a store (a list that only grows; the
  reference is the index) and the dict maps a name to a reference.

  \<^item> \<open>service_registry\<close>, \<open>service_get_or_create\<close>, \<open>snapshot_loads\<close>.
  \<^item> \<open>client_registry\<close>, \<open>client_get_or_create\<close>, \<open>client_get\<close>, \<open>client_remove\<close>,
    \<open>bump_last_seen\<close>, \<open>snapshot_keys\<close>, \<open>client_count\<close>.
  \<^item> locale \<open>lazy_registry\<close>: the contract of \<open>get_or_create\<close>, interpreted for both;
    \<open>evicting_registry\<close> extends it by removal, interpreted for the client registry.
  \<^item> \<open>sr_wf\<close>, \<open>cr_wf\<close>: the invariants, kept by every operation.
\<close>

section \<open>The contract of a lazily filled registry\<close>

locale lazy_registry =
  fixes lookup :: "'st \<Rightarrow> 'k \<Rightarrow> 'ref option"
    and names :: "'st \<Rightarrow> 'k list"
    and allocated :: "'st \<Rightarrow> 'ref set"
    and get_or_create :: "'k \<Rightarrow> 'st \<Rightarrow> 'ref \<times> 'st"
    and inv :: "'st \<Rightarrow> bool"
  assumes names_iff: "k \<in> set (names s) \<longleftrightarrow> lookup s k \<noteq> None"
    and hit: "lookup s k = Some r \<Longrightarrow> get_or_create k s = (r, s)"
    and miss: "inv s \<Longrightarrow> lookup s k = None \<Longrightarrow> get_or_create k s = (r, s') \<Longrightarrow>
      lookup s' = (lookup s)(k \<mapsto> r) \<and> names s' = names s @ [k] \<and> r \<notin> allocated s \<and>
      allocated s' = insert r (allocated s)"
    and inv_get_or_create: "inv s \<Longrightarrow> inv (snd (get_or_create k s))"
    and inv_names: "inv s \<Longrightarrow> distinct (names s)"
    and inv_lookup: "inv s \<Longrightarrow> lookup s k = Some r \<Longrightarrow> r \<in> allocated s"
    and inv_inject: "inv s \<Longrightarrow> lookup s j = Some r \<Longrightarrow> lookup s k = Some r \<Longrightarrow> j = k"
begin

lemma get_or_create_cases:
  assumes "inv s" "get_or_create k s = (r, s')"
  obtains (present) "lookup s k = Some r" "s' = s"
  | (created) "lookup s k = None" "lookup s' = (lookup s)(k \<mapsto> r)" "names s' = names s @ [k]"
      "r \<notin> allocated s" "allocated s' = insert r (allocated s)"
proof (cases "lookup s k")
  case None
  with miss [OF assms(1) None assms(2)] show ?thesis using created by blast
next
  case (Some q)
  with hit [OF Some] assms(2) show ?thesis using present by simp
qed

lemma registered: "inv s \<Longrightarrow> get_or_create k s = (r, s') \<Longrightarrow> lookup s' k = Some r"
  by (erule (1) get_or_create_cases) simp_all

lemma keeps_others:
  "inv s \<Longrightarrow> get_or_create k s = (r, s') \<Longrightarrow> j \<noteq> k \<Longrightarrow> lookup s' j = lookup s j"
  by (erule (1) get_or_create_cases) simp_all

lemma keeps_bindings:
  "inv s \<Longrightarrow> get_or_create k s = (r, s') \<Longrightarrow> lookup s j = Some q \<Longrightarrow> lookup s' j = Some q"
  by (erule (1) get_or_create_cases) auto

lemma same_again: "inv s \<Longrightarrow> get_or_create k s = (r, s') \<Longrightarrow> get_or_create k s' = (r, s')"
  by (intro hit registered)

lemma different_names:
  assumes "inv s" "get_or_create j s = (q, t)" "get_or_create k t = (r, u)" "j \<noteq> k"
  shows "q \<noteq> r"
proof -
  have t: "inv t" using inv_get_or_create [OF assms(1), of j] assms(2) by simp
  have u: "inv u" using inv_get_or_create [OF t, of k] assms(3) by simp
  have "lookup u j = Some q"
    using keeps_bindings [OF t assms(3)] registered [OF assms(1,2)] by blast
  moreover have "lookup u k = Some r" by (rule registered [OF t assms(3)])
  ultimately show ?thesis using inv_inject [OF u] assms(4) by auto
qed

end

locale evicting_registry = lazy_registry +
  fixes remove :: "'b \<Rightarrow> 'a \<Rightarrow> 'a"
  assumes lookup_remove: "lookup (remove k s) = (lookup s)(k := None)"
    and names_remove: "names (remove k s) = removeAll k (names s)"
    and allocated_remove: "allocated (remove k s) = allocated s"
    and inv_remove: "inv s \<Longrightarrow> inv (remove k s)"
begin

lemma recreated_is_new:
  assumes "inv s" "lookup s k = Some r" "get_or_create k (remove k s) = (r', s')"
  shows "r' \<noteq> r" "lookup s' k = Some r'"
proof -
  have "lookup (remove k s) k = None" by (simp add: lookup_remove)
  from miss [OF inv_remove [OF assms(1)] this assms(3)] inv_lookup [OF assms(1,2)]
  show "r' \<noteq> r" "lookup s' k = Some r'" by (auto simp: allocated_remove)
qed

lemma remove_idempotent: "lookup (remove k (remove k s)) = lookup (remove k s)"
  by (simp add: lookup_remove)

end

section \<open>ServiceRegistry\<close>

record service_registry =
  sr_queue_max_size :: int
  sr_queues :: "(string, nat) dict"
  sr_objects :: "pype_request queue list"

definition new_service_registry :: "int \<Rightarrow> service_registry" where
  "new_service_registry queue_max_size =
     \<lparr>sr_queue_max_size = queue_max_size, sr_queues = [], sr_objects = []\<rparr>"

definition service_get_or_create :: "string \<Rightarrow> service_registry \<Rightarrow> nat \<times> service_registry" where
  "service_get_or_create service_name reg = (case map_of (sr_queues reg) service_name of
     Some existing \<Rightarrow> (existing, reg)
   | None \<Rightarrow>
       let queue = length (sr_objects reg)
       in (queue, reg\<lparr>sr_objects := sr_objects reg @ [new_queue (sr_queue_max_size reg)],
             sr_queues := AList.update service_name queue (sr_queues reg)\<rparr>))"

definition snapshot_loads :: "service_registry \<Rightarrow> (string \<times> int) list" where
  "snapshot_loads reg = map (\<lambda>(name, q). (name, qsize (sr_objects reg ! q))) (sr_queues reg)"

text \<open>A queue within its bound, as every queue of a registry is.\<close>

definition queue_ok :: "int \<Rightarrow> 'a queue \<Rightarrow> bool" where
  "queue_ok max_size q \<longleftrightarrow> q_maxsize q = max_size \<and> (0 < max_size \<longrightarrow> qsize q \<le> max_size)"

lemma queue_ok_new: "queue_ok n (new_queue n)"
  by (simp add: queue_ok_def qsize_def)

lemma queue_ok_put: "put_nowait x q = Inr q' \<Longrightarrow> queue_ok n q \<Longrightarrow> queue_ok n q'"
  by (auto simp: put_nowait_Inr queue_ok_def full_def qsize_def split: if_splits)

lemma queue_ok_get: "get_nowait q = Inr (x, q') \<Longrightarrow> queue_ok n q \<Longrightarrow> queue_ok n q'"
  using aq.get_Inr [of q x q'] by (auto simp: queue_ok_def qsize_def)

definition sr_wf :: "service_registry \<Rightarrow> bool" where
  "sr_wf reg \<longleftrightarrow> distinct (dict_keys (sr_queues reg)) \<and> distinct (map snd (sr_queues reg)) \<and>
     (\<forall>q \<in> set (map snd (sr_queues reg)). q < length (sr_objects reg)) \<and>
     list_all (queue_ok (sr_queue_max_size reg)) (sr_objects reg)"

lemma sr_wf_new: "sr_wf (new_service_registry n)"
  by (simp add: sr_wf_def new_service_registry_def)

lemma sr_ref_valid: "sr_wf reg \<Longrightarrow> map_of (sr_queues reg) name = Some q \<Longrightarrow> q < length (sr_objects reg)"
  by (force simp: sr_wf_def dest: map_of_SomeD)

lemma sr_wf_get_or_create: "sr_wf reg \<Longrightarrow> sr_wf (snd (service_get_or_create name reg))"
  by (auto simp: sr_wf_def service_get_or_create_def dict_update_fresh queue_ok_new less_Suc_eq
      map_of_eq_None_iff Let_def split: option.splits)

interpretation sr: lazy_registry
  "\<lambda>reg. map_of (sr_queues reg)" "\<lambda>reg. dict_keys (sr_queues reg)"
  "\<lambda>reg. {..<length (sr_objects reg)}" service_get_or_create sr_wf
proof
  fix k and s :: service_registry
  show "k \<in> set (dict_keys (sr_queues s)) \<longleftrightarrow> map_of (sr_queues s) k \<noteq> None"
    by (simp add: map_of_eq_None_iff)
next
  fix s :: service_registry and k r assume "map_of (sr_queues s) k = Some r"
  then show "service_get_or_create k s = (r, s)" by (simp add: service_get_or_create_def)
next
  fix s s' :: service_registry and k r
  assume "map_of (sr_queues s) k = None" "service_get_or_create k s = (r, s')"
  then show "map_of (sr_queues s') = (map_of (sr_queues s))(k \<mapsto> r) \<and>
      dict_keys (sr_queues s') = dict_keys (sr_queues s) @ [k] \<and>
      r \<notin> {..<length (sr_objects s)} \<and>
      {..<length (sr_objects s')} = insert r {..<length (sr_objects s)}"
    by (auto simp: service_get_or_create_def dict_update_fresh map_add_def fun_eq_iff Let_def split: option.splits)
next
  fix k and s :: service_registry assume "sr_wf s"
  then show "sr_wf (snd (service_get_or_create k s))" by (rule sr_wf_get_or_create)
next
  fix s :: service_registry assume "sr_wf s"
  then show "distinct (dict_keys (sr_queues s))" by (simp add: sr_wf_def)
next
  fix s :: service_registry and k r assume "sr_wf s" "map_of (sr_queues s) k = Some r"
  then show "r \<in> {..<length (sr_objects s)}" by (simp add: sr_ref_valid)
next
  fix s :: service_registry and j k r assume "sr_wf s" "map_of (sr_queues s) j = Some r" "map_of (sr_queues s) k = Some r"
  then show "j = k"
    by (auto simp: sr_wf_def dest!: map_of_SomeD intro: distinct_snd_inject)
qed

text \<open>
  The service registry never loses or exchanges a queue: \<open>get_or_create\<close> returns the queue
  registered under the name and registers a fresh, empty one of the configured capacity when
  there is none; afterwards it returns the same queue again, all earlier names keep their
  queues, and different names have different queues.
\<close>

theorem service_get_or_create_correct:
  assumes "sr_wf reg" "service_get_or_create name reg = (q, reg')"
  shows "sr_wf reg' \<and> map_of (sr_queues reg') name = Some q
    \<and> service_get_or_create name reg' = (q, reg')
    \<and> (\<forall>other p. map_of (sr_queues reg) other = Some p \<longrightarrow>
        map_of (sr_queues reg') other = Some p \<and> sr_objects reg' ! p = sr_objects reg ! p)
    \<and> (map_of (sr_queues reg) name = None \<longrightarrow>
        q_items (sr_objects reg' ! q) = [] \<and> q_maxsize (sr_objects reg' ! q) = sr_queue_max_size reg)
    \<and> (\<forall>other r reg''. other \<noteq> name \<longrightarrow> service_get_or_create other reg' = (r, reg'') \<longrightarrow> r \<noteq> q)"
proof (intro conjI)
  show "sr_wf reg'" using sr_wf_get_or_create [OF assms(1), of name] assms(2) by simp
  show "map_of (sr_queues reg') name = Some q" by (rule sr.registered [OF assms])
  show "service_get_or_create name reg' = (q, reg')" by (rule sr.same_again [OF assms])
  have "sr_objects reg' ! p = sr_objects reg ! p" if "p < length (sr_objects reg)" for p
    using assms(2) that
    by (auto simp: service_get_or_create_def Let_def nth_append split: option.splits)
  then show "\<forall>other p. map_of (sr_queues reg) other = Some p \<longrightarrow>
      map_of (sr_queues reg') other = Some p \<and> sr_objects reg' ! p = sr_objects reg ! p"
    using sr.keeps_bindings [OF assms] sr_ref_valid [OF assms(1)] by blast
  show "map_of (sr_queues reg) name = None \<longrightarrow>
      q_items (sr_objects reg' ! q) = [] \<and> q_maxsize (sr_objects reg' ! q) = sr_queue_max_size reg"
    using assms(2) by (auto simp: service_get_or_create_def Let_def)
  show "\<forall>other r reg''. other \<noteq> name \<longrightarrow> service_get_or_create other reg' = (r, reg'') \<longrightarrow> r \<noteq> q"
    using sr.different_names [OF assms] by blast
qed

theorem service_get_or_create_correct_witness:
  "let reg' = \<lparr>sr_queue_max_size = 4, sr_queues = [(''echo'', 0)], sr_objects = [new_queue 4]\<rparr>
   in service_get_or_create ''echo'' (new_service_registry 4) = (0, reg') \<and>
      service_get_or_create ''echo'' reg' = (0, reg')"
proof -
  let ?reg' = "\<lparr>sr_queue_max_size = 4, sr_queues = [(''echo'', 0)], sr_objects = [new_queue 4]\<rparr>"
  have eq: "service_get_or_create ''echo'' (new_service_registry 4) = (0, ?reg')"
    by (simp add: service_get_or_create_def new_service_registry_def)
  from service_get_or_create_correct [OF sr_wf_new eq] eq show ?thesis by simp
qed

section \<open>ClientRegistry\<close>

record client_entry =
  ce_client_id :: string
  ce_queue :: "pype_response queue"
  ce_last_seen :: rat

record client_registry =
  cr_queue_max_size :: int
  cr_entries :: "(string, nat) dict"
  cr_objects :: "client_entry list"

definition new_client_registry :: "int \<Rightarrow> client_registry" where
  "new_client_registry queue_max_size =
     \<lparr>cr_queue_max_size = queue_max_size, cr_entries = [], cr_objects = []\<rparr>"

text \<open>The registry reads the clock when it creates an entry and when it bumps one.\<close>

definition client_get_or_create ::
    "string \<Rightarrow> client_registry \<times> mono_clock \<Rightarrow> nat \<times> client_registry \<times> mono_clock" where
  "client_get_or_create client_id = (\<lambda>(reg, clk). (case map_of (cr_entries reg) client_id of
     Some existing \<Rightarrow> (existing, reg, clk)
   | None \<Rightarrow>
       let queue = new_queue (cr_queue_max_size reg);
           (t, clk) = monotonic clk;
           entry = length (cr_objects reg)
       in (entry, reg\<lparr>cr_objects := cr_objects reg @
                 [\<lparr>ce_client_id = client_id, ce_queue = queue, ce_last_seen = t\<rparr>],
               cr_entries := AList.update client_id entry (cr_entries reg)\<rparr>, clk)))"

definition client_get :: "string \<Rightarrow> client_registry \<Rightarrow> nat option" where
  "client_get client_id reg = map_of (cr_entries reg) client_id"

definition client_remove :: "string \<Rightarrow> client_registry \<Rightarrow> nat option \<times> client_registry" where
  "client_remove client_id reg =
     (map_of (cr_entries reg) client_id, reg\<lparr>cr_entries := AList.delete client_id (cr_entries reg)\<rparr>)"

definition bump_last_seen ::
    "string \<Rightarrow> client_registry \<times> mono_clock \<Rightarrow> client_registry \<times> mono_clock" where
  "bump_last_seen client_id = (\<lambda>(reg, clk). (case map_of (cr_entries reg) client_id of
     None \<Rightarrow> (reg, clk)
   | Some entry \<Rightarrow>
       let (t, clk) = monotonic clk
       in (reg\<lparr>cr_objects := (cr_objects reg)[entry := (cr_objects reg ! entry)\<lparr>ce_last_seen := t\<rparr>]\<rparr>, clk)))"

definition snapshot_keys :: "client_registry \<Rightarrow> string list" where
  "snapshot_keys reg = dict_keys (cr_entries reg)"

definition client_count :: "client_registry \<Rightarrow> int" where
  "client_count reg = int (length (cr_entries reg))"

definition entry_ok :: "int \<Rightarrow> client_entry \<Rightarrow> bool" where
  "entry_ok max_size e \<longleftrightarrow> queue_ok max_size (ce_queue e)"

definition cr_wf :: "client_registry \<Rightarrow> bool" where
  "cr_wf reg \<longleftrightarrow> distinct (dict_keys (cr_entries reg)) \<and>
     (\<forall>(name, e) \<in> set (cr_entries reg). e < length (cr_objects reg) \<and> ce_client_id (cr_objects reg ! e) = name) \<and>
     list_all (entry_ok (cr_queue_max_size reg)) (cr_objects reg)"

lemma cr_wf_new: "cr_wf (new_client_registry n)"
  by (simp add: cr_wf_def new_client_registry_def)

lemma cr_ref_valid:
  assumes "cr_wf reg" "map_of (cr_entries reg) name = Some e"
  shows "e < length (cr_objects reg)" "ce_client_id (cr_objects reg ! e) = name"
  using assms by (force simp: cr_wf_def dest: map_of_SomeD)+

lemma cr_wf_get_or_create:
  "cr_wf (fst s) \<Longrightarrow> cr_wf (fst (snd (client_get_or_create name s)))"
  by (cases s) (auto simp: cr_wf_def client_get_or_create_def dict_update_fresh queue_ok_new less_Suc_eq
      map_of_eq_None_iff nth_append entry_ok_def Let_def split: option.splits prod.splits)

lemma cr_wf_remove: "cr_wf reg \<Longrightarrow> cr_wf (snd (client_remove name reg))"
  by (auto simp: cr_wf_def client_remove_def distinct_delete dict_pop_filter distinct_map_filter)

text \<open>Writing an object back keeps the invariant when the id stays and the queue is in bounds.\<close>

lemma cr_wf_write:
  assumes "cr_wf reg" "ce_client_id e' = ce_client_id (cr_objects reg ! e)"
    "entry_ok (cr_queue_max_size reg) e'"
  shows "cr_wf (reg\<lparr>cr_objects := (cr_objects reg)[e := e']\<rparr>)"
  using assms by (auto simp: cr_wf_def object_simps list_all_length)

lemma cr_entry_ok: "cr_wf reg \<Longrightarrow> e < length (cr_objects reg) \<Longrightarrow> entry_ok (cr_queue_max_size reg) (cr_objects reg ! e)"
  by (simp add: cr_wf_def list_all_length)

lemma cr_wf_bump: "cr_wf (fst s) \<Longrightarrow> cr_wf (fst (bump_last_seen name s))"
proof (cases s)
  case (Pair reg clk)
  assume "cr_wf (fst s)"
  with Pair have reg: "cr_wf reg" by simp
  show ?thesis
  proof (cases "map_of (cr_entries reg) name")
    case None
    with Pair reg show ?thesis by (simp add: bump_last_seen_def)
  next
    case (Some e)
    then have "entry_ok (cr_queue_max_size reg) ((cr_objects reg ! e)\<lparr>ce_last_seen := t\<rparr>)" for t
      using cr_entry_ok [OF reg] cr_ref_valid [OF reg] by (simp add: entry_ok_def)
    with Pair Some reg show ?thesis
      by (auto simp: bump_last_seen_def Let_def split: prod.splits intro!: cr_wf_write)
  qed
qed

interpretation cr: evicting_registry
  "\<lambda>(reg, clk). map_of (cr_entries reg)" "\<lambda>(reg, clk). dict_keys (cr_entries reg)"
  "\<lambda>(reg, clk). {..<length (cr_objects reg)}" client_get_or_create "\<lambda>(reg, clk). cr_wf reg"
  "\<lambda>name (reg, clk). (snd (client_remove name reg), clk)"
proof (unfold_locales, goal_cases)
  case (1 k s)
  then show ?case by (cases s) (simp add: map_of_eq_None_iff)
next
  case (2 s k r)
  then show ?case by (cases s) (simp add: client_get_or_create_def)
next
  case (3 s k r s')
  then show ?case
    by (cases s; cases s') (auto simp: client_get_or_create_def dict_update_fresh map_add_def fun_eq_iff
        Let_def split: option.splits prod.splits)
next
  case (4 s k)
  then show ?case using cr_wf_get_or_create [of s k] by (simp add: case_prod_unfold)
next
  case (5 s)
  then show ?case by (cases s) (simp add: cr_wf_def)
next
  case (6 s k r)
  then show ?case using cr_ref_valid(1) by (cases s) auto
next
  case (7 s j r k)
  then show ?case using cr_ref_valid(2) by (cases s) (simp, metis)
next
  case (8 k s)
  then show ?case by (cases s) (auto simp: client_remove_def dict_simps fun_eq_iff)
next
  case (9 k s)
  then show ?case by (cases s) (simp add: client_remove_def dict_simps)
next
  case (10 k s)
  then show ?case by (cases s) (simp add: client_remove_def)
next
  case (11 s k)
  then show ?case using cr_wf_remove by (cases s) simp
qed

text \<open>
  An evicted or logged-off client that comes back gets a new, empty queue: after a removal
  \<open>get_or_create\<close> registers an entry that is a different object from the removed one, which
  stays as it was for the handlers that still hold it.
\<close>

theorem client_recreated_is_fresh:
  assumes "cr_wf reg" "map_of (cr_entries reg) cid = Some e"
    and "client_remove cid reg = (r, reg1)"
    and "client_get_or_create cid (reg1, clk) = (e', reg2, clk')"
  shows "r = Some e \<and> client_get cid reg1 = None \<and> client_get cid reg2 = Some e' \<and> e' \<noteq> e
    \<and> ce_client_id (cr_objects reg2 ! e') = cid \<and> q_items (ce_queue (cr_objects reg2 ! e')) = []
    \<and> cr_objects reg2 ! e = cr_objects reg ! e"
proof -
  have reg1: "reg1 = snd (client_remove cid reg)" and r: "r = Some e"
    using assms(2,3) by (simp_all add: client_remove_def)
  have none: "map_of (cr_entries reg1) cid = None"
    using assms(3) by (auto simp: client_remove_def dict_simps)
  have obj: "cr_objects reg1 = cr_objects reg" using assms(3) by (auto simp: client_remove_def)
  have e: "e < length (cr_objects reg)" by (rule cr_ref_valid [OF assms(1,2)])
  have new: "e' = length (cr_objects reg)" "cr_objects reg2 = cr_objects reg @
      [\<lparr>ce_client_id = cid, ce_queue = new_queue (cr_queue_max_size reg1), ce_last_seen = fst (monotonic clk)\<rparr>]"
    using assms(4) none obj by (simp_all add: client_get_or_create_def Let_def case_prod_unfold) auto
  have "e' \<noteq> e \<and> map_of (cr_entries reg2) cid = Some e'"
    using cr.recreated_is_new [of "(reg, clk)" cid e e' "(reg2, clk')"] assms(1,2,4) unfolding reg1
    by simp
  with e none r show ?thesis by (simp add: new client_get_def nth_append)
qed

theorem client_recreated_is_fresh_witness:
  "let e = \<lparr>ce_client_id = ''c'', ce_queue = \<lparr>q_maxsize = 8, q_items =
         [\<lparr>rs_request_id = ''1'', rs_content_type = ''t'', rs_payload = []\<rparr>]\<rparr>, ce_last_seen = 3\<rparr>;
       reg = \<lparr>cr_queue_max_size = 8, cr_entries = [(''c'', 0)], cr_objects = [e]\<rparr>;
       (e', reg2, clk) = client_get_or_create ''c'' (snd (client_remove ''c'' reg), \<lparr>now = 5, ticks = []\<rparr>)
   in e' \<noteq> 0 \<and> q_items (ce_queue (cr_objects reg2 ! e')) = []"
proof -
  let ?e = "\<lparr>ce_client_id = ''c'', ce_queue = \<lparr>q_maxsize = 8, q_items =
         [\<lparr>rs_request_id = ''1'', rs_content_type = ''t'', rs_payload = []\<rparr>]\<rparr>, ce_last_seen = 3\<rparr>"
  let ?reg = "\<lparr>cr_queue_max_size = 8, cr_entries = [(''c'', 0)], cr_objects = [?e]\<rparr>"
  obtain e' reg2 clk where eq: "client_get_or_create ''c'' (snd (client_remove ''c'' ?reg), \<lparr>now = 5, ticks = []\<rparr>)
      = (e', reg2, clk)" by (metis prod_cases3)
  have "cr_wf ?reg" by (simp add: cr_wf_def entry_ok_def queue_ok_def qsize_def)
  from client_recreated_is_fresh [OF this _ _ eq, of 0 "Some 0"] eq show ?thesis
    by (simp add: client_remove_def)
qed

end
