(* ===== verification/Reaper.thy ===== *)
theory Reaper
  imports Registries
begin

text \<open>
  \<open>reaper.py\<close>: the background task that evicts client entries nobody has used for a while.

  \<^item> \<open>reaper\<close>, \<open>effective_batch_size\<close>, \<open>reap_loop\<close> (the \<open>for\<close> of a tick), \<open>reaper_tick\<close>.
  \<^item> What a tick does to the registry exactly, which clients it can never evict, and how
    many ticks a sweep over the snapshot takes.
  The endless loop \<open>run\<close> (tick, then sleep one period) is a move of the server's event loop,
  in \<open>Server_App\<close>.
\<close>

record reaper =
  rp_period_seconds :: rat
  rp_min_batch_size :: int
  rp_threshold_seconds :: rat
  rp_target_sweep_seconds :: rat
  rp_cursor :: "string list"
  rp_cursor_idx :: nat

definition new_reaper :: "rat \<Rightarrow> int \<Rightarrow> rat \<Rightarrow> rat \<Rightarrow> reaper" where
  "new_reaper period_seconds batch_size inactivity_threshold_seconds target_sweep_seconds =
     \<lparr>rp_period_seconds = period_seconds, rp_min_batch_size = batch_size,
      rp_threshold_seconds = inactivity_threshold_seconds,
      rp_target_sweep_seconds = target_sweep_seconds, rp_cursor = [], rp_cursor_idx = 0\<rparr>"

definition ticks_per_sweep :: "reaper \<Rightarrow> int" where
  "ticks_per_sweep rp = max 1 \<lfloor>py_div (rp_target_sweep_seconds rp) (rp_period_seconds rp)\<rfloor>"

definition effective_batch_size :: "reaper \<Rightarrow> client_registry \<Rightarrow> int" where
  "effective_batch_size rp reg =
     (let scale_target = \<lceil>py_div (of_int (client_count reg)) (of_int (ticks_per_sweep rp))\<rceil>
      in max (rp_min_batch_size rp) scale_target)"

text \<open>The test of the loop body: has this entry been silent for longer than the threshold?\<close>

definition stale :: "rat \<Rightarrow> rat \<Rightarrow> client_entry \<Rightarrow> bool" where
  "stale threshold t entry \<longleftrightarrow> threshold < py_sub t (ce_last_seen entry)"

fun reap_loop :: "rat \<Rightarrow> rat \<Rightarrow> string list \<Rightarrow> nat list \<Rightarrow> client_registry \<Rightarrow> int \<Rightarrow> int \<times> client_registry" where
  "reap_loop threshold t cursor [] reg evicted = (evicted, reg)"
| "reap_loop threshold t cursor (i # is) reg evicted =
     (let client_id = cursor ! i in
      case client_get client_id reg of
        None \<Rightarrow> reap_loop threshold t cursor is reg evicted
      | Some entry \<Rightarrow>
          if stale threshold t (cr_objects reg ! entry)
          then reap_loop threshold t cursor is (snd (client_remove client_id reg)) (evicted + 1)
          else reap_loop threshold t cursor is reg evicted)"

definition refresh_cursor :: "reaper \<Rightarrow> client_registry \<Rightarrow> reaper" where
  "refresh_cursor rp reg =
     (if length (rp_cursor rp) \<le> rp_cursor_idx rp
      then rp\<lparr>rp_cursor := snapshot_keys reg, rp_cursor_idx := 0\<rparr> else rp)"

definition reaper_tick :: "reaper \<Rightarrow> client_registry \<times> mono_clock \<Rightarrow>
    int \<times> reaper \<times> client_registry \<times> mono_clock" where
  "reaper_tick rp0 = (\<lambda>(reg, clk).
     let rp = refresh_cursor rp0 reg in
     if rp_cursor rp = [] then (0, rp, reg, clk)
     else
       let (t, clk) = monotonic clk;
           batch_size = effective_batch_size rp reg;
           end_idx = min (rp_cursor_idx rp + nat batch_size) (length (rp_cursor rp));
           (evicted, reg) = reap_loop (rp_threshold_seconds rp) t (rp_cursor rp)
             [rp_cursor_idx rp..<end_idx] reg 0
       in (evicted, rp\<lparr>rp_cursor_idx := end_idx\<rparr>, reg, clk))"

section \<open>What one tick does\<close>

text \<open>The entries left after examining the keys of a window.\<close>

definition survivors :: "rat \<Rightarrow> rat \<Rightarrow> string list \<Rightarrow> client_registry \<Rightarrow> client_registry" where
  "survivors threshold t window reg =
     reg\<lparr>cr_entries := filter (\<lambda>(cid, e). \<not> (cid \<in> set window \<and> stale threshold t (cr_objects reg ! e)))
       (cr_entries reg)\<rparr>"

lemma survivors_eqI:
  assumes "\<And>c e. (c, e) \<in> set (cr_entries reg) \<Longrightarrow>
    (c \<in> set w \<and> stale thr t (cr_objects reg ! e)) = (c \<in> set w' \<and> stale thr t (cr_objects reg ! e))"
  shows "survivors thr t w reg = survivors thr t w' reg"
proof -
  have "filter (\<lambda>(cid, e). \<not> (cid \<in> set w \<and> stale thr t (cr_objects reg ! e))) (cr_entries reg) =
      filter (\<lambda>(cid, e). \<not> (cid \<in> set w' \<and> stale thr t (cr_objects reg ! e))) (cr_entries reg)"
    by (rule filter_cong [OF refl]) (use assms in auto)
  then show ?thesis by (simp add: survivors_def)
qed

lemma survivors_Cons_None:
  "client_get cid reg = None \<Longrightarrow> survivors thr t (cid # w) reg = survivors thr t w reg"
  by (rule survivors_eqI) (force simp: client_get_def map_of_eq_None_iff)

lemma survivors_Cons_fresh:
  assumes "distinct (dict_keys (cr_entries reg))" "client_get cid reg = Some e"
    "\<not> stale thr t (cr_objects reg ! e)"
  shows "survivors thr t (cid # w) reg = survivors thr t w reg"
proof (rule survivors_eqI)
  fix c e' assume "(c, e') \<in> set (cr_entries reg)"
  then have "map_of (cr_entries reg) c = Some e'" using assms(1) by simp
  then show "(c \<in> set (cid # w) \<and> stale thr t (cr_objects reg ! e')) =
      (c \<in> set w \<and> stale thr t (cr_objects reg ! e'))"
    using assms(2,3) by (auto simp: client_get_def)
qed

lemma survivors_Cons_stale:
  assumes "distinct (dict_keys (cr_entries reg))" "client_get cid reg = Some e"
    "stale thr t (cr_objects reg ! e)"
  shows "survivors thr t (cid # w) reg = survivors thr t w (snd (client_remove cid reg))"
proof -
  have "filter (\<lambda>(c, e). \<not> (c \<in> set (cid # w) \<and> stale thr t (cr_objects reg ! e))) (cr_entries reg) =
      filter (\<lambda>p. fst p \<noteq> cid \<and> (case p of (c, e) \<Rightarrow> \<not> (c \<in> set w \<and> stale thr t (cr_objects reg ! e))))
        (cr_entries reg)"
  proof (rule filter_cong [OF refl])
    fix p assume "p \<in> set (cr_entries reg)"
    then have "map_of (cr_entries reg) (fst p) = Some (snd p)" using assms(1) by simp
    then have "fst p = cid \<Longrightarrow> stale thr t (cr_objects reg ! snd p)"
      using assms(2,3) by (simp add: client_get_def)
    then show "(case p of (c, e) \<Rightarrow> \<not> (c \<in> set (cid # w) \<and> stale thr t (cr_objects reg ! e))) =
        (fst p \<noteq> cid \<and> (case p of (c, e) \<Rightarrow> \<not> (c \<in> set w \<and> stale thr t (cr_objects reg ! e))))"
      by (cases p) auto
  qed
  then show ?thesis by (simp add: survivors_def client_remove_def dict_pop_filter)
qed

lemma reap_loop_survivors:
  "distinct (dict_keys (cr_entries reg)) \<Longrightarrow>
   reap_loop thr t cursor is reg n =
     (n + client_count reg - client_count (survivors thr t (map ((!) cursor) is) reg),
      survivors thr t (map ((!) cursor) is) reg)"
proof (induction "is" arbitrary: reg n)
  case Nil
  then show ?case by (simp add: survivors_def client_count_def)
next
  case (Cons i "is")
  show ?case
  proof (cases "client_get (cursor ! i) reg")
    case None
    with Cons show ?thesis by (simp add: survivors_Cons_None Let_def)
  next
    case (Some e)
    show ?thesis
    proof (cases "stale thr t (cr_objects reg ! e)")
      case True
      let ?reg = "snd (client_remove (cursor ! i) reg)"
      have "distinct (dict_keys (cr_entries ?reg))"
        using Cons.prems by (simp add: client_remove_def distinct_delete)
      moreover have "client_count ?reg = client_count reg - 1"
        using dict_len_pop [OF Cons.prems, of "cursor ! i" e] Some
        by (simp add: client_remove_def client_count_def client_get_def)
      ultimately show ?thesis
        using Cons.IH [of ?reg] Some True survivors_Cons_stale [OF Cons.prems Some True]
        by (simp add: Let_def)
    next
      case False
      with Cons Some show ?thesis by (simp add: survivors_Cons_fresh Let_def)
    qed
  qed
qed

definition tick_window :: "reaper \<Rightarrow> client_registry \<Rightarrow> string list" where
  "tick_window rp0 reg = (let rp = refresh_cursor rp0 reg in
     take (nat (effective_batch_size rp reg)) (drop (rp_cursor_idx rp) (rp_cursor rp)))"

lemma refresh_cursor_sel [simp]:
  "rp_min_batch_size (refresh_cursor rp reg) = rp_min_batch_size rp"
  "rp_threshold_seconds (refresh_cursor rp reg) = rp_threshold_seconds rp"
  "ticks_per_sweep (refresh_cursor rp reg) = ticks_per_sweep rp"
  by (simp_all add: refresh_cursor_def ticks_per_sweep_def)

lemma refresh_cursor_live:
  "rp_cursor_idx (refresh_cursor rp reg) \<le> length (rp_cursor (refresh_cursor rp reg))"
  by (simp add: refresh_cursor_def)

lemma reaper_tick_eq:
  assumes "distinct (dict_keys (cr_entries reg))"
  shows "reaper_tick rp0 (reg, clk) =
    (let rp = refresh_cursor rp0 reg;
         t = fst (monotonic clk);
         reg' = (if rp_cursor rp = [] then reg
                 else survivors (rp_threshold_seconds rp0) t (tick_window rp0 reg) reg)
     in (client_count reg - client_count reg',
         if rp_cursor rp = [] then rp
         else rp\<lparr>rp_cursor_idx := min (rp_cursor_idx rp + nat (effective_batch_size rp reg)) (length (rp_cursor rp))\<rparr>,
         reg', if rp_cursor rp = [] then clk else snd (monotonic clk)))"
proof -
  let ?rp = "refresh_cursor rp0 reg"
  let ?stop = "min (rp_cursor_idx ?rp + nat (effective_batch_size ?rp reg)) (length (rp_cursor ?rp))"
  have "map ((!) (rp_cursor ?rp)) [rp_cursor_idx ?rp..<?stop] = tick_window rp0 reg"
    using refresh_cursor_live [of rp0 reg]
    by (simp add: map_nth_slice tick_window_def Let_def min_def)
  then show ?thesis
    by (simp add: reaper_tick_def Let_def reap_loop_survivors [OF assms] case_prod_unfold)
qed

lemma reaper_tick_result:
  assumes "cr_wf reg" "reaper_tick rp (reg, clk) = (n, rp', reg', clk')"
  shows "reg' = survivors (rp_threshold_seconds rp) (fst (monotonic clk)) (tick_window rp reg) reg"
    "n = client_count reg - client_count reg'" "cr_wf reg'"
    "clk' = clk \<or> clk' = snd (monotonic clk)" "rp_period_seconds rp' = rp_period_seconds rp"
proof -
  have d: "distinct (dict_keys (cr_entries reg))" using assms(1) by (simp add: cr_wf_def)
  have empty: "rp_cursor (refresh_cursor rp reg) = [] \<Longrightarrow> tick_window rp reg = []"
    by (simp add: tick_window_def)
  show reg': "reg' = survivors (rp_threshold_seconds rp) (fst (monotonic clk)) (tick_window rp reg) reg"
    and "n = client_count reg - client_count reg'" "clk' = clk \<or> clk' = snd (monotonic clk)"
      "rp_period_seconds rp' = rp_period_seconds rp"
    using assms(2) empty unfolding reaper_tick_eq [OF d]
    by (auto simp: Let_def survivors_def refresh_cursor_def case_prod_unfold split: if_splits)
  show "cr_wf reg'"
    using assms(1) by (auto simp: reg' survivors_def cr_wf_def distinct_map_filter)
qed

lemma survivors_sel [simp]:
  "cr_objects (survivors thr t w reg) = cr_objects reg"
  "cr_queue_max_size (survivors thr t w reg) = cr_queue_max_size reg"
  by (simp_all add: survivors_def)

lemma reaper_tick_keeps:
  assumes "cr_wf reg" "clock_ok clk" "reaper_tick rp (reg, clk) = (n, rp', reg', clk')"
  shows "cr_wf reg'" "cr_objects reg' = cr_objects reg" "cr_queue_max_size reg' = cr_queue_max_size reg"
    "clock_ok clk'" "now clk \<le> now clk'"
proof -
  note r = reaper_tick_result [OF assms(1,3)]
  show "cr_wf reg'" "cr_objects reg' = cr_objects reg" "cr_queue_max_size reg' = cr_queue_max_size reg"
    using r(1,3) by simp_all
  obtain t c where m: "monotonic clk = (t, c)" by (cases "monotonic clk")
  show "clock_ok clk'" "now clk \<le> now clk'"
    using r(4) monotonic_ok [OF m assms(2)] assms(2) m by auto
qed

text \<open>
  C24: one tick of the reaper removes from the registry exactly the clients of its window (the
  next batch of the snapshot) that have been silent for longer than the threshold, returns how
  many it removed, leaves every entry object untouched and keeps the registry well formed.
\<close>

theorem reaper_tick_evicts:
  assumes "cr_wf reg" "reaper_tick rp (reg, clk) = (n, rp', reg', clk')"
  shows "cr_entries reg' = filter (\<lambda>(cid, e). \<not> (cid \<in> set (tick_window rp reg) \<and>
          stale (rp_threshold_seconds rp) (fst (monotonic clk)) (cr_objects reg ! e))) (cr_entries reg)
    \<and> n = client_count reg - client_count reg' \<and> 0 \<le> n
    \<and> cr_objects reg' = cr_objects reg \<and> cr_wf reg'"
  using reaper_tick_result [OF assms] by (simp add: survivors_def client_count_def)

theorem reaper_tick_evicts_witness:
  "let mk = (\<lambda>c t. \<lparr>ce_client_id = c, ce_queue = new_queue 4, ce_last_seen = t\<rparr>);
       reg = \<lparr>cr_queue_max_size = 4, cr_entries = [(''a'', 0), (''b'', 1)], cr_objects = [mk ''a'' 0, mk ''b'' 95]\<rparr>;
       (n, rp, reg', clk) = reaper_tick (new_reaper 60 1000 10 600) (reg, \<lparr>now = 100, ticks = []\<rparr>)
   in n = 1 \<and> cr_entries reg' = [(''b'', 1)]"
proof -
  let ?mk = "\<lambda>c t. \<lparr>ce_client_id = c, ce_queue = new_queue 4 :: pype_response queue, ce_last_seen = t\<rparr>"
  let ?reg = "\<lparr>cr_queue_max_size = 4, cr_entries = [(''a'', 0), (''b'', 1)], cr_objects = [?mk ''a'' 0, ?mk ''b'' 95]\<rparr>"
  let ?clk = "\<lparr>now = 100, ticks = []\<rparr>"
  obtain n rp reg' clk where eq: "reaper_tick (new_reaper 60 1000 10 600) (?reg, ?clk) = (n, rp, reg', clk)"
    by (metis prod_cases4)
  have wf: "cr_wf ?reg" by (simp add: cr_wf_def entry_ok_def queue_ok_new)
  have "tick_window (new_reaper 60 1000 10 600) ?reg = [''a'', ''b'']"
    by code_simp
  moreover have "fl 100 = 100" "fl 5 = 5" using fl_int [of 100] fl_int [of 5] by simp_all
  ultimately have "cr_entries reg' = [(''b'', 1)] \<and> n = client_count ?reg - client_count reg'"
    using reaper_tick_evicts [OF wf eq]
    by (simp add: stale_def py_sub_def monotonic_def new_reaper_def)
  with eq show ?thesis by (simp add: client_count_def)
qed

section \<open>Who is never evicted\<close>

lemma not_staleI:
  assumes "t - ce_last_seen e \<le> thr" "fl thr = thr"
  shows "\<not> stale thr t e"
  using binary64.rnd_le_fixed [OF assms] by (simp add: stale_def py_sub_def)

lemma keeps_live:
  assumes "cr_wf reg" "reaper_tick rp (reg, clk) = (n, rp', reg', clk')"
    and "map_of (cr_entries reg) cid = Some e"
    and "fst (monotonic clk) - ce_last_seen (cr_objects reg ! e) \<le> rp_threshold_seconds rp"
    and "fl (rp_threshold_seconds rp) = rp_threshold_seconds rp"
  shows "client_get cid reg' = Some e \<and> cr_objects reg' ! e = cr_objects reg ! e"
proof -
  have "(cid, e) \<in> set (cr_entries reg)" using assms(3) by (rule map_of_SomeD)
  moreover note r = reaper_tick_result [OF assms(1,2)]
  moreover have "\<not> stale (rp_threshold_seconds rp) (fst (monotonic clk)) (cr_objects reg ! e)"
    using assms(4,5) by (rule not_staleI)
  ultimately have "(cid, e) \<in> set (cr_entries reg')" by (auto simp: survivors_def)
  moreover have "cr_wf reg'" by (rule r(3))
  then have "distinct (dict_keys (cr_entries reg'))" by (simp add: cr_wf_def)
  ultimately have "map_of (cr_entries reg') cid = Some e" by simp
  then show ?thesis using r by (simp add: client_get_def)
qed

text \<open>
  A client seen within the threshold survives every tick, wherever the cursor stands: the
  rounding of \<open>now - last_seen\<close> can never push a live client over a threshold that is a float.
\<close>

theorem reaper_keeps_live_clients:
  assumes "cr_wf reg" "reaper_tick rp (reg, clk) = (n, rp', reg', clk')"
    and "map_of (cr_entries reg) cid = Some e"
    and "fst (monotonic clk) - ce_last_seen (cr_objects reg ! e) \<le> rp_threshold_seconds rp"
    and "fl (rp_threshold_seconds rp) = rp_threshold_seconds rp"
  shows "client_get cid reg' = Some e \<and> cr_objects reg' ! e = cr_objects reg ! e"
  using assms by (rule keeps_live)

theorem reaper_keeps_live_clients_witness:
  "let reg = \<lparr>cr_queue_max_size = 4, cr_entries = [(''b'', 0)],
         cr_objects = [\<lparr>ce_client_id = ''b'', ce_queue = new_queue 4, ce_last_seen = 95\<rparr>]\<rparr>;
       (n, rp, reg', clk) = reaper_tick (new_reaper 60 1000 10 600) (reg, \<lparr>now = 100, ticks = [5]\<rparr>)
   in client_get ''b'' reg' = Some 0"
proof -
  let ?reg = "\<lparr>cr_queue_max_size = 4, cr_entries = [(''b'', 0)],
         cr_objects = [\<lparr>ce_client_id = ''b'', ce_queue = new_queue 4 :: pype_response queue, ce_last_seen = 95\<rparr>]\<rparr>"
  let ?clk = "\<lparr>now = 100, ticks = [5]\<rparr>"
  obtain n rp reg' clk where eq: "reaper_tick (new_reaper 60 1000 10 600) (?reg, ?clk) = (n, rp, reg', clk)"
    by (metis prod_cases4)
  have wf: "cr_wf ?reg" by (simp add: cr_wf_def entry_ok_def queue_ok_new)
  have "fl 10 = 10" using fl_int [of 10] by simp
  then have "client_get ''b'' reg' = Some 0"
    using reaper_keeps_live_clients [OF wf eq, of "''b''" 0] by (simp add: monotonic_def new_reaper_def)
  with eq show ?thesis by simp
qed

section \<open>How long a sweep takes\<close>

text \<open>
  \<open>reaper_ticks rp envs\<close> is the reaper after one tick per element of \<open>envs\<close>, the registry and
  clock it finds at each tick (the handlers change them in between in any way).
\<close>

fun reaper_ticks :: "reaper \<Rightarrow> (client_registry \<times> mono_clock) list \<Rightarrow> reaper" where
  "reaper_ticks rp [] = rp"
| "reaper_ticks rp (env # envs) = reaper_ticks (fst (snd (reaper_tick rp env))) envs"

lemma reaper_tick_midsweep:
  assumes "rp_cursor_idx rp < length (rp_cursor rp)"
  shows "fst (snd (reaper_tick rp (reg, clk))) = rp\<lparr>rp_cursor_idx :=
    min (rp_cursor_idx rp + nat (effective_batch_size rp reg)) (length (rp_cursor rp))\<rparr>"
  using assms by (auto simp: reaper_tick_def refresh_cursor_def Let_def split: prod.splits)

lemma sweep_with_batch:
  assumes "\<And>reg clk idx. (reg, clk) \<in> set envs \<Longrightarrow> B \<le> nat (effective_batch_size (rp\<lparr>rp_cursor_idx := idx\<rparr>) reg)"
    and "length (rp_cursor rp) \<le> rp_cursor_idx rp + length envs * B"
    and "rp_cursor_idx rp \<le> length (rp_cursor rp)"
  shows "\<exists>j \<le> length envs. reaper_ticks rp (take j envs) = rp\<lparr>rp_cursor_idx := length (rp_cursor rp)\<rparr>"
  using assms
proof (induction envs arbitrary: rp)
  case Nil
  then have "rp_cursor_idx rp = length (rp_cursor rp)" by simp
  then show ?case by (simp add: reaper.surjective)
next
  case (Cons env envs)
  obtain reg clk where env: "env = (reg, clk)" by (cases env)
  show ?case
  proof (cases "rp_cursor_idx rp < length (rp_cursor rp)")
    case False
    then have "rp_cursor_idx rp = length (rp_cursor rp)" using Cons.prems(3) by simp
    then have "reaper_ticks rp (take 0 (env # envs)) = rp\<lparr>rp_cursor_idx := length (rp_cursor rp)\<rparr>" by simp
    then show ?thesis by blast
  next
    case True
    let ?rp = "rp\<lparr>rp_cursor_idx := min (rp_cursor_idx rp + nat (effective_batch_size rp reg)) (length (rp_cursor rp))\<rparr>"
    have B: "B \<le> nat (effective_batch_size rp reg)"
      using Cons.prems(1) [of reg clk "rp_cursor_idx rp"] by (simp add: env)
    have "\<exists>j \<le> length envs. reaper_ticks ?rp (take j envs) = ?rp\<lparr>rp_cursor_idx := length (rp_cursor ?rp)\<rparr>"
    proof (rule Cons.IH)
      show "length (rp_cursor ?rp) \<le> rp_cursor_idx ?rp + length envs * B"
        using Cons.prems(2) B by (simp add: min_def)
    qed (use Cons.prems(1) in \<open>auto simp: env\<close>)
    then obtain j where "j \<le> length envs"
      and j: "reaper_ticks ?rp (take j envs) = rp\<lparr>rp_cursor_idx := length (rp_cursor rp)\<rparr>" by auto
    moreover have "reaper_ticks rp (take (Suc j) (env # envs)) = reaper_ticks ?rp (take j envs)"
      using reaper_tick_midsweep [OF True] by (simp add: env)
    ultimately show ?thesis by (intro exI [of _ "Suc j"]) simp
  qed
qed

text \<open>The quotient of two integers below $2^{53}$ is never rounded down to a smaller ceiling.\<close>

lemma ceiling_py_div_covers:
  assumes "0 < n" "0 \<le> m" "m < 2 ^ 53"
  shows "m \<le> n * \<lceil>py_div (of_int m) (of_int n)\<rceil>"
proof (rule ccontr)
  let ?q = "rat_of_int m / of_int n" and ?c = "\<lceil>py_div (of_int m) (of_int n)\<rceil>"
  assume "\<not> m \<le> n * ?c"
  then have "n * ?c + 1 \<le> m" by simp
  then have "rat_of_int (n * ?c + 1) \<le> of_int m" by (simp only: of_int_le_iff)
  then have "(of_int n * of_int ?c + 1) / of_int n \<le> ?q"
    using assms(1) by (intro divide_right_mono) simp_all
  then have gap: "of_int ?c + 1 / of_int n \<le> ?q" using assms(1) by (simp add: add_divide_distrib)
  have "fl ?q \<le> of_int ?c" by (simp add: py_div_def)
  with gap have "1 / of_int n \<le> \<bar>fl ?q - ?q\<bar>" by linarith
  also have "\<dots> \<le> ?q / 2 ^ 53" using fl_error [of ?q] assms by simp
  finally have "2 ^ 53 \<le> rat_of_int m" using assms(1) by (simp add: field_simps)
  then have "rat_of_int (2 ^ 53) \<le> of_int m" by simp
  then have "2 ^ 53 \<le> m" by (simp only: of_int_le_iff)
  with assms(3) show False by simp
qed

text \<open>
  C25: a sweep always completes: it needs at most as many ticks as there are minimum batches in
  what is left of the snapshot, whatever happens to the registry meanwhile; and if the registry
  does not shrink below the snapshot during the sweep, \<open>ticks_per_sweep\<close> ticks suffice,
  however large the registry is.
\<close>

theorem reaper_sweep_completes:
  assumes "0 < rp_min_batch_size rp" "rp_cursor_idx rp \<le> length (rp_cursor rp)"
    and "int (length (rp_cursor rp)) \<le> int (rp_cursor_idx rp) + int (length envs) * rp_min_batch_size rp
      \<or> ticks_per_sweep rp \<le> int (length envs) \<and> length (rp_cursor rp) < 2 ^ 53
        \<and> (\<forall>env \<in> set envs. int (length (rp_cursor rp)) \<le> client_count (fst env))"
  shows "\<exists>j \<le> length envs. reaper_ticks rp (take j envs) = rp\<lparr>rp_cursor_idx := length (rp_cursor rp)\<rparr>"
  using assms(3)
proof
  assume long: "int (length (rp_cursor rp)) \<le> int (rp_cursor_idx rp) + int (length envs) * rp_min_batch_size rp"
  show ?thesis
  proof (rule sweep_with_batch [where B = "nat (rp_min_batch_size rp)"])
    show "length (rp_cursor rp) \<le> rp_cursor_idx rp + length envs * nat (rp_min_batch_size rp)"
      using long assms(1) by (simp add: nat_int_comparison)
  qed (use assms(2) in \<open>auto simp: effective_batch_size_def Let_def\<close>)
next
  let ?m = "int (length (rp_cursor rp))" and ?n = "ticks_per_sweep rp"
  assume a: "?n \<le> int (length envs) \<and> length (rp_cursor rp) < 2 ^ 53
    \<and> (\<forall>env \<in> set envs. ?m \<le> client_count (fst env))"
  have n: "1 \<le> ?n" by (simp add: ticks_per_sweep_def)
  let ?B = "\<lceil>py_div (of_int ?m) (of_int ?n)\<rceil>"
  have B: "0 \<le> ?B" using n binary64.rnd_nonneg [of "of_int ?m / of_int ?n"] by (simp add: py_div_def)
  have "?m \<le> ?n * ?B" using ceiling_py_div_covers [of ?n ?m] n a by simp
  also have "\<dots> \<le> int (length envs) * ?B" using a B by (simp add: mult_right_mono)
  finally have len: "?m \<le> int (length envs) * ?B" .
  show ?thesis
  proof (rule sweep_with_batch [where B = "nat ?B"])
    show "length (rp_cursor rp) \<le> rp_cursor_idx rp + length envs * nat ?B"
      using len B by (simp add: nat_int_comparison)
  next
    fix reg clk idx assume "(reg, clk) \<in> set envs"
    then have "?m \<le> client_count reg" using a by auto
    then have "rat_of_int ?m \<le> of_int (client_count reg)" by (simp only: of_int_le_iff)
    then have "of_int ?m / of_int ?n \<le> rat_of_int (client_count reg) / of_int ?n"
      using n by (intro divide_right_mono) simp_all
    then have "?B \<le> \<lceil>py_div (of_int (client_count reg)) (of_int ?n)\<rceil>"
      unfolding py_div_def by (intro ceiling_mono fl_mono)
    then show "nat ?B \<le> nat (effective_batch_size (rp\<lparr>rp_cursor_idx := idx\<rparr>) reg)"
      by (simp add: effective_batch_size_def ticks_per_sweep_def Let_def)
  qed (rule assms(2))
qed

theorem reaper_sweep_completes_witness:
  "let rp = (new_reaper 60 1000 10 600)\<lparr>rp_cursor := [''a'', ''b'']\<rparr>;
       env = (new_client_registry 4, \<lparr>now = 0, ticks = []\<rparr>)
   in \<exists>j \<le> 1. reaper_ticks rp (take j [env]) = rp\<lparr>rp_cursor_idx := 2\<rparr>"
  using reaper_sweep_completes [of "(new_reaper 60 1000 10 600)\<lparr>rp_cursor := [''a'', ''b'']\<rparr>"
      "[(new_client_registry 4, \<lparr>now = 0, ticks = []\<rparr>)]"]
  by (simp add: new_reaper_def numeral_2_eq_2)

text \<open>
  The snapshot is fixed for a sweep while the batch is recomputed from the registry, which the
  sweep itself shrinks. \<open>abandoned n\<close> is a registry of \<open>n\<close> clients last seen at time 0.
\<close>

definition abandoned :: "nat \<Rightarrow> client_registry" where
  "abandoned n = \<lparr>cr_queue_max_size = 8,
     cr_entries = map (\<lambda>i. (py_str_nat i, i)) [0..<n],
     cr_objects = map (\<lambda>i. \<lparr>ce_client_id = py_str_nat i, ce_queue = new_queue 8, ce_last_seen = 0\<rparr>) [0..<n]\<rparr>"

fun tick_times :: "nat \<Rightarrow> reaper \<times> client_registry \<times> mono_clock \<Rightarrow> reaper \<times> client_registry \<times> mono_clock" where
  "tick_times 0 s = s"
| "tick_times (Suc n) (rp, env) = tick_times n (snd (reaper_tick rp env))"


end
