(* ===== verification/Routers.thy ===== *)
theory Routers
  imports Security Reaper
begin

text \<open>
  The state of a server process (\<open>main.py\<close>) and the request handlers of \<open>routers/\<close>.

  \<^item> \<open>server\<close>: the two registries, the clock, the reaper with the time it wakes up next and whether its
    task is alive. The settings are an argument.
  \<^item> \<open>client_entry_for\<close>, \<open>touch\<close>, \<open>service_queue_for\<close>, \<open>read_clock\<close>: the registries' operations
    on the whole state; \<open>service_queue\<close>, \<open>client_queue\<close>: references to the queues, both of them
    interpretations of \<open>shared_queue\<close>.
  \<^item> One definition per handler, with its effects in the order of the code and an \<open>await\<close> as
    the end of a segment. \<open>handle\<close> is what FastAPI does around them: the claims dependency
    first, then the validation of the parameters, then the handler.
  \<^item> What each handler does when it runs undisturbed.
\<close>

section \<open>The state of the process\<close>

record server =
  sv_clients :: client_registry
  sv_services :: service_registry
  sv_clock :: mono_clock
  sv_reaper :: reaper
  sv_wake :: rat
  sv_reaping :: bool

text \<open>
  \<open>create_app\<close> at time \<open>t\<close>. The reaper has no task before the application starts up.
\<close>

definition create_app :: "settings \<Rightarrow> mono_clock \<Rightarrow> server" where
  "create_app cfg clk = \<lparr>
     sv_clients = new_client_registry (client_queue_max_size cfg),
     sv_services = new_service_registry (service_queue_max_size cfg),
     sv_clock = clk,
     sv_reaper = new_reaper (client_reaper_period_seconds cfg) (client_reaper_batch_size cfg)
       (client_inactivity_threshold_seconds cfg) (client_reaper_target_sweep_seconds cfg),
     sv_wake = now clk,
     sv_reaping = False\<rparr>"

text \<open>The two halves of the context manager \<open>run_reaper\<close>: the task is created, and cancelled.\<close>

definition start_reaper :: "server \<Rightarrow> server" where
  "start_reaper sv = sv\<lparr>sv_wake := now (sv_clock sv), sv_reaping := True\<rparr>"

definition stop_reaper :: "server \<Rightarrow> server" where
  "stop_reaper sv = sv\<lparr>sv_reaping := False\<rparr>"

section \<open>The registries' operations on the whole state\<close>

definition client_entry_for :: "string \<Rightarrow> server \<Rightarrow> nat \<times> server" where
  "client_entry_for client_id sv = (case client_get_or_create client_id (sv_clients sv, sv_clock sv) of
     (entry, reg, clk) \<Rightarrow> (entry, sv\<lparr>sv_clients := reg, sv_clock := clk\<rparr>))"

definition touch :: "string \<Rightarrow> server \<Rightarrow> server" where
  "touch client_id sv = (case bump_last_seen client_id (sv_clients sv, sv_clock sv) of
     (reg, clk) \<Rightarrow> sv\<lparr>sv_clients := reg, sv_clock := clk\<rparr>)"

definition drop_client :: "string \<Rightarrow> server \<Rightarrow> server" where
  "drop_client client_id sv = sv\<lparr>sv_clients := snd (client_remove client_id (sv_clients sv))\<rparr>"

definition service_queue_for :: "string \<Rightarrow> server \<Rightarrow> nat \<times> server" where
  "service_queue_for service_name sv = (case service_get_or_create service_name (sv_services sv) of
     (queue, reg) \<Rightarrow> (queue, sv\<lparr>sv_services := reg\<rparr>))"

definition read_clock :: "server \<Rightarrow> rat \<times> server" where
  "read_clock sv = (case monotonic (sv_clock sv) of (t, clk) \<Rightarrow> (t, sv\<lparr>sv_clock := clk\<rparr>))"

definition remaining_ms :: "rat \<Rightarrow> server \<Rightarrow> int \<times> server" where
  "remaining_ms deadline sv = (case read_clock sv of (t, sv) \<Rightarrow> (max 0 (ms_until deadline t), sv))"

definition service_queue :: "nat \<Rightarrow> (server, pype_request) queue_ref" where
  "service_queue q = \<lparr>
     deref = (\<lambda>sv. sr_objects (sv_services sv) ! q),
     assign = (\<lambda>queue sv. sv\<lparr>sv_services := (sv_services sv)\<lparr>sr_objects :=
       (sr_objects (sv_services sv))[q := queue]\<rparr>\<rparr>)\<rparr>"

definition client_queue :: "nat \<Rightarrow> (server, pype_response) queue_ref" where
  "client_queue entry = \<lparr>
     deref = (\<lambda>sv. ce_queue (cr_objects (sv_clients sv) ! entry)),
     assign = (\<lambda>queue sv. sv\<lparr>sv_clients := (sv_clients sv)\<lparr>cr_objects :=
       (cr_objects (sv_clients sv))[entry := (cr_objects (sv_clients sv) ! entry)\<lparr>ce_queue := queue\<rparr>]\<rparr>\<rparr>)\<rparr>"

interpretation svq: shared_queue "service_queue q" "\<lambda>sv. q < length (sr_objects (sv_services sv))" for q
  by unfold_locales (simp_all add: service_queue_def)

interpretation clq: shared_queue "client_queue e" "\<lambda>sv. e < length (cr_objects (sv_clients sv))" for e
proof
  fix q q' :: "pype_response queue" and s
  show "assign (client_queue e) q' (assign (client_queue e) q s) = assign (client_queue e) q' s"
    by (cases "e < length (cr_objects (sv_clients s))") (simp_all add: client_queue_def list_update_beyond)
qed (simp_all add: client_queue_def)

section \<open>Handlers\<close>

type_synonym handler = "(server, reply) seg"

definition reply_with :: "http_response \<Rightarrow> handler" where
  "reply_with response = (\<lambda>sv. (sv, Return (Reply response)))"

definition raise :: "pype_error \<Rightarrow> handler" where
  "raise exc = (\<lambda>sv. (sv, Return (Raised exc)))"

text \<open>\<open>content_type or settings.default_content_type\<close>\<close>

definition content_type_or :: "string option \<Rightarrow> string \<Rightarrow> string" where
  "content_type_or content_type fallback = (case content_type of
     None \<Rightarrow> fallback | Some t \<Rightarrow> if t = [] then fallback else t)"

definition response_message :: "pype_response \<Rightarrow> http_response" where
  "response_message item = \<lparr>status = 200, media_type = Some (rs_content_type item),
     headers = [(''X-Pype-Request-Id'', rs_request_id item)], content = Raw (rs_payload item)\<rparr>"

definition request_message :: "pype_request \<Rightarrow> http_response" where
  "request_message item = \<lparr>status = 200, media_type = Some (rq_content_type item),
     headers = [(''X-Pype-Client-Id'', rq_client_id item), (''X-Pype-Request-Id'', rq_request_id item)],
     content = Raw (rq_payload item)\<rparr>"

subsection \<open>routers/services.py\<close>

definition post_request_to_service ::
    "settings \<Rightarrow> string \<Rightarrow> client_claims \<Rightarrow> string \<Rightarrow> int option \<Rightarrow> bool \<Rightarrow> string option \<Rightarrow> bytes \<Rightarrow> handler" where
  "post_request_to_service cfg service_name claims request_id timeout block content_type payload = (\<lambda>sv.
     let (entry, sv) = client_entry_for (cc_client_id claims) sv;
         sv = touch (cc_client_id claims) sv
     in case normalize_timeout timeout (max_timeout_ms cfg) of
       Inl exc \<Rightarrow> raise exc sv
     | Inr total_timeout_ms \<Rightarrow> (sv, Pause (\<lambda>sv.
         let pype_req = \<lparr>rq_client_id = cc_client_id claims, rq_request_id = request_id,
               rq_content_type = content_type_or content_type (default_content_type cfg),
               rq_payload = payload\<rparr>;
             (t, sv) = read_clock sv;
             deadline = deadline_at t total_timeout_ms;
             (queue, sv) = service_queue_for service_name sv;
             (remaining, sv) = remaining_ms deadline sv
         in queue_put (service_queue queue) pype_req remaining (\<lambda>enqueued sv.
           let sv = touch (cc_client_id claims) sv in
           if \<not> enqueued then reply_with (empty_response 503) sv
           else if \<not> block then reply_with (empty_response 202) sv
           else
             let (remaining, sv) = remaining_ms deadline sv
             in queue_get (client_queue entry) remaining (\<lambda>response.
               case response of
                 None \<Rightarrow> reply_with (empty_response 202)
               | Some item \<Rightarrow> reply_with (response_message item)) sv) sv)))"

definition get_request_for_service ::
    "settings \<Rightarrow> string \<Rightarrow> service_claims \<Rightarrow> int option \<Rightarrow> handler" where
  "get_request_for_service cfg service_name claims timeout = (\<lambda>sv.
     if sc_name claims \<noteq> service_name
     then raise (RoleMismatchError (''token'' @ [CHR 0x27] @ ''s service name does not match path'')) sv
     else case normalize_timeout timeout (max_timeout_ms cfg) of
       Inl exc \<Rightarrow> raise exc sv
     | Inr timeout_ms \<Rightarrow>
         let (queue, sv) = service_queue_for service_name sv
         in queue_get (service_queue queue) timeout_ms (\<lambda>item.
           case item of
             None \<Rightarrow> reply_with (empty_response 204)
           | Some item \<Rightarrow> reply_with (request_message item)) sv)"

subsection \<open>routers/clients.py\<close>

definition post_response_to_client ::
    "settings \<Rightarrow> string \<Rightarrow> service_claims \<Rightarrow> string \<Rightarrow> int option \<Rightarrow> string option \<Rightarrow> bytes \<Rightarrow> handler" where
  "post_response_to_client cfg client_id claims request_id timeout content_type payload = (\<lambda>sv.
     let (entry, sv) = client_entry_for client_id sv
     in case normalize_timeout timeout (max_timeout_ms cfg) of
       Inl exc \<Rightarrow> raise exc sv
     | Inr timeout_ms \<Rightarrow> (sv, Pause (
         let pype_resp = \<lparr>rs_request_id = request_id,
               rs_content_type = content_type_or content_type (default_content_type cfg),
               rs_payload = payload\<rparr>
         in queue_put (client_queue entry) pype_resp timeout_ms (\<lambda>enqueued.
           if \<not> enqueued then reply_with (empty_response 503)
           else reply_with (empty_response 202)))))"

definition get_response_for_client ::
    "settings \<Rightarrow> string \<Rightarrow> client_claims \<Rightarrow> int option \<Rightarrow> handler" where
  "get_response_for_client cfg client_id claims timeout = (\<lambda>sv.
     if cc_client_id claims \<noteq> client_id
     then raise (ForbiddenError (''path client_id does not match token'' @ [CHR 0x27] @ ''s client_id'')) sv
     else
       let (entry, sv) = client_entry_for client_id sv;
           sv = touch client_id sv
       in case normalize_timeout timeout (max_timeout_ms cfg) of
         Inl exc \<Rightarrow> raise exc sv
       | Inr timeout_ms \<Rightarrow>
           queue_get (client_queue entry) timeout_ms (\<lambda>item sv.
             let sv = touch client_id sv
             in case item of
               None \<Rightarrow> reply_with (empty_response 204) sv
             | Some item \<Rightarrow> reply_with (response_message item) sv) sv)"

subsection \<open>routers/auth.py with schemas/auth.py\<close>

text \<open>The response models, as the JSON document they are serialised to.\<close>

definition service_auth_response :: "string \<Rightarrow> string \<Rightarrow> string \<Rightarrow> json" where
  "service_auth_response access_token name service_secret = JObj
     [(''access_token'', JStr access_token), (''token_type'', JStr ''Bearer''), (''role'', JStr ''service''),
      (''name'', JStr name), (''service_secret'', JStr service_secret)]"

definition client_auth_response :: "string \<Rightarrow> string \<Rightarrow> string \<Rightarrow> json" where
  "client_auth_response access_token name client_id = JObj
     [(''access_token'', JStr access_token), (''token_type'', JStr ''Bearer''), (''role'', JStr ''client''),
      (''name'', JStr name), (''client_id'', JStr client_id)]"

definition client_logoff_response :: "string \<Rightarrow> json" where
  "client_logoff_response client_id =
     JObj [(''client_id'', JStr client_id), (''status'', JStr ''logged_off'')]"

definition service_auth :: "ext \<Rightarrow> settings \<Rightarrow> bytes \<Rightarrow> string \<Rightarrow> handler" where
  "service_auth x cfg random service_name = (\<lambda>sv.
     let service_secret = generate_secret random;
         token = issue_service_jwt x service_name service_secret cfg;
         (_, sv) = service_queue_for service_name sv
     in reply_with (json_response 200 [(''X-Pype-Server-IP'', internal_ip cfg)]
          (service_auth_response token service_name service_secret)) sv)"

definition client_auth :: "ext \<Rightarrow> settings \<Rightarrow> bytes \<Rightarrow> string \<Rightarrow> handler" where
  "client_auth x cfg random name =
     (let client_id = generate_secret random;
          token = issue_client_jwt x name client_id cfg
      in reply_with (json_response 200 [(''X-Pype-Server-IP'', internal_ip cfg)]
           (client_auth_response token name client_id)))"

definition client_logoff :: "client_claims \<Rightarrow> handler" where
  "client_logoff claims = (\<lambda>sv.
     let sv = drop_client (cc_client_id claims) sv
     in reply_with (json_response 200 [] (client_logoff_response (cc_client_id claims))) sv)"

subsection \<open>routers/load.py with schemas/load.py\<close>

definition service_load_entry :: "string \<Rightarrow> int \<Rightarrow> json" where
  "service_load_entry service_name load = JObj [(''service_name'', JStr service_name), (''load'', JInt load)]"

definition services_load :: handler where
  "services_load = (\<lambda>sv. reply_with (json_response 200 []
     (JArr (map (\<lambda>(name, load). service_load_entry name load) (snapshot_loads (sv_services sv))))) sv)"

section \<open>Dispatch\<close>

text \<open>
  A request after FastAPI has parsed it: the path parameters of its route, the optional query
  parameters and headers, the field of the JSON body of the two sign-in routes, and the raw
  body. A parameter that FastAPI cannot parse (a \<open>timeout\<close> that is no integer) is answered
  with 422 before it gets here.
\<close>

datatype endpoint =
    PostService string | GetService string | PostClient string | GetClient string
  | AuthService | AuthClient | LogoffClient | LoadServices

record http_request =
  hr_endpoint :: endpoint
  hr_authorization :: "string option"
  hr_request_id :: "string option"
  hr_timeout :: "int option"
  hr_block :: bool
  hr_content_type :: "string option"
  hr_name :: string
  hr_body :: bytes

text \<open>\<open>min_length=1\<close>\<close>

definition nonempty :: "string \<Rightarrow> handler \<Rightarrow> handler" where
  "nonempty param h = (if param = [] then (\<lambda>sv. (sv, Return Unprocessable)) else h)"

definition required :: "string option \<Rightarrow> (string \<Rightarrow> handler) \<Rightarrow> handler" where
  "required param h = (case param of
     None \<Rightarrow> (\<lambda>sv. (sv, Return Unprocessable)) | Some p \<Rightarrow> nonempty p (h p))"

definition depends :: "pype_error + 'c \<Rightarrow> ('c \<Rightarrow> handler) \<Rightarrow> handler" where
  "depends claims h = (case claims of Inl exc \<Rightarrow> raise exc | Inr c \<Rightarrow> h c)"

definition handle :: "ext \<Rightarrow> settings \<Rightarrow> bytes \<Rightarrow> http_request \<Rightarrow> handler" where
  "handle x cfg random r = (case hr_endpoint r of
     PostService service_name \<Rightarrow>
       depends (client_claims_of x cfg (hr_authorization r)) (\<lambda>claims.
         nonempty service_name (required (hr_request_id r) (\<lambda>request_id.
           post_request_to_service cfg service_name claims request_id (hr_timeout r) (hr_block r)
             (hr_content_type r) (hr_body r))))
   | GetService service_name \<Rightarrow>
       depends (service_claims_of x cfg (hr_authorization r)) (\<lambda>claims.
         nonempty service_name (get_request_for_service cfg service_name claims (hr_timeout r)))
   | PostClient client_id \<Rightarrow>
       depends (service_claims_of x cfg (hr_authorization r)) (\<lambda>claims.
         nonempty client_id (required (hr_request_id r) (\<lambda>request_id.
           post_response_to_client cfg client_id claims request_id (hr_timeout r)
             (hr_content_type r) (hr_body r))))
   | GetClient client_id \<Rightarrow>
       depends (client_claims_of x cfg (hr_authorization r)) (\<lambda>claims.
         nonempty client_id (get_response_for_client cfg client_id claims (hr_timeout r)))
   | AuthService \<Rightarrow> nonempty (hr_name r) (service_auth x cfg random (hr_name r))
   | AuthClient \<Rightarrow> nonempty (hr_name r) (client_auth x cfg random (hr_name r))
   | LogoffClient \<Rightarrow> depends (client_claims_of x cfg (hr_authorization r)) client_logoff
   | LoadServices \<Rightarrow> services_load)"

end
