(* ===== verification/Interleaving.thy ===== *)
theory Interleaving
  imports Routers
begin

text \<open>
  The contract of the request handlers under interleaving.

  \<^item> \<open>server_ok\<close>: the invariant of the process; \<open>grows\<close>: what every step keeps (queue objects
    are never dropped from the store, a service keeps its queue, an entry keeps its client id,
    time does not run backwards).
  \<^item> \<open>ledger\<close>: the event (nothing, one put, one get) that a step causes at each queue;
    \<open>effect who\<close>: the events a segment of a request of the principal \<open>who\<close> may cause, each of
    them tied to the reply the request can still have.
  \<^item> \<open>handle_ok\<close>: every segment of every handler keeps this contract, whatever happens between
    its segments; the locale \<open>interference\<close> is interpreted with it.
\<close>

section \<open>Invariant and stable facts\<close>

definition svc_items :: "server \<Rightarrow> nat \<Rightarrow> pype_request list" where
  "svc_items sv q = (if q < length (sr_objects (sv_services sv)) then q_items (sr_objects (sv_services sv) ! q) else [])"

definition cl_items :: "server \<Rightarrow> nat \<Rightarrow> pype_response list" where
  "cl_items sv e = (if e < length (cr_objects (sv_clients sv)) then q_items (ce_queue (cr_objects (sv_clients sv) ! e)) else [])"

text \<open>A client id for which the server has verified some token.\<close>

definition authentic :: "ext \<Rightarrow> settings \<Rightarrow> string \<Rightarrow> bool" where
  "authentic x cfg cid \<longleftrightarrow> (\<exists>h claims. client_claims_of x cfg h = Inr claims \<and> cc_client_id claims = cid)"

definition server_ok :: "ext \<Rightarrow> settings \<Rightarrow> server \<Rightarrow> bool" where
  "server_ok x cfg sv \<longleftrightarrow> cr_wf (sv_clients sv) \<and> sr_wf (sv_services sv) \<and> clock_ok (sv_clock sv)
     \<and> cr_queue_max_size (sv_clients sv) = client_queue_max_size cfg
     \<and> sr_queue_max_size (sv_services sv) = service_queue_max_size cfg
     \<and> (\<forall>q. \<forall>r \<in> set (svc_items sv q). authentic x cfg (rq_client_id r) \<and> rq_request_id r \<noteq> [])
     \<and> (\<forall>e. \<forall>r \<in> set (cl_items sv e). rs_request_id r \<noteq> [])"

text \<open>A name that gets a queue gets a new one.\<close>

definition fresh_names :: "server \<Rightarrow> server \<Rightarrow> bool" where
  "fresh_names sv sv' \<longleftrightarrow>
     (\<forall>name q. map_of (sr_queues (sv_services sv')) name = Some q \<longrightarrow>
        map_of (sr_queues (sv_services sv)) name = Some q \<or> length (sr_objects (sv_services sv)) \<le> q)
     \<and> (\<forall>cid e. map_of (cr_entries (sv_clients sv')) cid = Some e \<longrightarrow>
        map_of (cr_entries (sv_clients sv)) cid = Some e \<or> length (cr_objects (sv_clients sv)) \<le> e)"

lemma fresh_names_same [simp]:
  "sr_queues (sv_services sv') = sr_queues (sv_services sv) \<Longrightarrow> cr_entries (sv_clients sv') = cr_entries (sv_clients sv) \<Longrightarrow>
   fresh_names sv sv'"
  by (simp add: fresh_names_def)

definition grows :: "server \<Rightarrow> server \<Rightarrow> bool" where
  "grows sv sv' \<longleftrightarrow>
     length (sr_objects (sv_services sv)) \<le> length (sr_objects (sv_services sv'))
     \<and> length (cr_objects (sv_clients sv)) \<le> length (cr_objects (sv_clients sv'))
     \<and> (\<forall>name q. map_of (sr_queues (sv_services sv)) name = Some q \<longrightarrow>
          map_of (sr_queues (sv_services sv')) name = Some q)
     \<and> (\<forall>e < length (cr_objects (sv_clients sv)).
          ce_client_id (cr_objects (sv_clients sv') ! e) = ce_client_id (cr_objects (sv_clients sv) ! e))
     \<and> fresh_names sv sv'
     \<and> now (sv_clock sv) \<le> now (sv_clock sv')"

lemma grows_refl [simp]: "grows sv sv"
  by (simp add: grows_def)

lemma grows_trans: "grows a b \<Longrightarrow> grows b c \<Longrightarrow> grows a c"
proof -
  assume ab: "grows a b" and bc: "grows b c"
  then have "fresh_names a c" unfolding grows_def fresh_names_def by (meson order_trans)
  with ab bc show ?thesis unfolding grows_def by (auto intro: order_trans)
qed

section \<open>Events\<close>

datatype 'a event = Same | Enq 'a | Deq 'a

fun follows :: "'a event \<Rightarrow> 'a list \<Rightarrow> 'a list \<Rightarrow> bool" where
  "follows Same xs ys \<longleftrightarrow> ys = xs"
| "follows (Enq x) xs ys \<longleftrightarrow> ys = xs @ [x]"
| "follows (Deq x) xs ys \<longleftrightarrow> xs = x # ys"

text \<open>Of all queues of a kind, at most one has an event.\<close>

definition single :: "(nat \<Rightarrow> 'a event) \<Rightarrow> bool" where
  "single ev \<longleftrightarrow> (\<exists>q. \<forall>q'. q' \<noteq> q \<longrightarrow> ev q' = Same)"

lemma single_simps [simp]: "single (\<lambda>_. Same)" "single ((\<lambda>_. Same)(q := ev))"
  by (auto simp: single_def)

definition ledger :: "server \<Rightarrow> server \<Rightarrow> (nat \<Rightarrow> pype_request event) \<Rightarrow> (nat \<Rightarrow> pype_response event) \<Rightarrow> bool" where
  "ledger sv sv' se ce \<longleftrightarrow> grows sv sv' \<and> single se \<and> single ce
     \<and> (\<forall>q. follows (se q) (svc_items sv q) (svc_items sv' q))
     \<and> (\<forall>e. follows (ce e) (cl_items sv e) (cl_items sv' e))"

abbreviation quiet :: "server \<Rightarrow> server \<Rightarrow> bool" where
  "quiet sv sv' \<equiv> ledger sv sv' (\<lambda>_. Same) (\<lambda>_. Same)"

lemma quiet_refl: "quiet sv sv"
  by (simp add: ledger_def)

lemma ledger_quiet: "ledger a b se ce \<Longrightarrow> quiet b c \<Longrightarrow> ledger a c se ce"
  unfolding ledger_def using grows_trans by fastforce

lemma quiet_ledger: "quiet a b \<Longrightarrow> ledger b c se ce \<Longrightarrow> ledger a c se ce"
  unfolding ledger_def using grows_trans by fastforce

lemma ledger_both:
  "ledger a b se (\<lambda>_. Same) \<Longrightarrow> ledger b c (\<lambda>_. Same) ce \<Longrightarrow> ledger a c se ce"
  unfolding ledger_def using grows_trans by fastforce

lemma ledger_grows: "ledger a b se ce \<Longrightarrow> grows a b"
  by (simp add: ledger_def)

text \<open>On whose behalf a request runs.\<close>

datatype principal = Nobody | Service string | Client string

definition rejected :: "reply \<Rightarrow> bool" where
  "rejected p \<longleftrightarrow> p = Reply (empty_response 503)"

fun svc_permitted :: "principal \<Rightarrow> server \<Rightarrow> (server, reply) co \<Rightarrow> nat \<Rightarrow> pype_request event \<Rightarrow> bool" where
  "svc_permitted who sv c q Same \<longleftrightarrow> True"
| "svc_permitted who sv c q (Enq r) \<longleftrightarrow> who = Client (rq_client_id r)
     \<and> (\<exists>name. map_of (sr_queues (sv_services sv)) name = Some q) \<and> always (\<lambda>p. \<not> rejected p) c"
| "svc_permitted who sv c q (Deq r) \<longleftrightarrow>
     (\<exists>name. who = Service name \<and> map_of (sr_queues (sv_services sv)) name = Some q)
     \<and> always (\<lambda>p. p = Reply (request_message r)) c"

fun cl_permitted :: "principal \<Rightarrow> server \<Rightarrow> (server, reply) co \<Rightarrow> nat \<Rightarrow> pype_response event \<Rightarrow> bool" where
  "cl_permitted who sv c e Same \<longleftrightarrow> True"
| "cl_permitted who sv c e (Enq r) \<longleftrightarrow> (\<exists>name. who = Service name) \<and> always (\<lambda>p. \<not> rejected p) c"
| "cl_permitted who sv c e (Deq r) \<longleftrightarrow>
     e < length (cr_objects (sv_clients sv)) \<and> who = Client (ce_client_id (cr_objects (sv_clients sv) ! e))
     \<and> always (\<lambda>p. p = Reply (response_message r)) c"

definition effect :: "principal \<Rightarrow> server \<Rightarrow> server \<Rightarrow> (server, reply) co \<Rightarrow> bool" where
  "effect who sv sv' c \<longleftrightarrow> (\<exists>se ce. ledger sv sv' se ce
     \<and> (\<forall>q. svc_permitted who sv' c q (se q)) \<and> (\<forall>e. cl_permitted who sv' c e (ce e)))"

definition reply_ok :: "reply \<Rightarrow> bool" where
  "reply_ok p \<longleftrightarrow> reply_status p \<in> {200, 202, 204, 400, 401, 403, 422, 503}"

lemma effect_quiet: "quiet a b \<Longrightarrow> effect who a b c"
  unfolding effect_def by (intro exI [of _ "\<lambda>_. Same"]) simp

lemma effect_grows: "effect who a b c \<Longrightarrow> grows a b"
  by (auto simp: effect_def ledger_def)

section \<open>The operations\<close>

lemma server_okD:
  assumes "server_ok x cfg sv"
  shows "cr_wf (sv_clients sv)" "sr_wf (sv_services sv)" "clock_ok (sv_clock sv)"
  using assms by (auto simp: server_ok_def)

text \<open>Steps that touch no queue keep the invariant if they keep the registries well formed.\<close>

lemma server_ok_quiet:
  assumes "server_ok x cfg sv" "quiet sv sv'" "cr_wf (sv_clients sv')" "sr_wf (sv_services sv')"
    "clock_ok (sv_clock sv')"
    "cr_queue_max_size (sv_clients sv') = cr_queue_max_size (sv_clients sv)"
    "sr_queue_max_size (sv_services sv') = sr_queue_max_size (sv_services sv)"
  shows "server_ok x cfg sv'"
  using assms by (auto simp: server_ok_def ledger_def)

lemma read_clock_ok:
  assumes "server_ok x cfg sv" "read_clock sv = (t, sv')"
  shows "server_ok x cfg sv'" "quiet sv sv'"
proof -
  obtain clk where m: "monotonic (sv_clock sv) = (t, clk)" and sv': "sv' = sv\<lparr>sv_clock := clk\<rparr>"
    using assms(2) by (auto simp: read_clock_def split: prod.splits)
  note c = monotonic_ok [OF m server_okD(3) [OF assms(1)]]
  show q: "quiet sv sv'" using c by (simp add: sv' ledger_def grows_def svc_items_def cl_items_def)
  show "server_ok x cfg sv'"
    by (rule server_ok_quiet [OF assms(1) q]) (use server_okD [OF assms(1)] c in \<open>simp_all add: sv'\<close>)
qed

lemma remaining_ms_ok:
  assumes "server_ok x cfg sv" "remaining_ms d sv = (ms, sv')"
  shows "server_ok x cfg sv'" "quiet sv sv'" "0 \<le> ms"
  using assms read_clock_ok [OF assms(1)] by (auto simp: remaining_ms_def split: prod.splits)

lemma client_entry_for_ok:
  assumes "server_ok x cfg sv" "client_entry_for cid sv = (e, sv')"
  shows "server_ok x cfg sv'" "quiet sv sv'" "e < length (cr_objects (sv_clients sv'))"
    "ce_client_id (cr_objects (sv_clients sv') ! e) = cid"
proof -
  note ok = server_okD [OF assms(1)]
  obtain reg clk where g: "client_get_or_create cid (sv_clients sv, sv_clock sv) = (e, reg, clk)"
    and sv': "sv' = sv\<lparr>sv_clients := reg, sv_clock := clk\<rparr>"
    using assms(2) by (auto simp: client_entry_for_def split: prod.splits)
  have wf: "cr_wf reg" using cr_wf_get_or_create [of "(sv_clients sv, sv_clock sv)" cid] g ok by simp
  have reg: "map_of (cr_entries reg) cid = Some e"
    using cr.registered [of "(sv_clients sv, sv_clock sv)" cid e "(reg, clk)"] g ok by simp
  from cr_ref_valid [OF wf reg] show "e < length (cr_objects (sv_clients sv'))"
    "ce_client_id (cr_objects (sv_clients sv') ! e) = cid" by (simp_all add: sv')
  have size: "cr_queue_max_size reg = cr_queue_max_size (sv_clients sv)"
    and objs: "cr_objects reg = cr_objects (sv_clients sv) \<or>
      (\<exists>o'. q_items (ce_queue o') = [] \<and> cr_objects reg = cr_objects (sv_clients sv) @ [o'])"
    and clk: "clock_ok clk" "now (sv_clock sv) \<le> now clk"
    using g ok(3) monotonic_ok [of "sv_clock sv"]
    by (auto simp: client_get_or_create_def Let_def split: option.splits prod.splits)
  have "fresh_names sv sv'"
    using g by (auto simp: fresh_names_def sv' client_get_or_create_def Let_def dict_simps split: option.splits prod.splits if_splits)
  then show q: "quiet sv sv'" using objs clk
    by (auto simp: sv' ledger_def grows_def svc_items_def cl_items_def nth_append)
  show "server_ok x cfg sv'"
    by (rule server_ok_quiet [OF assms(1) q]) (use ok wf clk size in \<open>simp_all add: sv'\<close>)
qed

lemma touch_ok:
  assumes "server_ok x cfg sv"
  shows "server_ok x cfg (touch cid sv)" "quiet sv (touch cid sv)"
proof -
  note ok = server_okD [OF assms]
  obtain reg clk where g: "bump_last_seen cid (sv_clients sv, sv_clock sv) = (reg, clk)"
    by (cases "bump_last_seen cid (sv_clients sv, sv_clock sv)")
  then have sv': "touch cid sv = sv\<lparr>sv_clients := reg, sv_clock := clk\<rparr>" by (simp add: touch_def)
  have wf: "cr_wf reg" using cr_wf_bump [of "(sv_clients sv, sv_clock sv)" cid] g ok by simp
  have size: "cr_queue_max_size reg = cr_queue_max_size (sv_clients sv)"
    and objs: "cr_entries reg = cr_entries (sv_clients sv)" "length (cr_objects reg) = length (cr_objects (sv_clients sv))"
      "\<And>j. ce_queue (cr_objects reg ! j) = ce_queue (cr_objects (sv_clients sv) ! j)"
      "\<And>j. ce_client_id (cr_objects reg ! j) = ce_client_id (cr_objects (sv_clients sv) ! j)"
    and clk: "clock_ok clk" "now (sv_clock sv) \<le> now clk"
    using g ok(3) monotonic_ok [of "sv_clock sv"]
    by (auto simp: bump_last_seen_def Let_def split: option.splits prod.splits
        intro!: nth_list_update_field [where f = ce_queue] nth_list_update_field [where f = ce_client_id])
  show q: "quiet sv (touch cid sv)" using objs clk
    by (auto simp: sv' ledger_def grows_def svc_items_def cl_items_def nth_list_update)
  show "server_ok x cfg (touch cid sv)"
    by (rule server_ok_quiet [OF assms(1) q]) (use ok wf clk size in \<open>simp_all add: sv'\<close>)
qed

lemma service_queue_for_ok:
  assumes "server_ok x cfg sv" "service_queue_for name sv = (q, sv')"
  shows "server_ok x cfg sv'" "quiet sv sv'" "q < length (sr_objects (sv_services sv'))"
    "map_of (sr_queues (sv_services sv')) name = Some q"
proof -
  note ok = server_okD [OF assms(1)]
  obtain reg where g: "service_get_or_create name (sv_services sv) = (q, reg)"
    and sv': "sv' = sv\<lparr>sv_services := reg\<rparr>"
    using assms(2) by (auto simp: service_queue_for_def split: prod.splits)
  have wf: "sr_wf reg" using sr_wf_get_or_create [OF ok(2), of name] g by simp
  have reg: "map_of (sr_queues reg) name = Some q" using sr.registered [OF ok(2) g] .
  from sr_ref_valid [OF wf reg] reg show "q < length (sr_objects (sv_services sv'))"
    "map_of (sr_queues (sv_services sv')) name = Some q" by (simp_all add: sv')
  have size: "sr_queue_max_size reg = sr_queue_max_size (sv_services sv)"
    and objs: "sr_objects reg = sr_objects (sv_services sv) \<or>
      sr_objects reg = sr_objects (sv_services sv) @ [new_queue (sr_queue_max_size (sv_services sv))]"
    using g by (auto simp: service_get_or_create_def Let_def split: option.splits)
  have "fresh_names sv sv'"
    using g by (auto simp: fresh_names_def sv' service_get_or_create_def Let_def dict_simps split: option.splits if_splits)
  then show q: "quiet sv sv'" using objs sr.keeps_bindings [OF ok(2) g]
    by (auto simp: sv' ledger_def grows_def svc_items_def cl_items_def nth_append)
  show "server_ok x cfg sv'"
    by (rule server_ok_quiet [OF assms(1) q]) (use ok wf size in \<open>simp_all add: sv'\<close>)
qed

lemma drop_client_ok:
  assumes "server_ok x cfg sv"
  shows "server_ok x cfg (drop_client cid sv)" "quiet sv (drop_client cid sv)"
proof -
  note ok = server_okD [OF assms]
  show q: "quiet sv (drop_client cid sv)"
    by (simp add: drop_client_def client_remove_def ledger_def grows_def fresh_names_def svc_items_def cl_items_def dict_simps)
  show "server_ok x cfg (drop_client cid sv)"
    by (rule server_ok_quiet [OF assms q])
      (use ok cr_wf_remove in \<open>simp_all add: drop_client_def client_remove_def\<close>)
qed

section \<open>The queue operations\<close>

lemma svc_items_assign:
  "q < length (sr_objects (sv_services sv)) \<Longrightarrow>
   svc_items (assign (service_queue q) queue sv) = (svc_items sv)(q := q_items queue)"
  by (auto simp: svc_items_def service_queue_def fun_eq_iff)

lemma cl_items_assign:
  "e < length (cr_objects (sv_clients sv)) \<Longrightarrow>
   cl_items (assign (client_queue e) queue sv) = (cl_items sv)(e := q_items queue)"
  by (auto simp: cl_items_def client_queue_def fun_eq_iff)

lemma cl_items_service_assign [simp]: "cl_items (assign (service_queue q) queue sv) = cl_items sv"
  by (simp add: cl_items_def service_queue_def fun_eq_iff)

lemma svc_items_client_assign [simp]: "svc_items (assign (client_queue e) queue sv) = svc_items sv"
  by (simp add: svc_items_def client_queue_def fun_eq_iff)

lemma svc_items_deref:
  "q < length (sr_objects (sv_services sv)) \<Longrightarrow> svc_items sv q = q_items (deref (service_queue q) sv)"
  by (simp add: svc_items_def service_queue_def)

lemma cl_items_deref:
  "e < length (cr_objects (sv_clients sv)) \<Longrightarrow> cl_items sv e = q_items (deref (client_queue e) sv)"
  by (simp add: cl_items_def client_queue_def)

lemma sr_wf_write:
  assumes "sr_wf reg" "queue_ok (sr_queue_max_size reg) queue"
  shows "sr_wf (reg\<lparr>sr_objects := (sr_objects reg)[q := queue]\<rparr>)"
  using assms by (auto simp: sr_wf_def object_simps list_all_length)

lemma service_assign_ok:
  assumes ok: "server_ok x cfg sv" and q: "q < length (sr_objects (sv_services sv))"
    and bound: "queue_ok (sr_queue_max_size (sv_services sv)) queue"
    and items: "\<And>r. r \<in> set (q_items queue) \<Longrightarrow> authentic x cfg (rq_client_id r) \<and> rq_request_id r \<noteq> []"
    and ev: "follows ev (q_items (deref (service_queue q) sv)) (q_items queue)"
  shows "server_ok x cfg (assign (service_queue q) queue sv)"
    "ledger sv (assign (service_queue q) queue sv) ((\<lambda>_. Same)(q := ev)) (\<lambda>_. Same)"
proof -
  show "server_ok x cfg (assign (service_queue q) queue sv)"
    using ok items sr_wf_write [OF server_okD(2) [OF ok] bound, of q] unfolding server_ok_def
    by (auto simp: svc_items_assign [OF q]) (simp_all add: service_queue_def)
  show "ledger sv (assign (service_queue q) queue sv) ((\<lambda>_. Same)(q := ev)) (\<lambda>_. Same)"
    using ev by (auto simp: ledger_def svc_items_assign [OF q] svc_items_deref [OF q])
      (simp add: grows_def service_queue_def)
qed

lemma client_assign_ok:
  assumes ok: "server_ok x cfg sv" and e: "e < length (cr_objects (sv_clients sv))"
    and bound: "queue_ok (cr_queue_max_size (sv_clients sv)) queue"
    and items: "\<And>r. r \<in> set (q_items queue) \<Longrightarrow> rs_request_id r \<noteq> []"
    and ev: "follows ev (q_items (deref (client_queue e) sv)) (q_items queue)"
  shows "server_ok x cfg (assign (client_queue e) queue sv)"
    "ledger sv (assign (client_queue e) queue sv) (\<lambda>_. Same) ((\<lambda>_. Same)(e := ev))"
proof -
  have "cr_wf ((sv_clients sv)\<lparr>cr_objects := (cr_objects (sv_clients sv))[e :=
      (cr_objects (sv_clients sv) ! e)\<lparr>ce_queue := queue\<rparr>]\<rparr>)"
    by (rule cr_wf_write [OF server_okD(1) [OF ok]]) (simp_all add: entry_ok_def bound)
  then show "server_ok x cfg (assign (client_queue e) queue sv)"
    using ok items unfolding server_ok_def
    by (auto simp: cl_items_assign [OF e]) (simp_all add: client_queue_def)
  show "ledger sv (assign (client_queue e) queue sv) (\<lambda>_. Same) ((\<lambda>_. Same)(e := ev))"
    using ev by (auto simp: ledger_def cl_items_assign [OF e] cl_items_deref [OF e])
      (auto simp: grows_def client_queue_def intro!: nth_list_update_field [where f = ce_client_id])
qed

lemma service_queue_ok:
  "server_ok x cfg sv \<Longrightarrow> q < length (sr_objects (sv_services sv)) \<Longrightarrow>
   queue_ok (sr_queue_max_size (sv_services sv)) (deref (service_queue q) sv)"
  using server_okD(2) [of x cfg sv] by (simp add: sr_wf_def list_all_length service_queue_def)

lemma client_queue_ok:
  "server_ok x cfg sv \<Longrightarrow> e < length (cr_objects (sv_clients sv)) \<Longrightarrow>
   queue_ok (cr_queue_max_size (sv_clients sv)) (deref (client_queue e) sv)"
  using cr_entry_ok [OF server_okD(1) [of x cfg sv]] by (simp add: entry_ok_def client_queue_def)

lemma service_put_ok:
  assumes ok: "server_ok x cfg sv" and q: "q < length (sr_objects (sv_services sv))"
    and put: "put_nowait r (deref (service_queue q) sv) = Inr queue"
    and r: "authentic x cfg (rq_client_id r)" "rq_request_id r \<noteq> []"
  shows "server_ok x cfg (assign (service_queue q) queue sv)"
    "ledger sv (assign (service_queue q) queue sv) ((\<lambda>_. Same)(q := Enq r)) (\<lambda>_. Same)"
proof -
  have items: "q_items queue = q_items (deref (service_queue q) sv) @ [r]" using aq.put_Inr [OF put] by simp
  have old: "s \<in> set (q_items (deref (service_queue q) sv)) \<Longrightarrow>
      authentic x cfg (rq_client_id s) \<and> rq_request_id s \<noteq> []" for s
    using ok unfolding server_ok_def svc_items_deref [OF q, symmetric] by blast
  note * = service_assign_ok [OF ok q queue_ok_put [OF put service_queue_ok [OF ok q]], of "Enq r"]
  show "server_ok x cfg (assign (service_queue q) queue sv)"
    "ledger sv (assign (service_queue q) queue sv) ((\<lambda>_. Same)(q := Enq r)) (\<lambda>_. Same)"
    by (rule *; use items old r in auto)+
qed

lemma service_get_ok:
  assumes ok: "server_ok x cfg sv" and q: "q < length (sr_objects (sv_services sv))"
    and got: "get_nowait (deref (service_queue q) sv) = Inr (r, queue)"
  shows "server_ok x cfg (assign (service_queue q) queue sv)"
    "ledger sv (assign (service_queue q) queue sv) ((\<lambda>_. Same)(q := Deq r)) (\<lambda>_. Same)"
proof -
  have items: "q_items (deref (service_queue q) sv) = r # q_items queue" using aq.get_Inr [OF got] by simp
  have old: "s \<in> set (q_items (deref (service_queue q) sv)) \<Longrightarrow>
      authentic x cfg (rq_client_id s) \<and> rq_request_id s \<noteq> []" for s
    using ok unfolding server_ok_def svc_items_deref [OF q, symmetric] by blast
  note * = service_assign_ok [OF ok q queue_ok_get [OF got service_queue_ok [OF ok q]], of "Deq r"]
  show "server_ok x cfg (assign (service_queue q) queue sv)"
    "ledger sv (assign (service_queue q) queue sv) ((\<lambda>_. Same)(q := Deq r)) (\<lambda>_. Same)"
    by (rule *; use items old in auto)+
qed

lemma client_put_ok:
  assumes ok: "server_ok x cfg sv" and e: "e < length (cr_objects (sv_clients sv))"
    and put: "put_nowait r (deref (client_queue e) sv) = Inr queue" and r: "rs_request_id r \<noteq> []"
  shows "server_ok x cfg (assign (client_queue e) queue sv)"
    "ledger sv (assign (client_queue e) queue sv) (\<lambda>_. Same) ((\<lambda>_. Same)(e := Enq r))"
proof -
  have items: "q_items queue = q_items (deref (client_queue e) sv) @ [r]" using aq.put_Inr [OF put] by simp
  have old: "s \<in> set (q_items (deref (client_queue e) sv)) \<Longrightarrow> rs_request_id s \<noteq> []" for s
    using ok unfolding server_ok_def cl_items_deref [OF e, symmetric] by blast
  note * = client_assign_ok [OF ok e queue_ok_put [OF put client_queue_ok [OF ok e]], of "Enq r"]
  show "server_ok x cfg (assign (client_queue e) queue sv)"
    "ledger sv (assign (client_queue e) queue sv) (\<lambda>_. Same) ((\<lambda>_. Same)(e := Enq r))"
    by (rule *; use items old r in auto)+
qed

lemma client_get_ok:
  assumes ok: "server_ok x cfg sv" and e: "e < length (cr_objects (sv_clients sv))"
    and got: "get_nowait (deref (client_queue e) sv) = Inr (r, queue)"
  shows "server_ok x cfg (assign (client_queue e) queue sv)"
    "ledger sv (assign (client_queue e) queue sv) (\<lambda>_. Same) ((\<lambda>_. Same)(e := Deq r))"
proof -
  have items: "q_items (deref (client_queue e) sv) = r # q_items queue" using aq.get_Inr [OF got] by simp
  have old: "s \<in> set (q_items (deref (client_queue e) sv)) \<Longrightarrow> rs_request_id s \<noteq> []" for s
    using ok unfolding server_ok_def cl_items_deref [OF e, symmetric] by blast
  note * = client_assign_ok [OF ok e queue_ok_get [OF got client_queue_ok [OF ok e]], of "Deq r"]
  show "server_ok x cfg (assign (client_queue e) queue sv)"
    "ledger sv (assign (client_queue e) queue sv) (\<lambda>_. Same) ((\<lambda>_. Same)(e := Deq r))"
    by (rule *; use items old in auto)+
qed

section \<open>Rules for the segments of a handler\<close>

abbreviation request_run :: "ext \<Rightarrow> settings \<Rightarrow> principal \<Rightarrow> server \<Rightarrow> server \<Rightarrow> handler \<Rightarrow> bool" where
  "request_run x cfg who \<equiv> run_ok (server_ok x cfg) grows (effect who) reply_ok"

abbreviation request_ok :: "ext \<Rightarrow> settings \<Rightarrow> principal \<Rightarrow> server \<Rightarrow> handler \<Rightarrow> bool" where
  "request_ok x cfg who \<equiv> seg_ok (server_ok x cfg) grows (effect who) reply_ok"

text \<open>
  The events so far, all at service queues, are permitted provided that every reply still
  possible satisfies \<open>P\<close>.
\<close>

definition pending :: "principal \<Rightarrow> (reply \<Rightarrow> bool) \<Rightarrow> server \<Rightarrow> server \<Rightarrow> bool" where
  "pending who P base sv \<longleftrightarrow> (\<exists>se. ledger base sv se (\<lambda>_. Same) \<and>
     (\<forall>c. always P c \<longrightarrow> (\<forall>q. svc_permitted who sv c q (se q))))"

lemma svc_permitted_grows: "svc_permitted who a c q ev \<Longrightarrow> grows a b \<Longrightarrow> svc_permitted who b c q ev"
  by (cases ev) (auto simp: grows_def)

lemma pending_none: "quiet a b \<Longrightarrow> pending who P a b"
  unfolding pending_def by (intro exI [of _ "\<lambda>_. Same"]) simp

lemma pending_quiet: "pending who P a b \<Longrightarrow> quiet b c \<Longrightarrow> pending who P a c"
  unfolding pending_def using ledger_quiet ledger_grows svc_permitted_grows by metis

lemma pending_effect: "pending who P a b \<Longrightarrow> always P c \<Longrightarrow> effect who a b c"
  unfolding pending_def effect_def by (fastforce intro: exI [of _ "\<lambda>_. Same"])

lemma run_reply_with:
  assumes "server_ok x cfg sv" "pending who P base sv" "P (Reply p)" "reply_ok (Reply p)"
  shows "request_run x cfg who base sv (reply_with p)"
  using assms pending_effect [OF assms(2), of "Return (Reply p)"] by (simp add: run_ok_def reply_with_def)

lemma run_raise:
  assumes "server_ok x cfg sv" "quiet base sv" "reply_ok (Raised e)"
  shows "request_run x cfg who base sv (raise e)"
  using assms effect_quiet by (simp add: run_ok_def raise_def)

lemma run_pause:
  assumes "server_ok x cfg sv" "quiet base sv" "request_ok x cfg who sv k"
  shows "request_run x cfg who base sv (\<lambda>sv. (sv, Pause k))"
  using assms effect_quiet by (simp add: run_ok_def)

lemma request_okI:
  assumes "\<And>s'. server_ok x cfg s' \<Longrightarrow> grows s s' \<Longrightarrow> request_run x cfg who s' s' k"
  shows "request_ok x cfg who s k"
  using assms by (simp add: seg_ok_run_ok)

lemma always_reply_with [simp]: "always P (snd (reply_with p sv)) \<longleftrightarrow> P (Reply p)"
  by (simp add: reply_with_def)

lemma always_queue_get:
  "(\<And>found s. always P (snd (k found s))) \<Longrightarrow> always P (snd (queue_get ref ms k sv))"
  by (auto simp: queue_get_def split: sum.splits)

lemma run_put_service:
  assumes ok: "server_ok x cfg sv" and b: "quiet base sv" and bound: "map_of (sr_queues (sv_services sv)) name = Some q"
    and who: "who = Client (rq_client_id r)" and r: "authentic x cfg (rq_client_id r)" "rq_request_id r \<noteq> []"
    and enqueued: "\<And>b' s'. server_ok x cfg s' \<Longrightarrow> grows sv s' \<Longrightarrow> pending who (\<lambda>p. \<not> rejected p) b' s' \<Longrightarrow>
      request_run x cfg who b' s' (k True)"
    and failed: "\<And>b' s'. server_ok x cfg s' \<Longrightarrow> grows sv s' \<Longrightarrow> quiet b' s' \<Longrightarrow>
      request_run x cfg who b' s' (k False)"
    and accepted: "\<And>s'. always (\<lambda>p. \<not> rejected p) (snd (k True s'))"
  shows "request_run x cfg who base sv (queue_put (service_queue q) r ms k)"
proof -
  have put: "server_ok x cfg t \<and> pending who (\<lambda>p. \<not> rejected p) b' t \<and> grows sv t"
    if s': "server_ok x cfg s'" "grows sv s'" "quiet b' s'"
      and p: "put_nowait r (deref (service_queue q) s') = Inr queue"
      and t: "t = assign (service_queue q) queue s'" for s' t b' queue
  proof -
    have bound': "map_of (sr_queues (sv_services s')) name = Some q" using bound s'(2) by (simp add: grows_def)
    note st = service_put_ok [OF s'(1) sr_ref_valid [OF server_okD(2) [OF s'(1)] bound'] p r, folded t]
    have "map_of (sr_queues (sv_services t)) name = Some q" using bound' ledger_grows [OF st(2)] by (simp add: grows_def)
    then have "pending who (\<lambda>p. \<not> rejected p) b' t"
      unfolding pending_def using quiet_ledger [OF s'(3) st(2)]
      by (intro exI [of _ "(\<lambda>_. Same)(q := Enq r)"]) (auto simp: who)
    then show ?thesis using st(1) grows_trans [OF s'(2) ledger_grows [OF st(2)]] by blast
  qed
  show ?thesis
  proof (cases "ms = 0")
    case True
    show ?thesis
    proof (cases "put_nowait r (deref (service_queue q) sv)")
      case (Inl e)
      then show ?thesis using True failed [OF ok grows_refl b] by (simp add: queue_put_def run_ok_def)
    next
      case (Inr queue)
      have "request_run x cfg who base (assign (service_queue q) queue sv) (k True)"
        by (rule enqueued) (use put [OF ok grows_refl b Inr refl] in auto)
      then show ?thesis using True Inr by (simp add: queue_put_def run_ok_def)
    qed
  next
    case False
    let ?attempt = "\<lambda>s. case put_nowait r (deref (service_queue q) s) of
          Inr q' \<Rightarrow> Some (assign (service_queue q) q' s, k True) | Inl _ \<Rightarrow> None"
    have "attempt_sat (server_ok x cfg) grows (effect who) (co_ok (server_ok x cfg) grows (effect who) reply_ok) sv ?attempt"
      unfolding attempt_sat_def
    proof (intro allI impI)
      fix s' t k' assume s': "server_ok x cfg s'" "grows sv s'" and "?attempt s' = Some (t, k')"
      then obtain queue where p: "put_nowait r (deref (service_queue q) s') = Inr queue"
        and t: "t = assign (service_queue q) queue s'" and k': "k' = k True" by (auto split: sum.splits)
      note st = put [OF s' quiet_refl p t]
      have "effect who s' t (Pause k')"
        using st accepted by (intro pending_effect [of who "\<lambda>p. \<not> rejected p"]) (simp_all add: k')
      moreover have "request_ok x cfg who t k'"
        using st grows_trans by (auto intro!: request_okI enqueued simp: k' intro: pending_none quiet_refl)
      ultimately show "server_ok x cfg t \<and> effect who s' t (Pause k') \<and> request_ok x cfg who t k'"
        using st by simp
    qed
    moreover have "request_ok x cfg who sv (k False)" by (auto intro!: request_okI failed quiet_refl)
    ultimately show ?thesis using False ok effect_quiet [OF b] by (simp add: queue_put_def run_ok_def)
  qed
qed

text \<open>
  The other three uses of a queue end the request: the continuation is a reply, after
  operations \<open>f\<close> that touch no queue.
\<close>

lemma cl_permitted_grows: "cl_permitted who a c e ev \<Longrightarrow> grows a b \<Longrightarrow> cl_permitted who b c e ev"
  by (cases ev) (auto simp: grows_def)

lemma effect_then_quiet: "effect who a b c \<Longrightarrow> quiet b d \<Longrightarrow> effect who a d c"
  unfolding effect_def using ledger_quiet ledger_grows svc_permitted_grows cl_permitted_grows by metis

lemma run_reply:
  assumes "server_ok x cfg sv" "reply_ok (Reply p)"
    and "\<And>s. server_ok x cfg s \<Longrightarrow> server_ok x cfg (f s)" "\<And>s. server_ok x cfg s \<Longrightarrow> quiet s (f s)"
    and "\<And>c. always (\<lambda>r. r = Reply p) c \<Longrightarrow> effect who base sv c"
  shows "request_run x cfg who base sv (\<lambda>s. reply_with p (f s))"
  using assms effect_then_quiet [OF assms(5) assms(4)] by (simp add: run_ok_def reply_with_def)

lemma request_reply:
  assumes "server_ok x cfg sv" "reply_ok (Reply p)"
    and "\<And>s. server_ok x cfg s \<Longrightarrow> server_ok x cfg (f s)" "\<And>s. server_ok x cfg s \<Longrightarrow> quiet s (f s)"
  shows "request_ok x cfg who sv (\<lambda>s. reply_with p (f s))"
  by (rule request_okI) (rule run_reply; use assms effect_quiet quiet_refl in blast)

lemma run_get_client:
  assumes ok: "server_ok x cfg sv" and b: "pending who (\<lambda>p. \<not> rejected p) base sv"
    and e: "e < length (cr_objects (sv_clients sv))"
    and who: "who = Client (ce_client_id (cr_objects (sv_clients sv) ! e))"
    and f: "\<And>s. server_ok x cfg s \<Longrightarrow> server_ok x cfg (f s)" "\<And>s. server_ok x cfg s \<Longrightarrow> quiet s (f s)"
    and k: "\<And>r. k (Some r) = (\<lambda>s. reply_with (response_message r) (f s))" "k None = (\<lambda>s. reply_with p (f s))"
    and p: "reply_ok (Reply p)" "\<not> rejected (Reply p)"
  shows "request_run x cfg who base sv (queue_get (client_queue e) ms k)"
proof -
  have r: "reply_ok (Reply (response_message r))" "\<not> rejected (Reply (response_message r))" for r
    by (simp_all add: reply_ok_def rejected_def response_message_def empty_response_def)
  have got: "server_ok x cfg t \<and> (\<forall>c. always (\<lambda>p. p = Reply (response_message r)) c \<longrightarrow> effect who b' t c)"
    if s': "server_ok x cfg s'" "grows sv s'" "pending who (\<lambda>p. \<not> rejected p) b' s'"
      and g: "get_nowait (deref (client_queue e) s') = Inr (r, queue)"
      and t: "t = assign (client_queue e) queue s'" for s' t b' r queue
  proof -
    have e': "e < length (cr_objects (sv_clients s'))"
      "ce_client_id (cr_objects (sv_clients s') ! e) = ce_client_id (cr_objects (sv_clients sv) ! e)"
      using e s'(2) by (auto simp: grows_def)
    note st = client_get_ok [OF s'(1) e'(1) g, folded t]
    obtain se where se: "ledger b' s' se (\<lambda>_. Same)"
      and perm: "\<And>c q. always (\<lambda>p. \<not> rejected p) c \<Longrightarrow> svc_permitted who s' c q (se q)"
      using s'(3) by (auto simp: pending_def)
    have "effect who b' t c" if c: "always (\<lambda>p. p = Reply (response_message r)) c" for c
    proof -
      have "always (\<lambda>p. \<not> rejected p) c"
        by (rule always_mono [OF c]) (use r(2) in simp)
      then have "\<forall>q. svc_permitted who t c q (se q)"
        using perm svc_permitted_grows ledger_grows [OF st(2)] by blast
      moreover have "cl_permitted who t c e' (((\<lambda>_. Same)(e := Deq r)) e')" for e'
        using c e' st(2) who by (auto simp: ledger_def grows_def)
      ultimately show ?thesis unfolding effect_def using ledger_both [OF se st(2)] by blast
    qed
    then show ?thesis using st(1) by blast
  qed
  have eff: "always (\<lambda>r. r = Reply p) c \<Longrightarrow> effect who base sv c" for c
    by (rule pending_effect [OF b], erule always_mono) (use p(2) in simp)
  have none: "request_run x cfg who base sv (k None)"
    unfolding k by (rule run_reply [OF ok p(1) f eff])
  show ?thesis
  proof (cases "ms = 0")
    case True
    show ?thesis
    proof (cases "get_nowait (deref (client_queue e) sv)")
      case (Inl e)
      then show ?thesis using True none by (simp add: queue_get_def run_ok_def)
    next
      case (Inr rq)
      obtain r queue where rq: "rq = (r, queue)" by (cases rq)
      note st = got [OF ok grows_refl b Inr [unfolded rq] refl]
      have "request_run x cfg who base (assign (client_queue e) queue sv) (k (Some r))"
        unfolding k by (rule run_reply [OF _ r(1) f]) (use st in auto)
      with True Inr rq show ?thesis by (simp add: queue_get_def run_ok_def)
    qed
  next
    case False
    let ?attempt = "\<lambda>s. case get_nowait (deref (client_queue e) s) of
          Inr (item, q') \<Rightarrow> Some (assign (client_queue e) q' s, k (Some item)) | Inl _ \<Rightarrow> None"
    have "attempt_sat (server_ok x cfg) grows (effect who) (co_ok (server_ok x cfg) grows (effect who) reply_ok) sv ?attempt"
      unfolding attempt_sat_def
    proof (intro allI impI)
      fix s' t k' assume s': "server_ok x cfg s'" "grows sv s'" and "?attempt s' = Some (t, k')"
      then obtain r queue where g: "get_nowait (deref (client_queue e) s') = Inr (r, queue)"
        and t: "t = assign (client_queue e) queue s'" and k': "k' = k (Some r)" by (auto split: sum.splits)
      note st = got [OF s' pending_none [OF quiet_refl] g t]
      then show "server_ok x cfg t \<and> effect who s' t (Pause k') \<and> request_ok x cfg who t k'"
        using request_reply [OF _ r(1) f] by (simp add: k' k)
    qed
    moreover have "request_ok x cfg who sv (k None)" unfolding k by (rule request_reply [OF ok p(1) f])
    moreover have "effect who base sv (Await ?attempt (py_div (of_int ms) 1000) (k None))"
      using pending_effect [OF b] r(2) p(2) by (simp add: k split: sum.splits prod.splits)
    ultimately show ?thesis using False ok by (simp add: queue_get_def run_ok_def)
  qed
qed

lemma reply_with_id: "reply_with p = (\<lambda>s. reply_with p (id s))"
  by (simp add: fun_eq_iff)

lemma run_reply_plain:
  assumes "server_ok x cfg sv" "reply_ok (Reply p)" "\<And>c. always (\<lambda>r. r = Reply p) c \<Longrightarrow> effect who base sv c"
  shows "request_run x cfg who base sv (reply_with p)"
  by (subst reply_with_id) (rule run_reply; use assms quiet_refl in simp)

lemma request_reply_plain:
  assumes "reply_ok (Reply p)"
  shows "request_ok x cfg who sv (reply_with p)"
  by (rule request_okI, rule run_reply_plain) (simp_all add: assms effect_quiet quiet_refl)

lemma run_get_service:
  assumes ok: "server_ok x cfg sv" and b: "quiet base sv" and q: "q < length (sr_objects (sv_services sv))"
    and who: "who = Service name" "map_of (sr_queues (sv_services sv)) name = Some q"
    and k: "\<And>r. k (Some r) = reply_with (request_message r)" "k None = reply_with p" "reply_ok (Reply p)"
  shows "request_run x cfg who base sv (queue_get (service_queue q) ms k)"
proof -
  have r: "reply_ok (Reply (request_message r))" for r
    by (simp add: reply_ok_def request_message_def)
  have got: "server_ok x cfg t \<and> (\<forall>c. always (\<lambda>p. p = Reply (request_message r)) c \<longrightarrow> effect who b' t c)"
    if s': "server_ok x cfg s'" "grows sv s'" "quiet b' s'"
      and g: "get_nowait (deref (service_queue q) s') = Inr (r, queue)"
      and t: "t = assign (service_queue q) queue s'" for s' t b' r queue
  proof -
    have q': "q < length (sr_objects (sv_services s'))" using q s'(2) by (simp add: grows_def)
    note st = service_get_ok [OF s'(1) q' g, folded t]
    have "map_of (sr_queues (sv_services t)) name = Some q"
      using who(2) s'(2) ledger_grows [OF st(2)] by (auto simp: grows_def)
    then have "effect who b' t c" if "always (\<lambda>p. p = Reply (request_message r)) c" for c
      unfolding effect_def using quiet_ledger [OF s'(3) st(2)] that who(1)
      by (intro exI [of _ "(\<lambda>_. Same)(q := Deq r)"] exI [of _ "\<lambda>_. Same"]) simp
    with st(1) show ?thesis by blast
  qed
  have none: "request_run x cfg who base sv (k None)"
    unfolding k by (rule run_reply_plain [OF ok k(3) effect_quiet [OF b]])
  show ?thesis
  proof (cases "ms = 0")
    case True
    show ?thesis
    proof (cases "get_nowait (deref (service_queue q) sv)")
      case (Inl e)
      then show ?thesis using True none by (simp add: queue_get_def run_ok_def)
    next
      case (Inr rq)
      obtain r queue where rq: "rq = (r, queue)" by (cases rq)
      note st = got [OF ok grows_refl b Inr [unfolded rq] refl]
      have "request_run x cfg who base (assign (service_queue q) queue sv) (k (Some r))"
        unfolding k by (rule run_reply_plain [OF _ r]) (use st in auto)
      with True Inr rq show ?thesis by (simp add: queue_get_def run_ok_def)
    qed
  next
    case False
    let ?attempt = "\<lambda>s. case get_nowait (deref (service_queue q) s) of
          Inr (item, q') \<Rightarrow> Some (assign (service_queue q) q' s, k (Some item)) | Inl _ \<Rightarrow> None"
    have "attempt_sat (server_ok x cfg) grows (effect who) (co_ok (server_ok x cfg) grows (effect who) reply_ok) sv ?attempt"
      unfolding attempt_sat_def
    proof (intro allI impI)
      fix s' t k' assume s': "server_ok x cfg s'" "grows sv s'" and "?attempt s' = Some (t, k')"
      then obtain r queue where g: "get_nowait (deref (service_queue q) s') = Inr (r, queue)"
        and t: "t = assign (service_queue q) queue s'" and k': "k' = k (Some r)" by (auto split: sum.splits)
      note st = got [OF s' quiet_refl g t]
      then show "server_ok x cfg t \<and> effect who s' t (Pause k') \<and> request_ok x cfg who t k'"
        using request_reply_plain [OF r] by (simp add: k' k)
    qed
    moreover have "request_ok x cfg who sv (k None)" unfolding k by (rule request_reply_plain [OF k(3)])
    ultimately show ?thesis using False ok effect_quiet [OF b] by (simp add: queue_get_def run_ok_def)
  qed
qed

lemma run_put_client:
  assumes ok: "server_ok x cfg sv" and b: "quiet base sv" and e: "e < length (cr_objects (sv_clients sv))"
    and who: "who = Service name" and r: "rs_request_id r \<noteq> []"
    and k: "k True = reply_with p" "reply_ok (Reply p)" "\<not> rejected (Reply p)"
      "k False = reply_with p'" "reply_ok (Reply p')"
  shows "request_run x cfg who base sv (queue_put (client_queue e) r ms k)"
proof -
  have put: "server_ok x cfg t \<and> (\<forall>c. always (\<lambda>r. r = Reply p) c \<longrightarrow> effect who b' t c)"
    if s': "server_ok x cfg s'" "grows sv s'" "quiet b' s'"
      and g: "put_nowait r (deref (client_queue e) s') = Inr queue"
      and t: "t = assign (client_queue e) queue s'" for s' t b' queue
  proof -
    have e': "e < length (cr_objects (sv_clients s'))" using e s'(2) by (simp add: grows_def)
    note st = client_put_ok [OF s'(1) e' g r, folded t]
    have "effect who b' t c" if c: "always (\<lambda>r. r = Reply p) c" for c
    proof -
      have "always (\<lambda>p. \<not> rejected p) c" by (rule always_mono [OF c]) (use k(3) in simp)
      then show ?thesis unfolding effect_def using quiet_ledger [OF s'(3) st(2)] who
        by (intro exI [of _ "\<lambda>_. Same"] exI [of _ "(\<lambda>_. Same)(e := Enq r)"]) simp
    qed
    with st(1) show ?thesis by blast
  qed
  have none: "request_run x cfg who base sv (k False)"
    unfolding k by (rule run_reply_plain [OF ok k(5) effect_quiet [OF b]])
  show ?thesis
  proof (cases "ms = 0")
    case True
    show ?thesis
    proof (cases "put_nowait r (deref (client_queue e) sv)")
      case (Inl e)
      then show ?thesis using True none by (simp add: queue_put_def run_ok_def)
    next
      case (Inr queue)
      note st = put [OF ok grows_refl b Inr refl]
      have "request_run x cfg who base (assign (client_queue e) queue sv) (k True)"
        unfolding k by (rule run_reply_plain [OF _ k(2)]) (use st in auto)
      with True Inr show ?thesis by (simp add: queue_put_def run_ok_def)
    qed
  next
    case False
    let ?attempt = "\<lambda>s. case put_nowait r (deref (client_queue e) s) of
          Inr q' \<Rightarrow> Some (assign (client_queue e) q' s, k True) | Inl _ \<Rightarrow> None"
    have "attempt_sat (server_ok x cfg) grows (effect who) (co_ok (server_ok x cfg) grows (effect who) reply_ok) sv ?attempt"
      unfolding attempt_sat_def
    proof (intro allI impI)
      fix s' t k' assume s': "server_ok x cfg s'" "grows sv s'" and "?attempt s' = Some (t, k')"
      then obtain queue where g: "put_nowait r (deref (client_queue e) s') = Inr queue"
        and t: "t = assign (client_queue e) queue s'" and k': "k' = k True" by (auto split: sum.splits)
      note st = put [OF s' quiet_refl g t]
      then show "server_ok x cfg t \<and> effect who s' t (Pause k') \<and> request_ok x cfg who t k'"
        using request_reply_plain [OF k(2)] by (simp add: k' k(1))
    qed
    moreover have "request_ok x cfg who sv (k False)" unfolding k by (rule request_reply_plain [OF k(5)])
    ultimately show ?thesis using False ok effect_quiet [OF b] by (simp add: queue_put_def run_ok_def)
  qed
qed

section \<open>The handlers keep the contract\<close>

lemma reply_ok_simps [simp]:
  "reply_ok (Reply (empty_response c)) \<longleftrightarrow> c \<in> {200, 202, 204, 400, 401, 403, 422, 503}"
  "reply_ok (Reply (json_response 200 hs v))" "reply_ok Unprocessable"
  "reply_ok (Raised e) \<longleftrightarrow> status_code e \<noteq> 500"
  "rejected (Reply (empty_response c)) \<longleftrightarrow> c = 503"
  "\<not> rejected (Reply (response_message r))"
  using status_code_cases [of e]
  by (auto simp: reply_ok_def rejected_def empty_response_def response_message_def)

lemma normalize_timeout_status: "normalize_timeout t n = Inl e \<Longrightarrow> status_code e \<noteq> 500"
  by (auto simp: normalize_timeout_def split: option.splits if_splits)

lemma run_cong: "request_run x cfg who base s k \<Longrightarrow> k' s' = k s \<Longrightarrow> request_run x cfg who base s' k'"
  by (simp add: run_ok_def)

text \<open>What \<open>post_request_to_service\<close> does once it knows whether the request is enqueued.\<close>

definition post_answer :: "string \<Rightarrow> nat \<Rightarrow> bool \<Rightarrow> rat \<Rightarrow> bool \<Rightarrow> handler" where
  "post_answer cid entry block deadline enqueued = (\<lambda>sv.
     let sv = touch cid sv in
     if \<not> enqueued then reply_with (empty_response 503) sv
     else if \<not> block then reply_with (empty_response 202) sv
     else
       let (remaining, sv) = remaining_ms deadline sv
       in queue_get (client_queue entry) remaining (\<lambda>response.
         case response of
           None \<Rightarrow> reply_with (empty_response 202)
         | Some item \<Rightarrow> reply_with (response_message item)) sv)"

lemma post_request_eq:
  assumes "normalize_timeout timeout (max_timeout_ms cfg) = Inr budget"
  shows "post_request_to_service cfg name claims rid timeout block ct payload sv =
    (touch (cc_client_id claims) (snd (client_entry_for (cc_client_id claims) sv)), Pause (\<lambda>s.
       queue_put (service_queue (fst (service_queue_for name (snd (read_clock s)))))
         \<lparr>rq_client_id = cc_client_id claims, rq_request_id = rid,
          rq_content_type = content_type_or ct (default_content_type cfg), rq_payload = payload\<rparr>
         (fst (remaining_ms (deadline_at (fst (read_clock s)) budget) (snd (service_queue_for name (snd (read_clock s))))))
         (post_answer (cc_client_id claims) (fst (client_entry_for (cc_client_id claims) sv)) block
           (deadline_at (fst (read_clock s)) budget))
         (snd (remaining_ms (deadline_at (fst (read_clock s)) budget) (snd (service_queue_for name (snd (read_clock s))))))))"
  by (simp add: post_request_to_service_def assms post_answer_def [abs_def] Let_def case_prod_unfold)

lemma post_answer_failed:
  assumes "server_ok x cfg sv" "quiet base sv"
  shows "request_run x cfg who base sv (post_answer cid entry block d False)"
proof -
  note t = touch_ok [OF assms(1), of cid]
  have "request_run x cfg who base (touch cid sv) (reply_with (empty_response 503))"
    by (rule run_reply_plain [OF t(1)]) (simp_all add: effect_quiet quiet_ledger [OF assms(2) t(2)])
  then show ?thesis by (rule run_cong) (simp add: post_answer_def)
qed

lemma post_answer_accepted: "always (\<lambda>p. \<not> rejected p) (snd (post_answer cid entry block d True sv))"
  by (auto simp: post_answer_def Let_def case_prod_unfold intro!: always_queue_get split: option.splits)

lemma post_answer_ok:
  assumes ok: "server_ok x cfg sv" and p: "pending (Client cid) (\<lambda>p. \<not> rejected p) base sv"
    and e: "entry < length (cr_objects (sv_clients sv))" "ce_client_id (cr_objects (sv_clients sv) ! entry) = cid"
  shows "request_run x cfg (Client cid) base sv (post_answer cid entry block d True)"
proof -
  note t = touch_ok [OF ok, of cid]
  note p = pending_quiet [OF p t(2)]
  show ?thesis
  proof (cases block)
    case False
    have "request_run x cfg (Client cid) base (touch cid sv) (reply_with (empty_response 202))"
      by (rule run_reply_with [OF t(1) p]) simp_all
    with False show ?thesis by (elim run_cong) (simp add: post_answer_def)
  next
    case True
    obtain ms v where 1: "remaining_ms d (touch cid sv) = (ms, v)" by (cases "remaining_ms d (touch cid sv)")
    note v = remaining_ms_ok [OF t(1) 1]
    have "grows sv v" using grows_trans ledger_grows [OF t(2)] ledger_grows [OF v(2)] by blast
    with e have "entry < length (cr_objects (sv_clients v))" "ce_client_id (cr_objects (sv_clients v) ! entry) = cid"
      by (auto simp: grows_def)
    then have "request_run x cfg (Client cid) base v (queue_get (client_queue entry) ms (\<lambda>response.
         case response of
           None \<Rightarrow> reply_with (empty_response 202)
         | Some item \<Rightarrow> reply_with (response_message item)))"
      by (intro run_get_client [OF v(1) pending_quiet [OF p v(2)], where f = id and p = "empty_response 202"])
        (simp_all add: quiet_refl)
    with True 1 show ?thesis by (elim run_cong) (simp add: post_answer_def)
  qed
qed

lemma post_request_ok:
  assumes a: "authentic x cfg (cc_client_id claims)" and r: "request_id \<noteq> []"
  shows "request_ok x cfg (Client (cc_client_id claims)) s0
    (post_request_to_service cfg service_name claims request_id timeout block content_type payload)"
    (is "request_ok x cfg (Client ?cid) s0 ?h")
proof (rule request_okI)
  fix sv assume ok: "server_ok x cfg sv"
  obtain entry sv1 where 1: "client_entry_for ?cid sv = (entry, sv1)" by (cases "client_entry_for ?cid sv")
  let ?sv2 = "touch ?cid sv1"
  note ok1 = client_entry_for_ok [OF ok 1] and ok2 = touch_ok [OF client_entry_for_ok(1) [OF ok 1], of ?cid]
  note q2 = quiet_ledger [OF ok1(2) ok2(2)]
  show "request_run x cfg (Client ?cid) sv sv ?h"
  proof (cases "normalize_timeout timeout (max_timeout_ms cfg)")
    case (Inl e)
    have "request_run x cfg (Client ?cid) sv ?sv2 (raise e)"
      using Inl by (intro run_raise ok2(1) q2) (simp add: normalize_timeout_status)
    then show ?thesis by (rule run_cong) (simp add: post_request_to_service_def 1 Inl)
  next
    case (Inr total)
    obtain k where k: "?h sv = (?sv2, Pause k)" by (simp add: post_request_to_service_def 1 Inr)
    have "request_ok x cfg (Client ?cid) ?sv2 k"
    proof (rule request_okI)
      fix s assume s: "server_ok x cfg s" "grows ?sv2 s"
      obtain t s1 where 2: "read_clock s = (t, s1)" by (cases "read_clock s")
      obtain queue s2 where 3: "service_queue_for service_name s1 = (queue, s2)"
        by (cases "service_queue_for service_name s1")
      obtain ms s3 where 4: "remaining_ms (deadline_at t total) s2 = (ms, s3)"
        by (cases "remaining_ms (deadline_at t total) s2")
      note s1 = read_clock_ok [OF s(1) 2]
      note s2 = service_queue_for_ok [OF s1(1) 3]
      note s3 = remaining_ms_ok [OF s2(1) 4]
      have q: "quiet s s3" using quiet_ledger [OF s1(2) quiet_ledger [OF s2(2) s3(2)]] .
      have queue: "map_of (sr_queues (sv_services s3)) service_name = Some queue"
        using s2(4) ledger_grows [OF s3(2)] by (simp add: grows_def)
      have entry: "entry < length (cr_objects (sv_clients u))" "ce_client_id (cr_objects (sv_clients u) ! entry) = ?cid"
        if "grows s3 u" for u
        using ok1(3,4) grows_trans [OF ledger_grows [OF ok2(2)] grows_trans [OF s(2) grows_trans [OF ledger_grows [OF q] that]]]
        by (auto simp: grows_def)
      have "request_run x cfg (Client ?cid) s s3 (queue_put (service_queue queue)
          \<lparr>rq_client_id = ?cid, rq_request_id = request_id,
           rq_content_type = content_type_or content_type (default_content_type cfg), rq_payload = payload\<rparr>
          ms (post_answer ?cid entry block (deadline_at t total)))"
        by (rule run_put_service [OF s3(1) q queue])
          (simp_all add: a r entry post_answer_failed post_answer_accepted post_answer_ok)
      then show "request_run x cfg (Client ?cid) s s k"
        by (rule run_cong) (use k in \<open>auto simp: post_request_to_service_def 1 Inr 2 3 4 post_answer_def [abs_def] Let_def\<close>)
    qed
    then have "request_run x cfg (Client ?cid) sv ?sv2 (\<lambda>sv. (sv, Pause k))" by (rule run_pause [OF ok2(1) q2])
    then show ?thesis by (rule run_cong) (simp add: k)
  qed
qed


lemma get_request_ok:
  "request_ok x cfg (Service (sc_name claims)) s0 (get_request_for_service cfg service_name claims timeout)"
  (is "request_ok x cfg ?who s0 ?h")
proof (rule request_okI)
  fix sv assume ok: "server_ok x cfg sv"
  show "request_run x cfg ?who sv sv ?h"
  proof (cases "sc_name claims = service_name")
    case False
    have "request_run x cfg ?who sv sv (raise (RoleMismatchError d))" for d
      by (rule run_raise [OF ok quiet_refl]) simp
    from this show ?thesis by (rule run_cong) (use False in \<open>simp add: get_request_for_service_def\<close>)
  next
    case True
    show ?thesis
    proof (cases "normalize_timeout timeout (max_timeout_ms cfg)")
      case (Inl e)
      have "request_run x cfg ?who sv sv (raise e)"
        by (rule run_raise [OF ok quiet_refl]) (use Inl in \<open>simp add: normalize_timeout_status\<close>)
      with True Inl show ?thesis by (elim run_cong) (simp add: get_request_for_service_def)
    next
      case (Inr ms)
      obtain queue s1 where 1: "service_queue_for service_name sv = (queue, s1)"
        by (cases "service_queue_for service_name sv")
      note s1 = service_queue_for_ok [OF ok 1]
      have "request_run x cfg ?who sv s1 (queue_get (service_queue queue) ms (\<lambda>item.
           case item of
             None \<Rightarrow> reply_with (empty_response 204)
           | Some item \<Rightarrow> reply_with (request_message item)))"
        by (rule run_get_service [OF s1(1-3), where name = service_name and p = "empty_response 204"])
          (simp_all add: s1(4) True)
      then show ?thesis by (rule run_cong) (simp add: get_request_for_service_def True Inr 1)
    qed
  qed
qed

lemma post_response_ok:
  assumes r: "request_id \<noteq> []"
  shows "request_ok x cfg (Service (sc_name claims)) s0
    (post_response_to_client cfg client_id claims request_id timeout content_type payload)"
  (is "request_ok x cfg ?who s0 ?h")
proof (rule request_okI)
  fix sv assume ok: "server_ok x cfg sv"
  obtain entry sv1 where 1: "client_entry_for client_id sv = (entry, sv1)" by (cases "client_entry_for client_id sv")
  note ok1 = client_entry_for_ok [OF ok 1]
  show "request_run x cfg ?who sv sv ?h"
  proof (cases "normalize_timeout timeout (max_timeout_ms cfg)")
    case (Inl e)
    have "request_run x cfg ?who sv sv1 (raise e)"
      using Inl by (intro run_raise ok1) (simp add: normalize_timeout_status)
    then show ?thesis by (rule run_cong) (simp add: post_response_to_client_def 1 Inl)
  next
    case (Inr ms)
    let ?k = "queue_put (client_queue entry) \<lparr>rs_request_id = request_id,
        rs_content_type = content_type_or content_type (default_content_type cfg), rs_payload = payload\<rparr> ms
        (\<lambda>enqueued. if \<not> enqueued then reply_with (empty_response 503) else reply_with (empty_response 202))"
    have "request_ok x cfg ?who sv1 ?k"
    proof (rule request_okI)
      fix s assume s: "server_ok x cfg s" "grows sv1 s"
      have "entry < length (cr_objects (sv_clients s))" using ok1(3) s(2) by (simp add: grows_def)
      then show "request_run x cfg ?who s s ?k"
        by (rule run_put_client [OF s(1) quiet_refl, where p = "empty_response 202" and p' = "empty_response 503"])
          (simp_all add: r)
    qed
    then have "request_run x cfg ?who sv sv1 (\<lambda>sv. (sv, Pause ?k))" by (rule run_pause [OF ok1(1,2)])
    then show ?thesis by (rule run_cong) (simp add: post_response_to_client_def 1 Inr)
  qed
qed

lemma get_response_ok:
  "request_ok x cfg (Client (cc_client_id claims)) s0 (get_response_for_client cfg client_id claims timeout)"
  (is "request_ok x cfg ?who s0 ?h")
proof (rule request_okI)
  fix sv assume ok: "server_ok x cfg sv"
  show "request_run x cfg ?who sv sv ?h"
  proof (cases "cc_client_id claims = client_id")
    case False
    have "request_run x cfg ?who sv sv (raise (ForbiddenError d))" for d
      by (rule run_raise [OF ok quiet_refl]) simp
    from this show ?thesis by (rule run_cong) (use False in \<open>simp add: get_response_for_client_def\<close>)
  next
    case True
    obtain entry sv1 where 1: "client_entry_for client_id sv = (entry, sv1)" by (cases "client_entry_for client_id sv")
    let ?sv2 = "touch client_id sv1"
    note ok1 = client_entry_for_ok [OF ok 1] and ok2 = touch_ok [OF client_entry_for_ok(1) [OF ok 1], of client_id]
    note q2 = quiet_ledger [OF ok1(2) ok2(2)]
    have e: "entry < length (cr_objects (sv_clients ?sv2))"
      "ce_client_id (cr_objects (sv_clients ?sv2) ! entry) = cc_client_id claims"
      using ok1(3,4) ledger_grows [OF ok2(2)] True by (auto simp: grows_def)
    show ?thesis
    proof (cases "normalize_timeout timeout (max_timeout_ms cfg)")
      case (Inl e)
      have "request_run x cfg ?who sv ?sv2 (raise e)"
        using Inl by (intro run_raise ok2 q2) (simp add: normalize_timeout_status)
      then show ?thesis by (rule run_cong) (simp add: get_response_for_client_def True 1 Inl)
    next
      case (Inr ms)
      have "request_run x cfg ?who sv ?sv2 (queue_get (client_queue entry) ms (\<lambda>item sv.
             let sv = touch client_id sv
             in case item of
               None \<Rightarrow> reply_with (empty_response 204) sv
             | Some item \<Rightarrow> reply_with (response_message item) sv))"
        by (rule run_get_client [OF ok2(1) pending_none [OF q2] e(1),
              where f = "touch client_id" and p = "empty_response 204"])
          (simp_all add: e(2) touch_ok)
      then show ?thesis by (rule run_cong) (simp add: get_response_for_client_def True 1 Inr)
    qed
  qed
qed

lemma auth_ok:
  "request_ok x cfg who s0 (service_auth y cfg' random name)"
  "request_ok x cfg who s0 (client_auth y cfg' random name)"
  "request_ok x cfg who s0 (client_logoff claims)"
  "request_ok x cfg who s0 services_load"
proof -
  note [intro!] = request_okI
  show "request_ok x cfg who s0 (service_auth y cfg' random name)"
  proof
    fix sv assume ok: "server_ok x cfg sv"
    obtain q s1 where 1: "service_queue_for name sv = (q, s1)" by (cases "service_queue_for name sv")
    note s1 = service_queue_for_ok [OF ok 1]
    have "request_run x cfg who sv s1 (reply_with (json_response 200 hs v))" for hs v
      by (rule run_reply_plain [OF s1(1)]) (simp_all add: effect_quiet s1(2))
    then show "request_run x cfg who sv sv (service_auth y cfg' random name)"
      by (rule run_cong) (simp add: service_auth_def 1 Let_def)
  qed
  show "request_ok x cfg who s0 (client_auth y cfg' random name)"
    by (simp add: client_auth_def Let_def request_reply_plain)
  show "request_ok x cfg who s0 (client_logoff claims)"
  proof
    fix sv assume ok: "server_ok x cfg sv"
    note d = drop_client_ok [OF ok, of "cc_client_id claims"]
    have "request_run x cfg who sv (drop_client (cc_client_id claims) sv) (reply_with (json_response 200 hs v))" for hs v
      by (rule run_reply_plain [OF d(1)]) (simp_all add: effect_quiet d(2))
    then show "request_run x cfg who sv sv (client_logoff claims)"
      by (rule run_cong) (simp add: client_logoff_def Let_def)
  qed
  show "request_ok x cfg who s0 services_load"
  proof
    fix sv assume ok: "server_ok x cfg sv"
    have "request_run x cfg who sv sv (reply_with (json_response 200 hs v))" for hs v
      by (rule run_reply_plain [OF ok]) (simp_all add: effect_quiet quiet_refl)
    then show "request_run x cfg who sv sv services_load"
      by (rule run_cong) (simp add: services_load_def)
  qed
qed

text \<open>On whose behalf a request runs, by what its token says.\<close>

definition principal_of :: "ext \<Rightarrow> settings \<Rightarrow> http_request \<Rightarrow> principal" where
  "principal_of x cfg r = (case client_claims_of x cfg (hr_authorization r) of
     Inr claims \<Rightarrow> Client (cc_client_id claims)
   | Inl _ \<Rightarrow> (case service_claims_of x cfg (hr_authorization r) of
       Inr claims \<Rightarrow> Service (sc_name claims)
     | Inl _ \<Rightarrow> Nobody))"

lemma authenticI: "client_claims_of x cfg h = Inr c \<Longrightarrow> authentic x cfg (cc_client_id c)"
  by (auto simp: authentic_def)

lemma claims_exclusive: "service_claims_of x cfg h = Inr c \<Longrightarrow> \<exists>e. client_claims_of x cfg h = Inl e"
  by (auto simp: service_claims_of_def client_claims_of_def split: sum.splits if_splits option.splits)

lemma raise_ok: "status_code e \<noteq> 500 \<Longrightarrow> request_ok x cfg who s (raise e)"
  by (rule request_okI) (simp add: run_raise quiet_refl)

lemma unprocessable_ok: "request_ok x cfg who s (\<lambda>sv. (sv, Return Unprocessable))"
  by (rule request_okI) (simp add: run_ok_def effect_quiet quiet_refl)

lemma nonempty_ok:
  "(p \<noteq> [] \<Longrightarrow> request_ok x cfg who s h) \<Longrightarrow> request_ok x cfg who s (nonempty p h)"
  by (simp add: nonempty_def unprocessable_ok)

lemma required_ok:
  "(\<And>v. v \<noteq> [] \<Longrightarrow> request_ok x cfg who s (h v)) \<Longrightarrow> request_ok x cfg who s (required p h)"
  by (auto simp: required_def unprocessable_ok nonempty_ok split: option.split)

lemma claims_error_status:
  "client_claims_of x cfg h = Inl e \<Longrightarrow> status_code e \<noteq> 500"
  "service_claims_of x cfg h = Inl e \<Longrightarrow> status_code e \<noteq> 500"
  by (auto simp: service_claims_of_def client_claims_of_def extract_and_decode_def
      split: sum.splits if_splits option.splits prod.splits)

lemma depends_client_ok:
  assumes "\<And>c. client_claims_of x cfg (hr_authorization r) = Inr c \<Longrightarrow>
    request_ok x cfg (Client (cc_client_id c)) s (h c)"
  shows "request_ok x cfg (principal_of x cfg r) s (depends (client_claims_of x cfg (hr_authorization r)) h)"
  using assms claims_error_status(1)
  by (auto simp: depends_def principal_of_def intro!: raise_ok split: sum.split)

lemma depends_service_ok:
  assumes "\<And>c. request_ok x cfg (Service (sc_name c)) s (h c)"
  shows "request_ok x cfg (principal_of x cfg r) s (depends (service_claims_of x cfg (hr_authorization r)) h)"
  using assms claims_error_status(2) claims_exclusive
  by (fastforce simp: depends_def principal_of_def intro!: raise_ok split: sum.splits)

lemma handle_ok: "request_ok x cfg (principal_of x cfg r) s (handle x cfg random r)"
proof (cases "hr_endpoint r")
  case (PostService name)
  then show ?thesis
    by (auto simp: handle_def authenticI intro!: depends_client_ok nonempty_ok required_ok post_request_ok)
next
  case (GetService name)
  then show ?thesis
    by (auto simp: handle_def intro!: depends_service_ok nonempty_ok get_request_ok)
next
  case (PostClient name)
  then show ?thesis
    by (auto simp: handle_def intro!: depends_service_ok nonempty_ok required_ok post_response_ok)
next
  case (GetClient name)
  then show ?thesis
    by (auto simp: handle_def intro!: depends_client_ok nonempty_ok get_response_ok)
next
  case LogoffClient
  then show ?thesis by (auto simp: handle_def intro!: depends_client_ok auth_ok)
qed (auto simp: handle_def intro!: nonempty_ok auth_ok)

interpretation rg: interference "server_ok x cfg" grows effect reply_ok for x cfg
  by unfold_locales (auto intro: grows_trans effect_grows)

end
