(* ===== verification/Server_App.thy ===== *)
theory Server_App
  imports Interleaving
begin

text \<open>
  The running server: requests arrive, their handlers run segment by segment in any order, the
  reaper wakes up once per period, and time passes.

  \<^item> \<open>reaper_iteration\<close>: one turn of the loop of \<open>ClientQueueReaper.run\<close>.
  \<^item> \<open>server_move\<close>, \<open>server_step\<close>, \<open>server_run\<close>: the moves and runs of the process.
  \<^item> The contract of \<open>Interleaving\<close> lifted to all runs, and the properties of all runs; that
    every request can finish; an eviction in the middle of a poll.
\<close>

section \<open>Moves of the process\<close>

definition reaper_iteration :: "server \<Rightarrow> server" where
  "reaper_iteration sv =
     (if \<not> sv_reaping sv \<or> now (sv_clock sv) < sv_wake sv then sv
      else case reaper_tick (sv_reaper sv) (sv_clients sv, sv_clock sv) of
        (evicted, rp, reg, clk) \<Rightarrow> sv\<lparr>sv_reaper := rp, sv_clients := reg, sv_clock := clk,
           sv_wake := py_add (now clk) (rp_period_seconds rp)\<rparr>)"

text \<open>
  \<open>Arrive\<close> brings a request together with the random bytes its handler will draw; \<open>Step\<close>,
  \<open>Serve\<close> and \<open>Timeout\<close> are the moves of a task; \<open>Wake\<close> lets the reaper run if it is due;
  \<open>Shutdown\<close> cancels it;
  \<open>Elapse\<close> lets time pass, and \<open>Jitter\<close> fixes how much time passes before each of the next
  clock readings.
\<close>

datatype server_move =
    Arrive bytes http_request
  | Step nat
  | Serve nat
  | Timeout nat
  | Wake
  | Shutdown
  | Elapse rat
  | Jitter "rat list"

definition elapse :: "rat \<Rightarrow> server \<Rightarrow> server" where
  "elapse d sv = sv\<lparr>sv_clock := advance (now (sv_clock sv) + d) (sv_clock sv)\<rparr>"

definition jitter :: "rat list \<Rightarrow> server \<Rightarrow> server" where
  "jitter ds sv = sv\<lparr>sv_clock := (sv_clock sv)\<lparr>ticks := map (max 0) ds\<rparr>\<rparr>"

fun loop_move :: "ext \<Rightarrow> settings \<Rightarrow> server_move \<Rightarrow> (server, reply) move" where
  "loop_move x cfg (Arrive random r) = Spawn (handle x cfg random r)"
| "loop_move x cfg (Step i) = Run i"
| "loop_move x cfg (Serve i) = Ready i"
| "loop_move x cfg (Timeout i) = Expire i"
| "loop_move x cfg Wake = Env reaper_iteration"
| "loop_move x cfg Shutdown = Env stop_reaper"
| "loop_move x cfg (Elapse d) = Env (elapse d)"
| "loop_move x cfg (Jitter ds) = Env (jitter ds)"

type_synonym process = "(server, reply) loop"

definition sv_time :: "server \<Rightarrow> rat" where
  "sv_time sv = now (sv_clock sv)"

definition server_step :: "ext \<Rightarrow> settings \<Rightarrow> process \<Rightarrow> server_move \<Rightarrow> process option" where
  "server_step x cfg P m = loop_step sv_time P (loop_move x cfg m)"

definition start :: "settings \<Rightarrow> mono_clock \<Rightarrow> process" where
  "start cfg clk = \<lparr>mem = start_reaper (create_app cfg clk), tasks = []\<rparr>"

fun server_run :: "ext \<Rightarrow> settings \<Rightarrow> process \<Rightarrow> server_move list \<Rightarrow> process option" where
  "server_run x cfg P [] = Some P"
| "server_run x cfg P (m # ms) = (case server_step x cfg P m of
     None \<Rightarrow> None | Some P' \<Rightarrow> server_run x cfg P' ms)"

text \<open>The requests that arrived during a run, in order: the \<open>i\<close>-th belongs to task \<open>i\<close>.\<close>

fun arrivals :: "server_move list \<Rightarrow> http_request list" where
  "arrivals [] = []"
| "arrivals (Arrive random r # ms) = r # arrivals ms"
| "arrivals (_ # ms) = arrivals ms"

text \<open>\<open>reachable x cfg rs P\<close>: a run of the process has led to \<open>P\<close> and \<open>rs\<close> have arrived.\<close>

inductive reachable :: "ext \<Rightarrow> settings \<Rightarrow> http_request list \<Rightarrow> process \<Rightarrow> bool" for x cfg where
  reach_start: "clock_ok clk \<Longrightarrow> reachable x cfg [] (start cfg clk)"
| reach_step: "reachable x cfg rs P \<Longrightarrow> server_step x cfg P m = Some P' \<Longrightarrow>
     reachable x cfg (rs @ arrivals [m]) P'"

lemma reachable_run:
  "reachable x cfg rs P \<Longrightarrow> server_run x cfg P ms = Some P' \<Longrightarrow> reachable x cfg (rs @ arrivals ms) P'"
proof (induction ms arbitrary: rs P)
  case Nil
  then show ?case by simp
next
  case (Cons m ms)
  then obtain P1 where P1: "server_step x cfg P m = Some P1" "server_run x cfg P1 ms = Some P'"
    by (auto split: option.splits)
  have "reachable x cfg ((rs @ arrivals [m]) @ arrivals ms) P'"
    by (rule Cons.IH [OF reach_step [OF Cons.prems(1) P1(1)] P1(2)])
  moreover have "(rs @ arrivals [m]) @ arrivals ms = rs @ arrivals (m # ms)" by (cases m) simp_all
  ultimately show ?case by simp
qed

section \<open>Every run keeps the contract\<close>

lemma environment_ok:
  assumes "server_ok x cfg sv"
  shows "server_ok x cfg (elapse d sv) \<and> quiet sv (elapse d sv)"
    "server_ok x cfg (jitter ds sv) \<and> quiet sv (jitter ds sv)"
    "server_ok x cfg (reaper_iteration sv) \<and> quiet sv (reaper_iteration sv)"
    "server_ok x cfg (stop_reaper sv) \<and> quiet sv (stop_reaper sv)"
proof -
  note ok = server_okD [OF assms]
  show "server_ok x cfg (elapse d sv) \<and> quiet sv (elapse d sv)"
  proof
    show q: "quiet sv (elapse d sv)" using advance_ok(2)
      by (simp add: elapse_def ledger_def grows_def svc_items_def cl_items_def)
    show "server_ok x cfg (elapse d sv)"
      by (rule server_ok_quiet [OF assms q]) (use ok advance_ok(1) in \<open>simp_all add: elapse_def\<close>)
  qed
  show "server_ok x cfg (jitter ds sv) \<and> quiet sv (jitter ds sv)"
  proof
    show q: "quiet sv (jitter ds sv)"
      by (simp add: jitter_def ledger_def grows_def svc_items_def cl_items_def)
    show "server_ok x cfg (jitter ds sv)"
      by (rule server_ok_quiet [OF assms q]) (use ok in \<open>simp_all add: jitter_def clock_ok_def list_all_iff\<close>)
  qed
  have stop: "quiet sv (stop_reaper sv)"
    by (simp add: stop_reaper_def ledger_def grows_def svc_items_def cl_items_def)
  then show "server_ok x cfg (stop_reaper sv) \<and> quiet sv (stop_reaper sv)"
    using server_ok_quiet [OF assms stop] ok by (simp add: stop_reaper_def)
  show "server_ok x cfg (reaper_iteration sv) \<and> quiet sv (reaper_iteration sv)"
  proof (cases "\<not> sv_reaping sv \<or> now (sv_clock sv) < sv_wake sv")
    case True
    then show ?thesis using assms quiet_refl by (simp add: reaper_iteration_def)
  next
    case False
    obtain n rp reg clk where t: "reaper_tick (sv_reaper sv) (sv_clients sv, sv_clock sv) = (n, rp, reg, clk)"
      by (metis prod_cases4)
    have sv': "reaper_iteration sv = sv\<lparr>sv_reaper := rp, sv_clients := reg, sv_clock := clk,
           sv_wake := py_add (now clk) (rp_period_seconds rp)\<rparr>"
      using False t by (simp add: reaper_iteration_def)
    note r = reaper_tick_keeps [OF ok(1,3) t]
    have "distinct (dict_keys (cr_entries (sv_clients sv)))" using ok(1) by (simp add: cr_wf_def)
    then have "fresh_names sv (reaper_iteration sv)"
      using reaper_tick_result(1) [OF ok(1) t] dict_get_filter by (fastforce simp: sv' fresh_names_def survivors_def)
    then have q: "quiet sv (reaper_iteration sv)" using r
      by (simp add: sv' ledger_def grows_def svc_items_def cl_items_def)
    have "server_ok x cfg (reaper_iteration sv)"
      by (rule server_ok_quiet [OF assms q]) (use ok r in \<open>simp_all add: sv'\<close>)
    with q show ?thesis by simp
  qed
qed

lemma loop_move_ok:
  assumes "server_ok x cfg (mem P)"
  shows "move_ok (server_ok x cfg) grows effect reply_ok (mem P) (map (principal_of x cfg) rs)
    (loop_move x cfg m) (map (principal_of x cfg) (rs @ arrivals [m]))"
  using environment_ok [OF assms] handle_ok by (cases m) (auto dest: ledger_grows)

lemma start_ok:
  assumes "clock_ok clk"
  shows "server_ok x cfg (create_app cfg clk)"
  using assms cr_wf_new sr_wf_new
  by (simp add: server_ok_def create_app_def svc_items_def cl_items_def)
    (simp add: new_client_registry_def new_service_registry_def)

lemma start_reaper_ok [simp]: "server_ok x cfg (start_reaper sv) = server_ok x cfg sv"
  by (simp add: server_ok_def start_reaper_def svc_items_def cl_items_def)

abbreviation process_ok :: "ext \<Rightarrow> settings \<Rightarrow> http_request list \<Rightarrow> process \<Rightarrow> bool" where
  "process_ok x cfg rs P \<equiv> loop_ok (server_ok x cfg) grows effect reply_ok (map (principal_of x cfg) rs) P"

lemma server_step_ok:
  assumes "process_ok x cfg rs P" "server_step x cfg P m = Some P'"
  shows "process_ok x cfg (rs @ arrivals [m]) P'" "grows (mem P) (mem P')"
    "move_effect effect sv_time (map (principal_of x cfg) rs) P (loop_move x cfg m) P'"
proof -
  have "server_ok x cfg (mem P)" using assms(1) by (simp add: loop_ok_def)
  note * = rg.step_ok [OF assms(1) assms(2) [unfolded server_step_def] loop_move_ok [OF this]]
  show "process_ok x cfg (rs @ arrivals [m]) P'" "grows (mem P) (mem P')"
    "move_effect effect sv_time (map (principal_of x cfg) rs) P (loop_move x cfg m) P'"
    by (rule *)+
qed

lemma reachable_ok: "reachable x cfg rs P \<Longrightarrow> process_ok x cfg rs P"
proof (induction rule: reachable.induct)
  case (reach_start clk)
  then show ?case by (simp add: loop_ok_def start_def start_ok)
next
  case (reach_step rs P m P')
  show ?case by (rule server_step_ok [OF reach_step(3,2)])
qed

section \<open>A request that has taken or enqueued something answers for it\<close>

fun task_always :: "('r \<Rightarrow> bool) \<Rightarrow> ('s, 'r) task \<Rightarrow> bool" where
  "task_always P (Runnable k) = always P (Pause k)"
| "task_always P (Waiting attempt d k) = always P (Await attempt 0 k)"
| "task_always P (Finished r) = P r"

lemma always_enter: "always P c \<Longrightarrow> task_always P (enter time c)"
  by (cases c) auto

lemma task_always_step:
  assumes "loop_step clk L m = Some L'" "i < length (tasks L)" "task_always P (tasks L ! i)"
  shows "i < length (tasks L') \<and> task_always P (tasks L' ! i)"
  using assms
  by (cases m) (auto simp: nth_append nth_list_update always_enter
      split: if_splits task.splits option.splits prod.splits, (metis always_enter snd_conv)?)

lemma task_always_run:
  assumes "server_run x cfg P ms = Some P'" "i < length (tasks P)" "task_always Q (tasks P ! i)"
  shows "i < length (tasks P') \<and> task_always Q (tasks P' ! i)"
  using assms
proof (induction ms arbitrary: P)
  case Nil
  then show ?case by simp
next
  case (Cons m ms)
  then obtain P1 where P1: "server_step x cfg P m = Some P1" "server_run x cfg P1 ms = Some P'"
    by (auto split: option.splits)
  show ?case
    using task_always_step [OF P1(1) [unfolded server_step_def] Cons.prems(2,3)] Cons.IH [OF P1(2)] by blast
qed

section \<open>What one move does to the queues\<close>

fun mover :: "server_move \<Rightarrow> nat option" where
  "mover (Step i) = Some i"
| "mover (Serve i) = Some i"
| "mover _ = None"

lemma quiet_items: "quiet a b \<Longrightarrow> svc_items b = svc_items a \<and> cl_items b = cl_items a"
  by (auto simp: ledger_def)

text \<open>
  A move that changes some queue is a move of a task; its effect is the one its principal is
  permitted, and the task goes on with a coroutine the effect speaks about.
\<close>

lemma queue_move:
  assumes "process_ok x cfg rs P" "server_step x cfg P m = Some P'"
  shows "svc_items (mem P') = svc_items (mem P) \<and> cl_items (mem P') = cl_items (mem P) \<or>
    (\<exists>i c. mover m = Some i \<and> i < length rs \<and> i < length (tasks P') \<and>
      effect (principal_of x cfg (rs ! i)) (mem P) (mem P') c \<and> tasks P' ! i = enter (sv_time (mem P')) c)"
proof -
  have len: "length (tasks P) = length rs" using assms(1) by (auto simp: loop_ok_def dest: list_all2_lengthD)
  have ok: "server_ok x cfg (mem P)" using assms(1) by (simp add: loop_ok_def)
  note e = server_step_ok(3) [OF assms]
  have i: "i < length rs \<and> length (tasks P') = length rs" if "mover m = Some i" for i
    using assms(2) that len by (cases m) (auto simp: server_step_def split: if_splits task.splits option.splits prod.splits)
  show ?thesis
  proof (cases "mover m")
    case None
    then show ?thesis using e environment_ok [OF ok] quiet_items by (cases m) auto
  next
    case (Some j)
    then show ?thesis using e i [OF Some] by (cases m) auto
  qed
qed

lemma effect_events:
  assumes "effect who a b c"
  shows "(\<forall>q. svc_items b q = svc_items a q
      \<or> (\<exists>r. svc_items b q = svc_items a q @ [r] \<and> who = Client (rq_client_id r) \<and> always (\<lambda>p. \<not> rejected p) c)
      \<or> (\<exists>r name. svc_items a q = r # svc_items b q \<and> who = Service name
          \<and> map_of (sr_queues (sv_services b)) name = Some q \<and> always (\<lambda>p. p = Reply (request_message r)) c))
    \<and> (\<forall>e. cl_items b e = cl_items a e
      \<or> (\<exists>r name. cl_items b e = cl_items a e @ [r] \<and> who = Service name \<and> always (\<lambda>p. \<not> rejected p) c)
      \<or> (\<exists>r. cl_items a e = r # cl_items b e \<and> who = Client (ce_client_id (cr_objects (sv_clients b) ! e))
          \<and> always (\<lambda>p. p = Reply (response_message r)) c))"
proof -
  obtain se ce where l: "ledger a b se ce" and p: "\<And>q. svc_permitted who b c q (se q)"
    "\<And>e. cl_permitted who b c e (ce e)" using assms by (auto simp: effect_def)
  have f: "follows (se q) (svc_items a q) (svc_items b q)" "follows (ce q) (cl_items a q) (cl_items b q)" for q
    using l by (auto simp: ledger_def)
  show ?thesis
  proof (intro conjI allI)
    fix q
    show "svc_items b q = svc_items a q
      \<or> (\<exists>r. svc_items b q = svc_items a q @ [r] \<and> who = Client (rq_client_id r) \<and> always (\<lambda>p. \<not> rejected p) c)
      \<or> (\<exists>r name. svc_items a q = r # svc_items b q \<and> who = Service name
          \<and> map_of (sr_queues (sv_services b)) name = Some q \<and> always (\<lambda>p. p = Reply (request_message r)) c)"
      using f(1) [of q] p(1) [of q] by (cases "se q") auto
    show "cl_items b q = cl_items a q
      \<or> (\<exists>r name. cl_items b q = cl_items a q @ [r] \<and> who = Service name \<and> always (\<lambda>p. \<not> rejected p) c)
      \<or> (\<exists>r. cl_items a q = r # cl_items b q \<and> who = Client (ce_client_id (cr_objects (sv_clients b) ! q))
          \<and> always (\<lambda>p. p = Reply (response_message r)) c)"
      using f(2) [of q] p(2) [of q] by (cases "ce q") auto
  qed
qed

lemma always_finished:
  assumes "server_run x cfg P' ms = Some P''" "i < length (tasks P')" "tasks P' ! i = enter t c"
    "always Q c" "tasks P'' ! i = Finished p"
  shows "Q p"
  using task_always_run [OF assms(1,2), of Q] always_enter [OF assms(4), of t] assms(3,5) by simp

section \<open>An example process\<close>

text \<open>
  A process with the default settings, a token of each role, and requests over them; the
  witnesses run it.
\<close>

definition demo_cfg :: settings where
  "demo_cfg = default_settings ''10.0.0.1''"

definition demo_start :: process where
  "demo_start = start demo_cfg \<lparr>now = 100, ticks = []\<rparr>"

definition demo_request :: "endpoint \<Rightarrow> string option \<Rightarrow> string option \<Rightarrow> bytes \<Rightarrow> http_request" where
  "demo_request endpoint token request_id payload = \<lparr>hr_endpoint = endpoint, hr_authorization = token,
     hr_request_id = request_id, hr_timeout = Some 1000, hr_block = False, hr_content_type = None,
     hr_name = [], hr_body = payload\<rparr>"

definition demo_client :: "string option" where
  "demo_client = bearer (issue_client_jwt demo_ext ''alice'' ''c1'' demo_cfg)"

definition demo_service :: "string option" where
  "demo_service = bearer (issue_service_jwt demo_ext ''echo'' ''s'' demo_cfg)"

abbreviation demo_run :: "process \<Rightarrow> server_move list \<Rightarrow> process option" where
  "demo_run \<equiv> server_run demo_ext demo_cfg"

lemma demo_start_reachable: "reachable demo_ext demo_cfg [] demo_start"
  unfolding demo_start_def by (rule reach_start) (simp add: clock_ok_def)

lemma demo_reachable: "demo_run demo_start ms = Some P \<Longrightarrow> reachable demo_ext demo_cfg (arrivals ms) P"
  using reachable_run [OF demo_start_reachable, of ms P] by simp

lemma demo_cfg_valid: "settings_valid demo_cfg"
  unfolding demo_cfg_def by (rule default_settings_valid)

definition demo_post :: "server_move list" where
  "demo_post = [Arrive [] (demo_request (PostService ''echo'') demo_client (Some ''7'') [1, 2]), Step 0, Step 0]"

definition finished :: "process option \<Rightarrow> nat \<Rightarrow> reply option" where
  "finished P i = (case P of None \<Rightarrow> None | Some P \<Rightarrow>
     if i < length (tasks P) then (case tasks P ! i of Finished p \<Rightarrow> Some p | _ \<Rightarrow> None) else None)"

lemma finished_Some: "finished (Some P) i = Some p \<longleftrightarrow> i < length (tasks P) \<and> tasks P ! i = Finished p"
  by (auto simp: finished_def split: task.splits)

section \<open>Properties of all interleavings\<close>



text \<open>
  C2: no request message is lost or delivered twice. Whenever a move changes a service queue,
  the move belongs to a task and either appends one request, of the client that the task's token
  names, and the task will not answer 503; or it takes the head of the queue, the task's token
  names the service registered for this queue, and whenever the task finishes, at any later time
  and whatever else happens, its answer is exactly the message it took.
\<close>

theorem service_messages_answered:
  assumes "reachable x cfg rs P" "server_step x cfg P m = Some P'"
    and "svc_items (mem P') q \<noteq> svc_items (mem P) q"
  shows "\<exists>i. mover m = Some i \<and> i < length rs \<and>
    ((\<exists>r. svc_items (mem P') q = svc_items (mem P) q @ [r]
        \<and> principal_of x cfg (rs ! i) = Client (rq_client_id r)
        \<and> (\<forall>ms P'' p. server_run x cfg P' ms = Some P'' \<longrightarrow> finished (Some P'') i = Some p \<longrightarrow>
            p \<noteq> Reply (empty_response 503)))
     \<or> (\<exists>r name. svc_items (mem P) q = r # svc_items (mem P') q
        \<and> principal_of x cfg (rs ! i) = Service name
        \<and> map_of (sr_queues (sv_services (mem P'))) name = Some q
        \<and> (\<forall>ms P'' p. server_run x cfg P' ms = Some P'' \<longrightarrow> finished (Some P'') i = Some p \<longrightarrow>
            p = Reply (request_message r))))"
proof -
  obtain i c where i: "mover m = Some i" "i < length rs" "i < length (tasks P')"
    and e: "effect (principal_of x cfg (rs ! i)) (mem P) (mem P') c"
    and t: "tasks P' ! i = enter (sv_time (mem P')) c"
    using queue_move [OF reachable_ok [OF assms(1)] assms(2)] assms(3) by auto
  have fin: "Q p" if "always Q c" "server_run x cfg P' ms = Some P''" "finished (Some P'') i = Some p" for Q ms P'' p
    using that by (auto simp: finished_Some intro: always_finished [OF _ i(3) t])
  consider (put) r where "svc_items (mem P') q = svc_items (mem P) q @ [r]"
      "principal_of x cfg (rs ! i) = Client (rq_client_id r)" "always (\<lambda>p. \<not> rejected p) c"
    | (got) r name where "svc_items (mem P) q = r # svc_items (mem P') q" "principal_of x cfg (rs ! i) = Service name"
      "map_of (sr_queues (sv_services (mem P'))) name = Some q" "always (\<lambda>p. p = Reply (request_message r)) c"
    using effect_events [OF e, THEN conjunct1, rule_format, of q] assms(3) by blast
  then show ?thesis
  proof cases
    case put
    with i fin [OF put(3)] show ?thesis unfolding rejected_def by blast
  next
    case got
    with i fin [OF got(4)] show ?thesis by blast
  qed
qed

definition demo_take :: "server_move list" where
  "demo_take = demo_post @ [Serve 0, Step 0,
     Arrive [] (demo_request (GetService ''echo'') demo_service None []), Step 1]"

theorem service_messages_answered_witness:
  "\<exists>P P' r. demo_run demo_start demo_take = Some P \<and> server_step demo_ext demo_cfg P (Serve 1) = Some P'
     \<and> svc_items (mem P) 0 = [r] \<and> svc_items (mem P') 0 = [] \<and> rq_payload r = [1, 2]
     \<and> (\<forall>ms P'' p. demo_run P' ms = Some P'' \<longrightarrow> finished (Some P'') 1 = Some p \<longrightarrow>
          p = Reply (request_message r))"
proof -
  have "case demo_run demo_start demo_take of None \<Rightarrow> False | Some P \<Rightarrow>
     (case server_step demo_ext demo_cfg P (Serve 1) of None \<Rightarrow> False | Some P' \<Rightarrow>
       map rq_payload (svc_items (mem P) 0) = [[1, 2]] \<and> svc_items (mem P') 0 = [])" by code_simp
  then obtain P P' where P: "demo_run demo_start demo_take = Some P" "server_step demo_ext demo_cfg P (Serve 1) = Some P'"
    and q: "map rq_payload (svc_items (mem P) 0) = [[1, 2]]" "svc_items (mem P') 0 = []"
    by (auto split: option.splits)
  then obtain r where r: "svc_items (mem P) 0 = [r]" "rq_payload r = [1, 2]" by auto
  with service_messages_answered [OF demo_reachable [OF P(1)] P(2), of 0] q P show ?thesis
    by auto
qed

text \<open>
  C3: no response message is lost, delivered twice or delivered to somebody else. Whenever a
  move changes the queue of a client entry, the move belongs to a task and either appends one
  response, on behalf of a service, and the task will not answer 503; or it takes the head of
  the queue, the task's token names the client the entry belongs to, and whenever the task
  finishes its answer is exactly the message it took (also when the request is a blocking POST).
\<close>

theorem client_messages_answered:
  assumes "reachable x cfg rs P" "server_step x cfg P m = Some P'"
    and "cl_items (mem P') e \<noteq> cl_items (mem P) e"
  shows "\<exists>i. mover m = Some i \<and> i < length rs \<and>
    ((\<exists>r name. cl_items (mem P') e = cl_items (mem P) e @ [r]
        \<and> principal_of x cfg (rs ! i) = Service name
        \<and> (\<forall>ms P'' p. server_run x cfg P' ms = Some P'' \<longrightarrow> finished (Some P'') i = Some p \<longrightarrow>
            p \<noteq> Reply (empty_response 503)))
     \<or> (\<exists>r. cl_items (mem P) e = r # cl_items (mem P') e
        \<and> principal_of x cfg (rs ! i) = Client (ce_client_id (cr_objects (sv_clients (mem P')) ! e))
        \<and> (\<forall>ms P'' p. server_run x cfg P' ms = Some P'' \<longrightarrow> finished (Some P'') i = Some p \<longrightarrow>
            p = Reply (response_message r))))"
proof -
  obtain i c where i: "mover m = Some i" "i < length rs" "i < length (tasks P')"
    and eff: "effect (principal_of x cfg (rs ! i)) (mem P) (mem P') c"
    and t: "tasks P' ! i = enter (sv_time (mem P')) c"
    using queue_move [OF reachable_ok [OF assms(1)] assms(2)] assms(3) by auto
  have fin: "Q p" if "always Q c" "server_run x cfg P' ms = Some P''" "finished (Some P'') i = Some p" for Q ms P'' p
    using that by (auto simp: finished_Some intro: always_finished [OF _ i(3) t])
  consider (put) r name where "cl_items (mem P') e = cl_items (mem P) e @ [r]"
      "principal_of x cfg (rs ! i) = Service name" "always (\<lambda>p. \<not> rejected p) c"
    | (got) r where "cl_items (mem P) e = r # cl_items (mem P') e"
      "principal_of x cfg (rs ! i) = Client (ce_client_id (cr_objects (sv_clients (mem P')) ! e))"
      "always (\<lambda>p. p = Reply (response_message r)) c"
    using effect_events [OF eff, THEN conjunct2, rule_format, of e] assms(3) by blast
  then show ?thesis
  proof cases
    case put
    with i fin [OF put(3)] show ?thesis unfolding rejected_def by blast
  next
    case got
    with i fin [OF got(3)] show ?thesis by blast
  qed
qed

definition demo_respond :: "server_move list" where
  "demo_respond = [Arrive [] (demo_request (PostClient ''c1'') demo_service (Some ''7'') [9]), Step 0, Step 0]"

theorem client_messages_answered_witness:
  "\<exists>P P' r. demo_run demo_start demo_respond = Some P \<and> server_step demo_ext demo_cfg P (Serve 0) = Some P'
     \<and> cl_items (mem P') 0 = [r]
     \<and> (\<forall>ms P'' p. demo_run P' ms = Some P'' \<longrightarrow> finished (Some P'') 0 = Some p \<longrightarrow>
          p \<noteq> Reply (empty_response 503))"
proof -
  have "case demo_run demo_start demo_respond of None \<Rightarrow> False | Some P \<Rightarrow>
     (case server_step demo_ext demo_cfg P (Serve 0) of None \<Rightarrow> False | Some P' \<Rightarrow>
       cl_items (mem P) 0 = [] \<and> map rs_payload (cl_items (mem P') 0) = [[9]])" by code_simp
  then obtain P P' where P: "demo_run demo_start demo_respond = Some P" "server_step demo_ext demo_cfg P (Serve 0) = Some P'"
    and q: "cl_items (mem P) 0 = []" "map rs_payload (cl_items (mem P') 0) = [[9]]"
    by (auto split: option.splits)
  then obtain r where r: "cl_items (mem P') 0 = [r]" by auto
  with client_messages_answered [OF demo_reachable [OF P(1)] P(2), of 0] q P show ?thesis
    by auto
qed

text \<open>
  The log of a queue over a run: what was appended to it and what was taken from it, read off
  the states of the run.
\<close>

fun queue_log :: "ext \<Rightarrow> settings \<Rightarrow> (server \<Rightarrow> 'a list) \<Rightarrow> process \<Rightarrow> server_move list \<Rightarrow> 'a list \<times> 'a list" where
  "queue_log x cfg items P [] = ([], [])"
| "queue_log x cfg items P (m # ms) = (case server_step x cfg P m of
     None \<Rightarrow> ([], [])
   | Some P' \<Rightarrow> (case queue_log x cfg items P' ms of (ins, outs) \<Rightarrow>
       (drop (length (items (mem P))) (items (mem P')) @ ins,
        take (length (items (mem P)) - length (items (mem P'))) (items (mem P)) @ outs)))"

lemma queue_log_correct:
  assumes step: "\<And>rs P m P'. process_ok x cfg rs P \<Longrightarrow> server_step x cfg P m = Some P' \<Longrightarrow>
      items (mem P') = items (mem P) \<or> (\<exists>r. items (mem P') = items (mem P) @ [r]) \<or>
      (\<exists>r. items (mem P) = r # items (mem P'))"
  shows "process_ok x cfg rs P \<Longrightarrow> server_run x cfg P ms = Some P' \<Longrightarrow>
    queue_log x cfg items P ms = (ins, outs) \<Longrightarrow>
    items (mem P) @ ins = outs @ items (mem P') \<and> length ins + length outs \<le> length ms"
proof (induction ms arbitrary: rs P ins outs)
  case Nil
  then show ?case by simp
next
  case (Cons m ms)
  from Cons.prems(2) obtain P1 where P1: "server_step x cfg P m = Some P1" "server_run x cfg P1 ms = Some P'"
    by (auto split: option.splits)
  obtain i o' where log: "queue_log x cfg items P1 ms = (i, o')" by (cases "queue_log x cfg items P1 ms")
  note IH = Cons.IH [OF server_step_ok(1) [OF Cons.prems(1) P1(1)] P1(2) log]
  have eq: "ins = drop (length (items (mem P))) (items (mem P1)) @ i"
    "outs = take (length (items (mem P)) - length (items (mem P1))) (items (mem P)) @ o'"
    using Cons.prems(3) P1(1) log by auto
  from step [OF Cons.prems(1) P1(1)] show ?case using IH by (auto simp: eq)
qed

lemma queue_events:
  assumes "process_ok x cfg rs P" "server_step x cfg P m = Some P'"
  shows "svc_items (mem P') q = svc_items (mem P) q \<or> (\<exists>r. svc_items (mem P') q = svc_items (mem P) q @ [r])
      \<or> (\<exists>r. svc_items (mem P) q = r # svc_items (mem P') q)"
    "cl_items (mem P') e = cl_items (mem P) e \<or> (\<exists>r. cl_items (mem P') e = cl_items (mem P) e @ [r])
      \<or> (\<exists>r. cl_items (mem P) e = r # cl_items (mem P') e)"
  using queue_move [OF assms] effect_events by (auto, blast+)

lemma run_grows:
  "process_ok x cfg rs P \<Longrightarrow> server_run x cfg P ms = Some P' \<Longrightarrow> grows (mem P) (mem P')"
proof (induction ms arbitrary: rs P)
  case (Cons m ms)
  then obtain P1 where P1: "server_step x cfg P m = Some P1" "server_run x cfg P1 ms = Some P'"
    by (auto split: option.splits)
  note st = server_step_ok [OF Cons.prems(1) P1(1)]
  show ?case by (rule grows_trans [OF st(2) Cons.IH [OF st(1) P1(2)]])
qed simp

text \<open>
  C5: over any run, every queue is first-in first-out and loses nothing: what it held followed
  by what was appended to it is what was taken from it followed by what it holds, with at most
  one operation per move; and a service once known keeps its queue for ever, so that requests
  waiting for it survive any absence of the service and every run of the reaper.
\<close>

theorem queues_conserve_messages:
  assumes "reachable x cfg rs P" "server_run x cfg P ms = Some P'"
  shows "(case queue_log x cfg (\<lambda>sv. svc_items sv q) P ms of (ins, outs) \<Rightarrow>
        svc_items (mem P) q @ ins = outs @ svc_items (mem P') q \<and> length ins + length outs \<le> length ms)
    \<and> (case queue_log x cfg (\<lambda>sv. cl_items sv e) P ms of (ins, outs) \<Rightarrow>
        cl_items (mem P) e @ ins = outs @ cl_items (mem P') e \<and> length ins + length outs \<le> length ms)
    \<and> (\<forall>name. map_of (sr_queues (sv_services (mem P))) name = Some q \<longrightarrow>
        map_of (sr_queues (sv_services (mem P'))) name = Some q)"
proof -
  note p = reachable_ok [OF assms(1)]
  show ?thesis
    using queue_log_correct [where items = "\<lambda>sv. svc_items sv q", OF queue_events(1) p assms(2)]
      queue_log_correct [where items = "\<lambda>sv. cl_items sv e", OF queue_events(2) p assms(2)] run_grows [OF p assms(2)]
    by (auto simp: grows_def split: prod.split)
qed

theorem queues_conserve_messages_witness:
  "\<exists>P. demo_run demo_start demo_take = Some P
     \<and> (case queue_log demo_ext demo_cfg (\<lambda>sv. svc_items sv 0) demo_start demo_take of (ins, outs) \<Rightarrow>
          ins = svc_items (mem P) 0 \<and> outs = [])"
proof -
  have "demo_run demo_start demo_take \<noteq> None
     \<and> snd (queue_log demo_ext demo_cfg (\<lambda>sv. svc_items sv 0) demo_start demo_take) = []" by code_simp
  then obtain P where P: "demo_run demo_start demo_take = Some P"
    and out: "snd (queue_log demo_ext demo_cfg (\<lambda>sv. svc_items sv 0) demo_start demo_take) = []" by auto
  have "svc_items (mem demo_start) 0 = []" by (simp add: demo_start_def start_def start_reaper_def create_app_def
        new_service_registry_def svc_items_def)
  with queues_conserve_messages [OF demo_start_reachable P, of 0 0] P out show ?thesis
    by (auto split: prod.splits)
qed

section \<open>Every request can finish\<close>

text \<open>The moves of one task, and the passing of time.\<close>

definition own_move :: "nat \<Rightarrow> server_move \<Rightarrow> bool" where
  "own_move i m \<longleftrightarrow> m = Step i \<or> m = Serve i \<or> m = Timeout i \<or> (\<exists>d \<ge> 0. m = Elapse d)"

text \<open>Task \<open>i\<close> can be brought to its end by moves of its own, whatever the other tasks wait for.\<close>

definition can_finish :: "ext \<Rightarrow> settings \<Rightarrow> nat \<Rightarrow> process \<Rightarrow> bool" where
  "can_finish x cfg i P \<longleftrightarrow> (\<exists>ms P'. list_all (own_move i) ms \<and> server_run x cfg P ms = Some P' \<and>
     finished (Some P') i \<noteq> None \<and> length (tasks P') = length (tasks P) \<and> (\<forall>j. j \<noteq> i \<longrightarrow> tasks P' ! j = tasks P ! j))"

lemma can_finish_move:
  assumes "server_step x cfg P m = Some P1" "own_move i m" "can_finish x cfg i P1"
    and "length (tasks P1) = length (tasks P)" "\<And>j. j \<noteq> i \<Longrightarrow> tasks P1 ! j = tasks P ! j"
  shows "can_finish x cfg i P"
proof -
  from assms(3) obtain ms P' where ms: "list_all (own_move i) ms" "server_run x cfg P1 ms = Some P'"
    "finished (Some P') i \<noteq> None" "length (tasks P') = length (tasks P1)" "\<forall>j. j \<noteq> i \<longrightarrow> tasks P' ! j = tasks P1 ! j"
    unfolding can_finish_def by blast
  have "list_all (own_move i) (m # ms)" "server_run x cfg P (m # ms) = Some P'" using ms assms by simp_all
  with ms assms(4,5) show ?thesis unfolding can_finish_def by metis
qed

lemma can_finish_runnable:
  assumes "i < length (tasks P)" "tasks P ! i = Runnable k" "k (mem P) = (s, c)"
    and "can_finish x cfg i (P\<lparr>mem := s, tasks := (tasks P)[i := enter (sv_time s) c]\<rparr>)"
  shows "can_finish x cfg i P"
  by (rule can_finish_move [where m = "Step i", OF _ _ assms(4)])
    (use assms in \<open>simp_all add: server_step_def own_move_def\<close>)

lemma can_finish_waiting:
  assumes "i < length (tasks P)" "tasks P ! i = Waiting attempt d k"
    and served: "\<And>s k'. attempt (mem P) = Some (s, k') \<Longrightarrow>
        can_finish x cfg i (P\<lparr>mem := s, tasks := (tasks P)[i := Runnable k']\<rparr>)"
    and expired: "\<And>s. d \<le> sv_time s \<Longrightarrow> can_finish x cfg i (P\<lparr>mem := s, tasks := (tasks P)[i := Runnable k]\<rparr>)"
  shows "can_finish x cfg i P"
proof (cases "attempt (mem P)")
  case (Some p)
  obtain s k' where p: "p = (s, k')" by fastforce
  show ?thesis
    by (rule can_finish_move [where m = "Serve i", OF _ _ served])
      (use assms(1,2) Some p in \<open>simp_all add: server_step_def own_move_def\<close>)
next
  case None
  define s where "s = elapse (max 0 (d - sv_time (mem P))) (mem P)"
  have d: "d \<le> sv_time s" using advance_ok(3) [of "sv_time (mem P) + max 0 (d - sv_time (mem P))" "sv_clock (mem P)"]
    by (simp add: s_def elapse_def sv_time_def)
  let ?P1 = "P\<lparr>mem := s\<rparr>"
  have "can_finish x cfg i ?P1"
    by (rule can_finish_move [where m = "Timeout i", OF _ _ expired [OF d]])
      (use assms(1,2) d in \<open>simp_all add: server_step_def own_move_def\<close>)
  then show ?thesis
    by (rule can_finish_move [where m = "Elapse (max 0 (d - sv_time (mem P)))", rotated 2])
      (simp_all add: server_step_def own_move_def s_def)
qed

lemma coroutine_can_finish:
  "i < length (tasks P) \<Longrightarrow> tasks P ! i = enter t c \<Longrightarrow> can_finish x cfg i P"
proof (induction c arbitrary: P t rule: co_cases_induct)
  case (Return r)
  then have "finished (Some P) i \<noteq> None" by (simp add: finished_def)
  then show ?case unfolding can_finish_def by (intro exI [of _ "[]"] exI [of _ P]) simp
next
  case (Pause k)
  obtain s c where k: "k (mem P) = (s, c)" by fastforce
  show ?case
  proof (rule can_finish_runnable [where k = k and s = s and c = c])
    show "i < length (tasks P)" "k (mem P) = (s, c)" using Pause.prems k by simp_all
    show "tasks P ! i = Runnable k" using Pause.prems by simp
    show "can_finish x cfg i (P\<lparr>mem := s, tasks := (tasks P)[i := enter (sv_time s) c]\<rparr>)"
      by (rule Pause.IH [OF k, of _ "sv_time s"]) (use Pause.prems in simp_all)
  qed
next
  case (Await attempt secs k)
  show ?case
  proof (rule can_finish_waiting [OF Await.prems(1)])
    show "tasks P ! i = Waiting attempt (py_add t secs) k" using Await.prems by simp
    fix s k' assume a: "attempt (mem P) = Some (s, k')"
    let ?P = "P\<lparr>mem := s, tasks := (tasks P)[i := Runnable k']\<rparr>"
    obtain s' c where k: "k' s = (s', c)" by fastforce
    show "can_finish x cfg i ?P"
      by (rule can_finish_runnable [where k = k' and s = s' and c = c]) (use Await.IH(1) [OF a k] Await.prems(1) k in simp_all)
  next
    fix s assume "py_add t secs \<le> sv_time s"
    let ?P = "P\<lparr>mem := s, tasks := (tasks P)[i := Runnable k]\<rparr>"
    obtain s' c where k: "k s = (s', c)" by fastforce
    show "can_finish x cfg i ?P"
      by (rule can_finish_runnable [where k = k and s = s' and c = c]) (use Await.IH(2) [OF k] Await.prems(1) k in simp_all)
  qed
qed

lemma task_can_finish: "i < length (tasks P) \<Longrightarrow> can_finish x cfg i P"
proof (cases "tasks P ! i")
  case (Finished r)
  then show "i < length (tasks P) \<Longrightarrow> can_finish x cfg i P"
    using coroutine_can_finish [of i P 0 "Return r"] by simp
next
  case (Runnable k)
  then show "i < length (tasks P) \<Longrightarrow> can_finish x cfg i P"
    using coroutine_can_finish [of i P 0 "Pause k"] by simp
next
  case (Waiting attempt d k)
  assume i: "i < length (tasks P)"
  show ?thesis
    by (rule can_finish_waiting [OF i Waiting]) (use i in \<open>auto intro!: coroutine_can_finish [where c = "Pause _"]\<close>)
qed



section \<open>Eviction in the middle of a poll\<close>

text \<open>
  The constraints on the settings do not relate the inactivity threshold to the longest timeout. Here the
  threshold is shorter than a poll.
\<close>

definition hasty_cfg :: settings where
  "hasty_cfg = demo_cfg\<lparr>client_inactivity_threshold_seconds := 1, client_reaper_period_seconds := 1\<rparr>"

definition evicting_run :: "server_move list" where
  "evicting_run = [Arrive [] ((demo_request (GetClient ''c1'') demo_client None [])\<lparr>hr_timeout := Some 10000\<rparr>), Step 0,
     Elapse 5, Wake,
     Arrive [] (demo_request (PostClient ''c1'') demo_service (Some ''7'') [9]), Step 1, Step 1, Serve 1, Step 1,
     Elapse 6, Timeout 0, Step 0]"


end
