(* ===== verification/Mailbox.thy ===== *)
theory Mailbox
  imports Server_App
begin

text \<open>
  What the server is for, stated without objects, references and clocks: a mailbox of requests
  per service name and a mailbox of responses per client id.

  \<^item> \<open>view\<close>: the mailboxes of a state of the process; a name that is not registered has an empty
    one, and an entry the registry has dropped is not visible.
  \<^item> \<open>spec_post_request\<close>, \<open>spec_get_request\<close>, \<open>spec_post_response\<close>, \<open>spec_get_response\<close>: the
    abstract operations.
  \<^item> A handler that runs undisturbed (\<open>serve\<close>) refines its operation, on every branch; four
    handlers in a row carry a request to the service and its response back, unchanged.
\<close>

section \<open>Running a handler undisturbed\<close>

definition clock_of :: "server \<Rightarrow> rat" where
  "clock_of sv = now (sv_clock sv)"

definition idle_until :: "rat \<Rightarrow> server \<Rightarrow> server" where
  "idle_until d sv = sv\<lparr>sv_clock := advance d (sv_clock sv)\<rparr>"

definition serve :: "handler \<Rightarrow> server \<Rightarrow> server \<times> reply" where
  "serve h sv = solo_seg clock_of idle_until h sv"

lemma serve_simps [simp]:
  "serve (reply_with p) sv = (sv, Reply p)"
  "serve (raise e) sv = (sv, Raised e)"
  "serve (\<lambda>sv. (sv, Return r)) sv = (sv, r)"
  "serve (\<lambda>sv. (sv, Pause k)) sv = serve k sv"
  by (simp_all add: serve_def solo_seg_def reply_with_def raise_def)

lemma serve_cong: "h s = h' s' \<Longrightarrow> serve h s = serve h' s'"
  by (simp add: serve_def solo_seg_def)

lemma serve_raise: "h sv = raise e sv \<Longrightarrow> serve h sv = (sv, Raised e)"
  by (simp add: serve_def solo_seg_def raise_def)

lemma idle_until_ok: "server_ok x cfg sv \<Longrightarrow> server_ok x cfg (idle_until d sv) \<and> grows sv (idle_until d sv)"
proof -
  assume ok: "server_ok x cfg sv"
  have q: "quiet sv (idle_until d sv)" using advance_ok(2)
    by (simp add: idle_until_def ledger_def grows_def svc_items_def cl_items_def)
  have "server_ok x cfg (idle_until d sv)"
    by (rule server_ok_quiet [OF ok q]) (use server_okD [OF ok] advance_ok(1) in \<open>simp_all add: idle_until_def\<close>)
  with q ledger_grows show ?thesis by blast
qed

lemma serve_ok:
  assumes "server_ok x cfg sv" "request_ok x cfg who sv h" "serve h sv = (sv', p)"
  shows "server_ok x cfg sv'" "reply_ok p"
proof -
  have co: "co_ok (server_ok x cfg) grows (effect who) reply_ok sv (Pause h)" using assms(2) by simp
  have "server_ok x cfg (fst (solo clock_of idle_until (Pause h) sv)) \<and> grows sv (fst (solo clock_of idle_until (Pause h) sv))
      \<and> reply_ok (snd (solo clock_of idle_until (Pause h) sv))"
    by (rule rg.solo_ok [OF idle_until_ok assms(1) co effect_grows])
  then show "server_ok x cfg sv'" "reply_ok p" using assms(3) by (auto simp: serve_def)
qed

lemma serve_put:
  "serve (queue_put queue item ms k) sv =
     (if full (deref queue sv) then serve (k False) (wait_until clock_of idle_until ms sv)
      else serve (k True) (assign queue ((deref queue sv)\<lparr>q_items := q_items (deref queue sv) @ [item]\<rparr>) sv))"
  by (simp add: serve_def solo_queue_put)

lemma serve_get:
  "serve (queue_get queue ms k) sv =
     (case q_items (deref queue sv) of
        [] \<Rightarrow> serve (k None) (wait_until clock_of idle_until ms sv)
      | item # rest \<Rightarrow> serve (k (Some item)) (assign queue ((deref queue sv)\<lparr>q_items := rest\<rparr>) sv))"
  by (simp add: serve_def solo_queue_get split: list.split)

section \<open>The abstract state\<close>

record mailboxes =
  requests :: "string \<Rightarrow> pype_request list"
  responses :: "string \<Rightarrow> pype_response list"

definition service_box :: "service_registry \<Rightarrow> string \<Rightarrow> pype_request list" where
  "service_box reg name = (case map_of (sr_queues reg) name of
     None \<Rightarrow> [] | Some q \<Rightarrow> q_items (sr_objects reg ! q))"

definition client_box :: "client_registry \<Rightarrow> string \<Rightarrow> pype_response list" where
  "client_box reg cid = (case map_of (cr_entries reg) cid of
     None \<Rightarrow> [] | Some e \<Rightarrow> q_items (ce_queue (cr_objects reg ! e)))"

definition view :: "server \<Rightarrow> mailboxes" where
  "view sv = \<lparr>requests = service_box (sv_services sv), responses = client_box (sv_clients sv)\<rparr>"

lemma service_box_create:
  assumes "sr_wf reg" "service_get_or_create name reg = (q, reg')"
  shows "service_box reg' = service_box reg"
proof
  fix n
  show "service_box reg' n = service_box reg n"
  proof (cases "map_of (sr_queues reg) n")
    case None
    then show ?thesis using assms(2)
      by (auto simp: service_box_def service_get_or_create_def Let_def dict_simps split: option.splits if_splits)
  next
    case (Some r)
    then have "r < length (sr_objects reg)" by (rule sr_ref_valid [OF assms(1)])
    with Some show ?thesis using assms(2)
      by (auto simp: service_box_def service_get_or_create_def Let_def dict_simps nth_append split: option.splits if_splits)
  qed
qed

lemma client_box_create:
  assumes "cr_wf reg" "client_get_or_create cid (reg, clk) = (e, reg', clk')"
  shows "client_box reg' = client_box reg"
proof
  fix c
  show "client_box reg' c = client_box reg c"
  proof (cases "map_of (cr_entries reg) c")
    case None
    then show ?thesis using assms(2)
      by (auto simp: client_box_def client_get_or_create_def Let_def dict_simps split: option.splits prod.splits if_splits)
  next
    case (Some r)
    then have "r < length (cr_objects reg)" by (rule cr_ref_valid [OF assms(1)])
    with Some show ?thesis using assms(2)
      by (auto simp: client_box_def client_get_or_create_def Let_def dict_simps nth_append
          split: option.splits if_splits prod.splits)
  qed
qed

lemma service_box_write:
  assumes "sr_wf reg" "map_of (sr_queues reg) name = Some q"
  shows "service_box (reg\<lparr>sr_objects := (sr_objects reg)[q := queue]\<rparr>) = (service_box reg)(name := q_items queue)"
proof
  fix n
  have q: "q < length (sr_objects reg)" by (rule sr_ref_valid [OF assms])
  show "service_box (reg\<lparr>sr_objects := (sr_objects reg)[q := queue]\<rparr>) n = ((service_box reg)(name := q_items queue)) n"
  proof (cases "map_of (sr_queues reg) n = Some q")
    case True
    then have "n = name" using sr.inv_inject [OF assms(1)] assms(2) by blast
    with assms(2) q show ?thesis by (simp add: service_box_def)
  next
    case False
    then have "n \<noteq> name" using assms(2) by auto
    with False show ?thesis by (auto simp: service_box_def split: option.split)
  qed
qed

lemma client_box_write:
  assumes "cr_wf reg" "map_of (cr_entries reg) cid = Some e"
  shows "client_box (reg\<lparr>cr_objects := (cr_objects reg)[e := (cr_objects reg ! e)\<lparr>ce_queue := queue\<rparr>]\<rparr>) =
    (client_box reg)(cid := q_items queue)"
proof
  fix c
  let ?reg = "reg\<lparr>cr_objects := (cr_objects reg)[e := (cr_objects reg ! e)\<lparr>ce_queue := queue\<rparr>]\<rparr>"
  have e: "e < length (cr_objects reg)" by (rule cr_ref_valid [OF assms])
  show "client_box ?reg c = ((client_box reg)(cid := q_items queue)) c"
  proof (cases "map_of (cr_entries reg) c = Some e")
    case True
    then have "c = cid" using cr_ref_valid(2) [OF assms(1)] assms(2) by metis
    with assms(2) e show ?thesis by (simp add: client_box_def)
  next
    case False
    then have "c \<noteq> cid" using assms(2) by auto
    with False show ?thesis by (auto simp: client_box_def split: option.split)
  qed
qed

text \<open>What an operation that touches no queue keeps.\<close>

definition silent :: "server \<Rightarrow> server \<Rightarrow> bool" where
  "silent sv sv' \<longleftrightarrow> view sv' = view sv \<and> (\<forall>cid e. map_of (cr_entries (sv_clients sv)) cid = Some e \<longrightarrow>
       map_of (cr_entries (sv_clients sv')) cid = Some e)
     \<and> (\<forall>name q. map_of (sr_queues (sv_services sv)) name = Some q \<longrightarrow>
       map_of (sr_queues (sv_services sv')) name = Some q)"

lemma silent_trans: "silent a b \<Longrightarrow> silent b c \<Longrightarrow> silent a c"
  by (simp add: silent_def)

lemma silent_clock: "silent sv (sv\<lparr>sv_clock := c\<rparr>)"
  by (simp add: silent_def view_def)

lemma silent_idle: "silent sv (idle_until d sv)"
  by (simp add: idle_until_def silent_clock)

lemma silent_wait: "silent sv (wait_until clock_of idle_until ms sv)"
  using silent_idle silent_clock [of sv "sv_clock sv"] by simp

lemma silent_read_clock: "read_clock sv = (t, sv') \<Longrightarrow> silent sv sv'"
  by (auto simp: read_clock_def silent_clock split: prod.splits)

lemma silent_remaining: "remaining_ms d sv = (ms, sv') \<Longrightarrow> silent sv sv'"
  by (auto simp: remaining_ms_def silent_read_clock split: prod.splits)

lemma silent_touch: "silent sv (touch cid sv)"
proof -
  obtain reg clk where g: "bump_last_seen cid (sv_clients sv, sv_clock sv) = (reg, clk)"
    by (cases "bump_last_seen cid (sv_clients sv, sv_clock sv)")
  have "cr_entries reg = cr_entries (sv_clients sv)"
    "\<And>j. ce_queue (cr_objects reg ! j) = ce_queue (cr_objects (sv_clients sv) ! j)"
    using g by (auto simp: bump_last_seen_def Let_def split: option.splits prod.splits
        intro!: nth_list_update_field [where f = ce_queue])
  then have "client_box reg = client_box (sv_clients sv)" "cr_entries reg = cr_entries (sv_clients sv)"
    by (simp_all add: client_box_def fun_eq_iff split: option.split)
  then show ?thesis by (simp add: touch_def g silent_def view_def)
qed

lemma silent_client_entry_for:
  assumes "server_ok x cfg sv" "client_entry_for cid sv = (e, sv')"
  shows "silent sv sv'" "map_of (cr_entries (sv_clients sv')) cid = Some e"
proof -
  note ok = server_okD [OF assms(1)]
  obtain reg clk where g: "client_get_or_create cid (sv_clients sv, sv_clock sv) = (e, reg, clk)"
    and sv': "sv' = sv\<lparr>sv_clients := reg, sv_clock := clk\<rparr>"
    using assms(2) by (auto simp: client_entry_for_def split: prod.splits)
  show "map_of (cr_entries (sv_clients sv')) cid = Some e"
    using cr.registered [of "(sv_clients sv, sv_clock sv)" cid e "(reg, clk)"] g ok by (simp add: sv')
  show "silent sv sv'"
    using client_box_create [OF ok(1) g] cr.keeps_bindings [of "(sv_clients sv, sv_clock sv)" cid e "(reg, clk)"] g ok
    by (simp add: sv' silent_def view_def)
qed

lemma silent_service_queue_for:
  assumes "server_ok x cfg sv" "service_queue_for name sv = (q, sv')"
  shows "silent sv sv'" "map_of (sr_queues (sv_services sv')) name = Some q"
proof -
  note ok = server_okD [OF assms(1)]
  obtain reg where g: "service_get_or_create name (sv_services sv) = (q, reg)" and sv': "sv' = sv\<lparr>sv_services := reg\<rparr>"
    using assms(2) by (auto simp: service_queue_for_def split: prod.splits)
  show "map_of (sr_queues (sv_services sv')) name = Some q"
    by (rule service_queue_for_ok [OF assms])
  show "silent sv sv'"
    using service_box_create [OF ok(2) g] sr.keeps_bindings [OF ok(2) g] by (simp add: sv' silent_def view_def)
qed

text \<open>Writing a queue that is registered changes the mailbox of its name and no other.\<close>

lemma view_assign_service:
  assumes "server_ok x cfg sv" "map_of (sr_queues (sv_services sv)) name = Some q"
  shows "view (assign (service_queue q) queue sv) =
    (view sv)\<lparr>requests := (requests (view sv))(name := q_items queue)\<rparr>"
  using service_box_write [OF server_okD(2) [OF assms(1)] assms(2)] by (simp add: view_def service_queue_def)

lemma view_assign_client:
  assumes "server_ok x cfg sv" "map_of (cr_entries (sv_clients sv)) cid = Some e"
  shows "view (assign (client_queue e) queue sv) =
    (view sv)\<lparr>responses := (responses (view sv))(cid := q_items queue)\<rparr>"
  using client_box_write [OF server_okD(1) [OF assms(1)] assms(2)] by (simp add: view_def client_queue_def)

lemma bindings_assign [simp]:
  "sr_queues (sv_services (assign (service_queue q) queue sv)) = sr_queues (sv_services sv)"
  "sv_clients (assign (service_queue q) queue sv) = sv_clients sv"
  "cr_entries (sv_clients (assign (client_queue e) queue' sv)) = cr_entries (sv_clients sv)"
  "sv_services (assign (client_queue e) queue' sv) = sv_services sv"
  by (simp_all add: service_queue_def client_queue_def)

lemma items_view:
  "map_of (sr_queues (sv_services sv)) name = Some q \<Longrightarrow> q_items (deref (service_queue q) sv) = requests (view sv) name"
  "map_of (cr_entries (sv_clients sv)) cid = Some e \<Longrightarrow> q_items (deref (client_queue e) sv) = responses (view sv) cid"
  by (simp_all add: view_def service_box_def client_box_def service_queue_def client_queue_def)

lemma full_view:
  assumes "settings_valid cfg" "server_ok x cfg sv"
  shows "map_of (sr_queues (sv_services sv)) name = Some q \<Longrightarrow>
      full (deref (service_queue q) sv) \<longleftrightarrow> service_queue_max_size cfg \<le> int (length (requests (view sv) name))"
    "map_of (cr_entries (sv_clients sv)) cid = Some e \<Longrightarrow>
      full (deref (client_queue e) sv) \<longleftrightarrow> client_queue_max_size cfg \<le> int (length (responses (view sv) cid))"
proof -
  have pos: "0 < service_queue_max_size cfg" "0 < client_queue_max_size cfg"
    using assms(1) by (auto simp: settings_valid_def)
  have size: "sr_queue_max_size (sv_services sv) = service_queue_max_size cfg"
    "cr_queue_max_size (sv_clients sv) = client_queue_max_size cfg" using assms(2) by (auto simp: server_ok_def)
  show "full (deref (service_queue q) sv) \<longleftrightarrow> service_queue_max_size cfg \<le> int (length (requests (view sv) name))"
    if "map_of (sr_queues (sv_services sv)) name = Some q"
    using service_queue_ok [OF assms(2) sr_ref_valid [OF server_okD(2) [OF assms(2)] that]] pos size items_view(1) [OF that]
    by (simp add: full_def qsize_def queue_ok_def)
  show "full (deref (client_queue e) sv) \<longleftrightarrow> client_queue_max_size cfg \<le> int (length (responses (view sv) cid))"
    if "map_of (cr_entries (sv_clients sv)) cid = Some e"
    using client_queue_ok [OF assms(2) cr_ref_valid(1) [OF server_okD(1) [OF assms(2)] that]] pos size items_view(2) [OF that]
    by (simp add: full_def qsize_def queue_ok_def)
qed

section \<open>The abstract operations\<close>

definition spec_post_request ::
    "settings \<Rightarrow> string \<Rightarrow> bool \<Rightarrow> pype_request \<Rightarrow> mailboxes \<Rightarrow> mailboxes \<times> reply" where
  "spec_post_request cfg name block item mb =
     (if service_queue_max_size cfg \<le> int (length (requests mb name)) then (mb, Reply (empty_response 503))
      else
        let mb = mb\<lparr>requests := (requests mb)(name := requests mb name @ [item])\<rparr> in
        if \<not> block then (mb, Reply (empty_response 202))
        else case responses mb (rq_client_id item) of
          [] \<Rightarrow> (mb, Reply (empty_response 202))
        | r # rest \<Rightarrow> (mb\<lparr>responses := (responses mb)(rq_client_id item := rest)\<rparr>, Reply (response_message r)))"

definition spec_get_request :: "string \<Rightarrow> mailboxes \<Rightarrow> mailboxes \<times> reply" where
  "spec_get_request name mb = (case requests mb name of
     [] \<Rightarrow> (mb, Reply (empty_response 204))
   | r # rest \<Rightarrow> (mb\<lparr>requests := (requests mb)(name := rest)\<rparr>, Reply (request_message r)))"

definition spec_post_response :: "settings \<Rightarrow> string \<Rightarrow> pype_response \<Rightarrow> mailboxes \<Rightarrow> mailboxes \<times> reply" where
  "spec_post_response cfg cid item mb =
     (if client_queue_max_size cfg \<le> int (length (responses mb cid)) then (mb, Reply (empty_response 503))
      else (mb\<lparr>responses := (responses mb)(cid := responses mb cid @ [item])\<rparr>, Reply (empty_response 202)))"

definition spec_get_response :: "string \<Rightarrow> mailboxes \<Rightarrow> mailboxes \<times> reply" where
  "spec_get_response cid mb = (case responses mb cid of
     [] \<Rightarrow> (mb, Reply (empty_response 204))
   | r # rest \<Rightarrow> (mb\<lparr>responses := (responses mb)(cid := rest)\<rparr>, Reply (response_message r)))"

section \<open>Refinement\<close>

lemma silentD: "silent a b \<Longrightarrow> view b = view a"
  "silent a b \<Longrightarrow> map_of (cr_entries (sv_clients a)) cid = Some e \<Longrightarrow> map_of (cr_entries (sv_clients b)) cid = Some e"
  "silent a b \<Longrightarrow> map_of (sr_queues (sv_services a)) name = Some q \<Longrightarrow> map_of (sr_queues (sv_services b)) name = Some q"
  by (auto simp: silent_def)

lemma serve_get_client:
  assumes ok: "server_ok x cfg sv" and e: "map_of (cr_entries (sv_clients sv)) cid = Some e"
    and s: "serve (queue_get (client_queue e) ms k) sv = (sv', p)"
    and k: "\<And>found s. \<exists>t. silent s t \<and> serve (k found) s = (t, f found)"
  shows "view sv' = (case responses (view sv) cid of [] \<Rightarrow> view sv
      | r # rest \<Rightarrow> (view sv)\<lparr>responses := (responses (view sv))(cid := rest)\<rparr>)
    \<and> p = f (case responses (view sv) cid of [] \<Rightarrow> None | r # _ \<Rightarrow> Some r)"
proof (cases "responses (view sv) cid")
  case Nil
  let ?w = "wait_until clock_of idle_until ms sv"
  obtain t where "silent ?w t" "serve (k None) ?w = (t, f None)" using k by blast
  with s Nil show ?thesis
    using silentD(1) silent_wait [of sv ms] by (simp add: serve_get items_view(2) [OF e])
next
  case (Cons r rest)
  let ?w = "assign (client_queue e) ((deref (client_queue e) sv)\<lparr>q_items := rest\<rparr>) sv"
  obtain t where "silent ?w t" "serve (k (Some r)) ?w = (t, f (Some r))" using k by blast
  with s Cons show ?thesis
    using silentD(1) by (simp add: serve_get items_view(2) [OF e] view_assign_client [OF ok e])
qed

lemma serve_post_answer:
  assumes ok: "server_ok x cfg sv" and e: "map_of (cr_entries (sv_clients sv)) cid = Some entry"
    and s: "serve (post_answer cid entry block d True) sv = (sv', p)"
  shows "(view sv', p) = (if \<not> block then (view sv, Reply (empty_response 202))
        else case responses (view sv) cid of
          [] \<Rightarrow> (view sv, Reply (empty_response 202))
        | r # rest \<Rightarrow> ((view sv)\<lparr>responses := (responses (view sv))(cid := rest)\<rparr>, Reply (response_message r)))"
proof (cases block)
  case False
  have "serve (post_answer cid entry block d True) sv = serve (reply_with (empty_response 202)) (touch cid sv)"
    by (rule serve_cong) (simp add: post_answer_def False)
  with s False show ?thesis using silentD(1) [OF silent_touch] by auto
next
  case True
  obtain ms v where 1: "remaining_ms d (touch cid sv) = (ms, v)" by (cases "remaining_ms d (touch cid sv)")
  note t = touch_ok(1) [OF ok, of cid]
  note v = remaining_ms_ok(1) [OF t 1]
  have q: "silent sv v" by (rule silent_trans [OF silent_touch silent_remaining [OF 1]])
  have "serve (post_answer cid entry block d True) sv = serve (queue_get (client_queue entry) ms (\<lambda>response.
         case response of
           None \<Rightarrow> reply_with (empty_response 202)
         | Some item \<Rightarrow> reply_with (response_message item))) v"
    by (rule serve_cong) (simp add: post_answer_def True 1)
  with s serve_get_client [OF v silentD(2) [OF q e], where f = "\<lambda>response. case response of
      None \<Rightarrow> Reply (empty_response 202) | Some item \<Rightarrow> Reply (response_message item)" and k = "\<lambda>response.
         case response of
           None \<Rightarrow> reply_with (empty_response 202)
         | Some item \<Rightarrow> reply_with (response_message item)" and ms = ms and sv' = sv' and p = p]
  have "view sv' = (case responses (view v) cid of [] \<Rightarrow> view v
      | r # rest \<Rightarrow> (view v)\<lparr>responses := (responses (view v))(cid := rest)\<rparr>)
    \<and> p = (case (case responses (view v) cid of [] \<Rightarrow> None | r # _ \<Rightarrow> Some r) of
        None \<Rightarrow> Reply (empty_response 202) | Some item \<Rightarrow> Reply (response_message item))"
    by (fastforce simp: silent_def split: option.split)
  then show ?thesis using True silentD(1) [OF q] by (simp split: list.split)
qed

lemma serve_post_failed:
  "serve (post_answer cid entry block d False) sv = (touch cid sv, Reply (empty_response 503))"
proof -
  have "serve (post_answer cid entry block d False) sv = serve (reply_with (empty_response 503)) (touch cid sv)"
    by (rule serve_cong) (simp add: post_answer_def)
  then show ?thesis by simp
qed

lemma post_request_view:
  assumes "settings_valid cfg" "server_ok x cfg sv"
    and "authentic x cfg (cc_client_id claims)" "request_id \<noteq> []"
    and "normalize_timeout timeout (max_timeout_ms cfg) = Inr total_ms"
    and "serve (post_request_to_service cfg name claims request_id timeout block content_type payload) sv = (sv', p)"
  shows "(view sv', p) = spec_post_request cfg name block
    \<lparr>rq_client_id = cc_client_id claims, rq_request_id = request_id,
     rq_content_type = content_type_or content_type (default_content_type cfg), rq_payload = payload\<rparr> (view sv)"
proof -
  let ?cid = "cc_client_id claims"
  let ?item = "\<lparr>rq_client_id = ?cid, rq_request_id = request_id,
     rq_content_type = content_type_or content_type (default_content_type cfg), rq_payload = payload\<rparr>"
  obtain entry s1 where 1: "client_entry_for ?cid sv = (entry, s1)" by (cases "client_entry_for ?cid sv")
  note s1 = client_entry_for_ok(1) [OF assms(2) 1] silent_client_entry_for [OF assms(2) 1]
  let ?s2 = "touch ?cid s1"
  note s2 = touch_ok(1) [OF s1(1), of ?cid] silent_trans [OF s1(2) silent_touch]
  obtain t s3 where 3: "read_clock ?s2 = (t, s3)" by (cases "read_clock ?s2")
  note s3 = read_clock_ok(1) [OF s2(1) 3] silent_read_clock [OF 3]
  obtain queue s4 where 4: "service_queue_for name s3 = (queue, s4)" by (cases "service_queue_for name s3")
  note s4 = service_queue_for_ok(1) [OF s3(1) 4] silent_service_queue_for [OF s3(1) 4]
  let ?d = "deadline_at t total_ms"
  obtain ms s5 where 5: "remaining_ms ?d s4 = (ms, s5)" by (cases "remaining_ms ?d s4")
  note s5 = remaining_ms_ok(1) [OF s4(1) 5] silent_remaining [OF 5]
  have q: "silent ?s2 s5" by (rule silent_trans [OF s3(2) silent_trans [OF s4(2) s5(2)]])
  note v = silentD(1) [OF silent_trans [OF s2(2) q]]
  note e = silentD(2) [OF silent_trans [OF silent_touch q] s1(3)]
  note qb = silentD(3) [OF s5(2) s4(3)]
  have "serve (post_request_to_service cfg name claims request_id timeout block content_type payload) sv =
    serve (queue_put (service_queue queue) ?item ms (post_answer ?cid entry block ?d)) s5"
  proof -
    have "serve (post_request_to_service cfg name claims request_id timeout block content_type payload) sv =
      serve (\<lambda>sv. (sv, snd (post_request_to_service cfg name claims request_id timeout block content_type payload s))) ?s2"
      if "s = sv" for s by (rule serve_cong) (simp add: that post_request_to_service_def 1 assms(5))
    then show ?thesis
      by (simp add: post_request_to_service_def 1 assms(5)) (rule serve_cong, simp add: 3 4 5 post_answer_def [abs_def])
  qed
  with assms(6) have s: "serve (queue_put (service_queue queue) ?item ms (post_answer ?cid entry block ?d)) s5 = (sv', p)"
    by simp
  show ?thesis
  proof (cases "full (deref (service_queue queue) s5)")
    case True
    then have "(sv', p) = (touch ?cid (wait_until clock_of idle_until ms s5), Reply (empty_response 503))"
      using s by (simp add: serve_put serve_post_failed)
    moreover have "view (touch ?cid (wait_until clock_of idle_until ms s5)) = view sv"
      using silentD(1) [OF silent_trans [OF silent_wait silent_touch]] v by metis
    ultimately show ?thesis using True full_view(1) [OF assms(1) s5(1) qb] v
      by (simp add: spec_post_request_def)
  next
    case False
    let ?q = "(deref (service_queue queue) s5)\<lparr>q_items := q_items (deref (service_queue queue) s5) @ [?item]\<rparr>"
    let ?s6 = "assign (service_queue queue) ?q s5"
    have put: "put_nowait ?item (deref (service_queue queue) s5) = Inr ?q" using False by (simp add: put_nowait_def)
    have ok6: "server_ok x cfg ?s6"
      by (rule service_put_ok(1) [OF s5(1) sr_ref_valid [OF server_okD(2) [OF s5(1)] qb] put])
        (simp_all add: assms(3,4))
    have "serve (post_answer ?cid entry block ?d True) ?s6 = (sv', p)" using s False by (simp add: serve_put)
    then have "(view sv', p) = (if \<not> block then (view ?s6, Reply (empty_response 202))
        else case responses (view ?s6) ?cid of
          [] \<Rightarrow> (view ?s6, Reply (empty_response 202))
        | r # rest \<Rightarrow> ((view ?s6)\<lparr>responses := (responses (view ?s6))(?cid := rest)\<rparr>, Reply (response_message r)))"
      by (rule serve_post_answer [OF ok6, rotated]) (simp add: e)
    moreover have "view ?s6 = (view sv)\<lparr>requests := (requests (view sv))(name := requests (view sv) name @ [?item])\<rparr>"
      using view_assign_service [OF s5(1) qb] items_view(1) [OF qb] v by simp
    ultimately show ?thesis using False full_view(1) [OF assms(1) s5(1) qb] v
      by (cases block) (simp_all add: spec_post_request_def Let_def split: list.split)
  qed
qed

lemma get_request_view:
  assumes "server_ok x cfg sv" "normalize_timeout timeout (max_timeout_ms cfg) = Inr ms"
    and "serve (get_request_for_service cfg name claims timeout) sv = (sv', p)"
  shows "if sc_name claims = name then (view sv', p) = spec_get_request name (view sv)
    else sv' = sv \<and> reply_status p = 400"
proof (cases "sc_name claims = name")
  case False
  have "get_request_for_service cfg name claims timeout sv =
      raise (RoleMismatchError (''token'' @ [CHR 0x27] @ ''s service name does not match path'')) sv"
    using False by (simp add: get_request_for_service_def)
  from serve_raise [where h = "get_request_for_service cfg name claims timeout", OF this] False assms(3) show ?thesis by auto
next
  case True
  obtain q s1 where 1: "service_queue_for name sv = (q, s1)" by (cases "service_queue_for name sv")
  note ok = service_queue_for_ok(1) [OF assms(1) 1] and sil = silent_service_queue_for [OF assms(1) 1]
  let ?k = "\<lambda>item. case item of None \<Rightarrow> reply_with (empty_response 204) | Some item \<Rightarrow> reply_with (request_message item)"
  have "serve (get_request_for_service cfg name claims timeout) sv = serve (queue_get (service_queue q) ms ?k) s1"
    by (rule serve_cong) (simp add: get_request_for_service_def True assms(2) 1)
  then have s: "serve (queue_get (service_queue q) ms ?k) s1 = (sv', p)" using assms(3) by simp
  show ?thesis
  proof (cases "requests (view s1) name")
    case Nil
    then have "sv' = wait_until clock_of idle_until ms s1" "p = Reply (empty_response 204)"
      using s by (simp_all add: serve_get items_view(1) [OF sil(2)])
    moreover have "view (wait_until clock_of idle_until ms s1) = view sv"
      using silentD(1) [OF silent_trans [OF sil(1) silent_wait]] by metis
    ultimately show ?thesis using True Nil silentD(1) [OF sil(1)] by (simp add: spec_get_request_def)
  next
    case (Cons r rest)
    then have "sv' = assign (service_queue q) ((deref (service_queue q) s1)\<lparr>q_items := rest\<rparr>) s1"
      "p = Reply (request_message r)"
      using s by (simp_all add: serve_get items_view(1) [OF sil(2)])
    then show ?thesis using True Cons silentD(1) [OF sil(1)]
      by (simp add: spec_get_request_def view_assign_service [OF ok sil(2)])
  qed
qed

lemma post_response_view:
  assumes "settings_valid cfg" "server_ok x cfg sv"
    and "normalize_timeout timeout (max_timeout_ms cfg) = Inr ms"
    and "serve (post_response_to_client cfg cid claims request_id timeout content_type payload) sv = (sv', p)"
  shows "(view sv', p) = spec_post_response cfg cid \<lparr>rs_request_id = request_id,
    rs_content_type = content_type_or content_type (default_content_type cfg), rs_payload = payload\<rparr> (view sv)"
proof -
  let ?item = "\<lparr>rs_request_id = request_id,
    rs_content_type = content_type_or content_type (default_content_type cfg), rs_payload = payload\<rparr>"
  obtain e s1 where 1: "client_entry_for cid sv = (e, s1)" by (cases "client_entry_for cid sv")
  note ok = client_entry_for_ok(1) [OF assms(2) 1] and sil = silent_client_entry_for [OF assms(2) 1]
  let ?k = "\<lambda>enqueued. if \<not> enqueued then reply_with (empty_response 503) else reply_with (empty_response 202)"
  have "serve (post_response_to_client cfg cid claims request_id timeout content_type payload) sv =
    serve (\<lambda>sv. (sv, Pause (queue_put (client_queue e) ?item ms ?k))) s1"
    by (rule serve_cong) (simp add: post_response_to_client_def assms(3) 1)
  then have s: "serve (queue_put (client_queue e) ?item ms ?k) s1 = (sv', p)" using assms(4) by simp
  show ?thesis
  proof (cases "full (deref (client_queue e) s1)")
    case True
    then have "sv' = wait_until clock_of idle_until ms s1" "p = Reply (empty_response 503)"
      using s by (simp_all add: serve_put)
    moreover have "view (wait_until clock_of idle_until ms s1) = view sv"
      using silentD(1) [OF silent_trans [OF sil(1) silent_wait]] by metis
    ultimately show ?thesis using True full_view(2) [OF assms(1) ok sil(2)] silentD(1) [OF sil(1)]
      by (simp add: spec_post_response_def)
  next
    case False
    then have "sv' = assign (client_queue e)
        ((deref (client_queue e) s1)\<lparr>q_items := q_items (deref (client_queue e) s1) @ [?item]\<rparr>) s1"
      "p = Reply (empty_response 202)"
      using s by (simp_all add: serve_put)
    then show ?thesis using False full_view(2) [OF assms(1) ok sil(2)] silentD(1) [OF sil(1)]
      by (simp add: spec_post_response_def view_assign_client [OF ok sil(2)] items_view(2) [OF sil(2)])
  qed
qed

lemma get_response_view:
  assumes "server_ok x cfg sv" "normalize_timeout timeout (max_timeout_ms cfg) = Inr ms"
    and "serve (get_response_for_client cfg cid claims timeout) sv = (sv', p)"
  shows "if cc_client_id claims = cid then (view sv', p) = spec_get_response cid (view sv)
    else sv' = sv \<and> reply_status p = 403"
proof (cases "cc_client_id claims = cid")
  case False
  have "get_response_for_client cfg cid claims timeout sv =
      raise (ForbiddenError (''path client_id does not match token'' @ [CHR 0x27] @ ''s client_id'')) sv"
    using False by (simp add: get_response_for_client_def)
  from serve_raise [where h = "get_response_for_client cfg cid claims timeout", OF this] False assms(3) show ?thesis by auto
next
  case True
  obtain e s1 where 1: "client_entry_for cid sv = (e, s1)" by (cases "client_entry_for cid sv")
  note ok1 = client_entry_for_ok(1) [OF assms(1) 1] and sil = silent_client_entry_for [OF assms(1) 1]
  let ?s2 = "touch cid s1"
  note ok2 = touch_ok(1) [OF ok1, of cid]
  have sil2: "silent sv ?s2" by (rule silent_trans [OF sil(1) silent_touch])
  let ?k = "\<lambda>item sv. let sv = touch cid sv in case item of
      None \<Rightarrow> reply_with (empty_response 204) sv | Some item \<Rightarrow> reply_with (response_message item) sv"
  have "serve (get_response_for_client cfg cid claims timeout) sv = serve (queue_get (client_queue e) ms ?k) ?s2"
    by (rule serve_cong) (simp add: get_response_for_client_def True assms(2) 1)
  then have s: "serve (queue_get (client_queue e) ms ?k) ?s2 = (sv', p)" using assms(3) by simp
  have "\<exists>t. silent s t \<and> serve (?k found) s = (t, case found of
      None \<Rightarrow> Reply (empty_response 204) | Some item \<Rightarrow> Reply (response_message item))" for found s
  proof (intro exI conjI)
    show "silent s (touch cid s)" by (rule silent_touch)
    have "serve (?k found) s = serve (case found of None \<Rightarrow> reply_with (empty_response 204)
        | Some item \<Rightarrow> reply_with (response_message item)) (touch cid s)"
      by (rule serve_cong) (simp add: Let_def split: option.split)
    then show "serve (?k found) s = (touch cid s, case found of
      None \<Rightarrow> Reply (empty_response 204) | Some item \<Rightarrow> Reply (response_message item))"
      by (simp split: option.split)
  qed
  from serve_get_client [OF ok2 silentD(2) [OF silent_touch sil(2)] s this]
  show ?thesis using True silentD(1) [OF sil2] by (simp add: spec_get_response_def split: list.split)
qed

section \<open>The handlers refine the mailboxes\<close>

text \<open>States for the witnesses: a fresh process, and one in which a client has posted.\<close>

definition demo_app :: server where
  "demo_app = create_app demo_cfg \<lparr>now = 100, ticks = [1]\<rparr>"

definition demo_claims :: client_claims where
  "demo_claims = \<lparr>cc_name = ''alice'', cc_client_id = ''c1''\<rparr>"

definition demo_item :: pype_request where
  "demo_item = \<lparr>rq_client_id = ''c1'', rq_request_id = ''7'', rq_content_type = ''application/json'', rq_payload = [1]\<rparr>"

definition demo_posted :: server where
  "demo_posted = fst (serve (post_request_to_service demo_cfg ''echo'' demo_claims ''7'' (Some 5) True None [1]) demo_app)"

lemma demo_app_ok: "server_ok demo_ext demo_cfg demo_app"
  unfolding demo_app_def by (rule start_ok) (simp add: clock_ok_def)

lemma demo_authentic: "authentic demo_ext demo_cfg (cc_client_id demo_claims)"
  using issued_claims(2) [OF demo_jwt_roundtrip demo_bearer_parsed, of "''c1''"]
  by (force simp: authentic_def demo_claims_def)

lemma demo_empty: "requests (view demo_app) n = []" "responses (view demo_app) c = []"
  by (simp_all add: demo_app_def view_def create_app_def new_client_registry_def new_service_registry_def
      service_box_def client_box_def)

lemma demo_cfg_sel [simp]: "max_timeout_ms demo_cfg = 480000" "service_queue_max_size demo_cfg = 8000"
  "client_queue_max_size demo_cfg = 8" "default_content_type demo_cfg = ''application/json''"
  by (simp_all add: demo_cfg_def default_settings_def)

lemma demo_post_view:
  assumes "serve (post_request_to_service demo_cfg ''echo'' demo_claims ''7'' (Some 5) True None [1]) demo_app = (sv', p)"
  shows "server_ok demo_ext demo_cfg sv'" "requests (view sv') ''echo'' = [demo_item]"
proof -
  show "server_ok demo_ext demo_cfg sv'"
    by (rule serve_ok(1) [OF demo_app_ok post_request_ok [OF demo_authentic] assms]) simp
  show "requests (view sv') ''echo'' = [demo_item]"
    using post_request_view [OF demo_cfg_valid demo_app_ok demo_authentic _ _ assms, of 5] demo_empty
    by (simp add: normalize_timeout_def spec_post_request_def demo_item_def demo_claims_def content_type_or_def)
qed

lemma demo_posted_ok: "server_ok demo_ext demo_cfg demo_posted" "requests (view demo_posted) ''echo'' = [demo_item]"
  using demo_post_view [OF prod.collapse [symmetric]] by (simp_all add: demo_posted_def)

text \<open>
  Posting a request undisturbed is \<open>spec_post_request\<close>: with space in the service's mailbox
  the request is appended with exactly the ids, payload and (defaulted) content type of the
  caller and, if the caller blocks, the oldest response waiting for this client is handed over;
  without space nothing changes and the answer is 503. No other mailbox is touched.
\<close>

theorem post_request_refines:
  assumes "settings_valid cfg" "server_ok x cfg sv"
    and "authentic x cfg (cc_client_id claims)" "request_id \<noteq> []"
    and "normalize_timeout timeout (max_timeout_ms cfg) = Inr total_ms"
    and "serve (post_request_to_service cfg name claims request_id timeout block content_type payload) sv = (sv', p)"
  shows "(view sv', p) = spec_post_request cfg name block
    \<lparr>rq_client_id = cc_client_id claims, rq_request_id = request_id,
     rq_content_type = content_type_or content_type (default_content_type cfg), rq_payload = payload\<rparr> (view sv)"
  using assms by (rule post_request_view)

theorem post_request_refines_witness:
  "case serve (post_request_to_service demo_cfg ''echo'' demo_claims ''7'' (Some 5) True None [1]) demo_app of
     (sv', p) \<Rightarrow> requests (view sv') ''echo'' = [demo_item] \<and> p = Reply (empty_response 202)"
proof -
  obtain sv' p where s: "serve (post_request_to_service demo_cfg ''echo'' demo_claims ''7'' (Some 5) True None [1]) demo_app = (sv', p)"
    by fastforce
  from post_request_refines [OF demo_cfg_valid demo_app_ok demo_authentic _ _ s, of 5] demo_empty s
  show ?thesis
    by (simp add: normalize_timeout_def spec_post_request_def demo_item_def demo_claims_def content_type_or_def)
qed

text \<open>
  A service that asks for work undisturbed gets the oldest request of its own mailbox, with
  the client id, request id, content type and payload it was posted with, and 204 when there is
  none; a service whose token names another service gets an error and changes nothing.
\<close>

theorem get_request_refines:
  assumes "server_ok x cfg sv" "normalize_timeout timeout (max_timeout_ms cfg) = Inr ms"
    and "serve (get_request_for_service cfg name claims timeout) sv = (sv', p)"
  shows "if sc_name claims = name then (view sv', p) = spec_get_request name (view sv)
    else sv' = sv \<and> reply_status p = 400"
  using assms by (rule get_request_view)

theorem get_request_refines_witness:
  "case serve (get_request_for_service demo_cfg ''echo'' \<lparr>sc_name = ''echo'', sc_service_secret = ''s''\<rparr> None) demo_posted of
     (sv', p) \<Rightarrow> requests (view sv') ''echo'' = [] \<and> p = Reply (request_message demo_item)"
proof -
  obtain sv' p where s: "serve (get_request_for_service demo_cfg ''echo'' \<lparr>sc_name = ''echo'', sc_service_secret = ''s''\<rparr> None) demo_posted = (sv', p)"
    by fastforce
  from get_request_refines [OF demo_posted_ok(1) _ s, of 480000] s
  show ?thesis by (simp add: normalize_timeout_def spec_get_request_def demo_posted_ok(2))
qed

text \<open>
  A service that posts a response undisturbed appends it, with its id, payload and (defaulted)
  content type, to the mailbox of exactly the client named in the path; when that mailbox is
  full nothing changes and the answer is 503.
\<close>

theorem post_response_refines:
  assumes "settings_valid cfg" "server_ok x cfg sv"
    and "normalize_timeout timeout (max_timeout_ms cfg) = Inr ms"
    and "serve (post_response_to_client cfg cid claims request_id timeout content_type payload) sv = (sv', p)"
  shows "(view sv', p) = spec_post_response cfg cid \<lparr>rs_request_id = request_id,
    rs_content_type = content_type_or content_type (default_content_type cfg), rs_payload = payload\<rparr> (view sv)"
  using assms by (rule post_response_view)

theorem post_response_refines_witness:
  "case serve (post_response_to_client demo_cfg ''c1'' \<lparr>sc_name = ''echo'', sc_service_secret = ''s''\<rparr> ''7'' (Some 0) (Some []) [2]) demo_app of
     (sv', p) \<Rightarrow> responses (view sv') ''c1'' =
         [\<lparr>rs_request_id = ''7'', rs_content_type = ''application/json'', rs_payload = [2]\<rparr>]
       \<and> p = Reply (empty_response 202)"
proof -
  obtain sv' p where s: "serve (post_response_to_client demo_cfg ''c1'' \<lparr>sc_name = ''echo'', sc_service_secret = ''s''\<rparr> ''7'' (Some 0) (Some []) [2]) demo_app = (sv', p)"
    by fastforce
  from post_response_refines [OF demo_cfg_valid demo_app_ok _ s, of 0] demo_empty s
  show ?thesis by (simp add: normalize_timeout_def spec_post_response_def content_type_or_def)
qed

text \<open>
  A client that polls undisturbed gets the oldest response of its own mailbox, unchanged, or
  204 when there is none; polling with somebody else's client id in the path is refused with
  403 and changes nothing.
\<close>

theorem get_response_refines:
  assumes "server_ok x cfg sv" "normalize_timeout timeout (max_timeout_ms cfg) = Inr ms"
    and "serve (get_response_for_client cfg cid claims timeout) sv = (sv', p)"
  shows "if cc_client_id claims = cid then (view sv', p) = spec_get_response cid (view sv)
    else sv' = sv \<and> reply_status p = 403"
  using assms by (rule get_response_view)

theorem get_response_refines_witness:
  "case serve (get_response_for_client demo_cfg ''c2'' demo_claims None) demo_posted of
     (sv', p) \<Rightarrow> sv' = demo_posted \<and> reply_status p = 403"
proof -
  obtain sv' p where s: "serve (get_response_for_client demo_cfg ''c2'' demo_claims None) demo_posted = (sv', p)"
    by fastforce
  from get_response_refines [OF demo_posted_ok(1) _ s, of 480000] s
  show ?thesis by (simp add: normalize_timeout_def demo_claims_def)
qed

section \<open>Four handlers in a row\<close>

abbreviation http :: "endpoint \<Rightarrow> string \<Rightarrow> string option \<Rightarrow> int option \<Rightarrow> string option \<Rightarrow> bytes \<Rightarrow> http_request" where
  "http endpoint token request_id timeout content_type payload \<equiv>
     \<lparr>hr_endpoint = endpoint, hr_authorization = bearer token, hr_request_id = request_id,
      hr_timeout = timeout, hr_block = False, hr_content_type = content_type, hr_name = [], hr_body = payload\<rparr>"

lemma rpc_steps:
  assumes lib: "jwt_roundtrip x" "bearer_parsed x"
    and cfg: "settings_valid cfg" and ok: "server_ok x cfg sv"
    and names: "cid \<noteq> []" "name \<noteq> []" "rid \<noteq> []"
    and empty: "requests (view sv) name = []" "responses (view sv) cid = []"
    and times: "\<forall>t \<in> {t1, t2, t3, t4}. \<exists>ms. normalize_timeout t (max_timeout_ms cfg) = Inr ms"
    and post: "serve (handle x cfg d1 (http (PostService name) (issue_client_jwt x cname cid cfg) (Some rid) t1 (Some ct) payload)) sv = (sv1, p1)"
    and fetch: "serve (handle x cfg d2 (http (GetService name) (issue_service_jwt x name secret cfg) None t2 None [])) sv1 = (sv2, p2)"
    and answer: "serve (handle x cfg d3 (http (PostClient cid) (issue_service_jwt x name secret cfg) (Some rid) t3 (Some ct') payload')) sv2 = (sv3, p3)"
    and poll: "serve (handle x cfg d4 (http (GetClient cid) (issue_client_jwt x cname cid cfg) None t4 None [])) sv3 = (sv4, p4)"
    and types: "ct \<noteq> []" "ct' \<noteq> []"
  shows "p1 = Reply (empty_response 202)
    \<and> p2 = Reply \<lparr>status = 200, media_type = Some ct, headers = [(''X-Pype-Client-Id'', cid), (''X-Pype-Request-Id'', rid)], content = Raw payload\<rparr>
    \<and> p3 = Reply (empty_response 202)
    \<and> p4 = Reply \<lparr>status = 200, media_type = Some ct', headers = [(''X-Pype-Request-Id'', rid)], content = Raw payload'\<rparr>
    \<and> view sv4 = view sv"
proof -
  note claims = issued_claims [OF lib, where cfg = cfg]
  obtain m1 m2 m3 m4 where n: "normalize_timeout t1 (max_timeout_ms cfg) = Inr m1"
    "normalize_timeout t2 (max_timeout_ms cfg) = Inr m2" "normalize_timeout t3 (max_timeout_ms cfg) = Inr m3"
    "normalize_timeout t4 (max_timeout_ms cfg) = Inr m4" using times by auto
  have size: "0 < service_queue_max_size cfg" "0 < client_queue_max_size cfg"
    using cfg by (auto simp: settings_valid_def)
  have auth: "authentic x cfg cid" using claims(2) [OF names(1)] by (force simp: authentic_def)
  note ok1 = serve_ok(1) [OF ok handle_ok post]
  note ok2 = serve_ok(1) [OF ok1 handle_ok fetch]
  note ok3 = serve_ok(1) [OF ok2 handle_ok answer]
  note h = handle_def depends_def nonempty_def required_def claims(1) claims(2) [OF names(1)] names
  have v1: "view sv1 = (view sv)\<lparr>requests := (requests (view sv))(name := [\<lparr>rq_client_id = cid, rq_request_id = rid,
      rq_content_type = ct, rq_payload = payload\<rparr>])\<rparr>" "p1 = Reply (empty_response 202)"
    using post_request_view [OF cfg ok, of "\<lparr>cc_name = cname, cc_client_id = cid\<rparr>" rid t1 m1 name False "Some ct" payload sv1 p1]
      post auth names n(1) empty types size
    by (simp_all add: h spec_post_request_def content_type_or_def)
  have v2: "view sv2 = view sv" "p2 = Reply (request_message \<lparr>rq_client_id = cid, rq_request_id = rid,
      rq_content_type = ct, rq_payload = payload\<rparr>)"
    using get_request_view [OF ok1 n(2), of name "\<lparr>sc_name = name, sc_service_secret = secret\<rparr>" sv2 p2] fetch
    by (simp_all add: h spec_get_request_def v1 empty [symmetric])
  have v3: "view sv3 = (view sv)\<lparr>responses := (responses (view sv))(cid := [\<lparr>rs_request_id = rid,
      rs_content_type = ct', rs_payload = payload'\<rparr>])\<rparr>" "p3 = Reply (empty_response 202)"
    using post_response_view [OF cfg ok2 n(3), of cid "\<lparr>sc_name = name, sc_service_secret = secret\<rparr>" rid "Some ct'" payload' sv3 p3]
      answer empty size types
    by (simp_all add: h spec_post_response_def content_type_or_def v2)
  have v4: "view sv4 = view sv" "p4 = Reply (response_message \<lparr>rs_request_id = rid,
      rs_content_type = ct', rs_payload = payload'\<rparr>)"
    using get_response_view [OF ok3 n(4), of cid "\<lparr>cc_name = cname, cc_client_id = cid\<rparr>" sv4 p4] poll
    by (simp_all add: h spec_get_response_def v3 empty [symmetric])
  show ?thesis using v1 v2 v3 v4 by (simp add: request_message_def response_message_def)
qed

end
