(* ===== verification/Client_Http.thy ===== *)
theory Client_Http
  imports Messaging Py_Float
begin

text \<open>
  The client library's HTTP plumbing: \<open>exceptions.py\<close>, \<open>config.py\<close> and \<open>_http.py\<close> of
  \<open>pype_client\<close>.

  \<^item> \<open>client_error\<close>: what the library raises; \<open>client_settings\<close>.
  \<^item> \<open>'w transport\<close>: the \<open>requests\<close> package and the clock, over an unknown world \<open>'w\<close>. It is a
    parameter: a call answers with a response, with a timeout, or with another
    \<open>RequestException\<close>, and changes the world.
  \<^item> \<open>http_timeout_seconds\<close>, \<open>describe\<close>, \<open>raise_for_status\<close>, \<open>call\<close>: the functions of \<open>_http.py\<close>.
\<close>

section \<open>Errors and settings\<close>

text \<open>
  The hierarchy of \<open>exceptions.py\<close>, and the built-in exceptions that the library lets through
  or raises itself.
\<close>

datatype client_error =
    PypeAuthError string
  | PypeForbiddenError string
  | PypeBadRequestError string
  | PypeTimeoutError string
  | PypeNetworkError string
  | PypeProtocolError string
  | RuntimeErr string
  | ValueErr string
  | JSONDecodeErr
  | UnicodeErr

fun is_pype_error :: "client_error \<Rightarrow> bool" where
  "is_pype_error (RuntimeErr _) = False"
| "is_pype_error (ValueErr _) = False"
| "is_pype_error JSONDecodeErr = False"
| "is_pype_error UnicodeErr = False"
| "is_pype_error _ = True"

record client_settings =
  cs_base_url :: string
  cs_network_buffer_ms :: int
  cs_auth_timeout_ms :: int

definition default_client_settings :: client_settings where
  "default_client_settings = \<lparr>cs_base_url = ''http://localhost:8000'', cs_network_buffer_ms = 1000,
     cs_auth_timeout_ms = 5000\<rparr>"

definition client_settings_valid :: "client_settings \<Rightarrow> bool" where
  "client_settings_valid s \<longleftrightarrow> 0 \<le> cs_network_buffer_ms s \<and> 1 \<le> cs_auth_timeout_ms s"

section \<open>Requests and responses\<close>

text \<open>
  A session has the headers it adds to every call and knows whether it has been closed; a call
  carries what the library passes to \<open>Session.request\<close>. Query parameters are strings and
  integers.
\<close>

record session =
  ss_headers :: "(string, string) dict"
  ss_closed :: bool

datatype param = PStr string | PInt int

datatype call_body = NoBody | JsonBody json | DataBody bytes

record http_call =
  hc_session_headers :: "(string, string) dict"
  hc_method :: string
  hc_url :: string
  hc_timeout :: "rat option"
  hc_params :: "(string, param) dict"
  hc_headers :: "(string, string) dict"
  hc_body :: call_body

text \<open>
  What the library reads of a \<open>requests.Response\<close>: \<open>rp_json\<close> is \<open>None\<close> when \<open>resp.json()\<close>
  raises, and \<open>rp_headers\<close> has the headers in their canonical spelling.
\<close>

record http_reply =
  rp_status :: int
  rp_headers :: "(string, string) dict"
  rp_content :: bytes
  rp_text :: string
  rp_json :: "json option"

datatype outcome = Answer http_reply | RequestTimeout | RequestException string

record 'w transport =
  send :: "http_call \<Rightarrow> 'w \<Rightarrow> outcome \<times> 'w"
  read_time :: "'w \<Rightarrow> rat \<times> 'w"

section \<open>str() of a decoded JSON document\<close>

definition hex_digit :: "nat \<Rightarrow> char" where
  "hex_digit n = ''0123456789abcdef'' ! n"

definition repr_char :: "char \<Rightarrow> char \<Rightarrow> string" where
  "repr_char quote c = (let n = of_char c :: nat in
     if c = quote \<or> n = 92 then [CHR 0x5C, c]
     else if n = 10 then [CHR 0x5C, CHR ''n'']
     else if n = 13 then [CHR 0x5C, CHR ''r'']
     else if n = 9 then [CHR 0x5C, CHR ''t'']
     else if n < 32 \<or> 127 \<le> n \<and> n \<le> 160 \<or> n = 173
     then [CHR 0x5C, CHR ''x'', hex_digit (n div 16), hex_digit (n mod 16)]
     else [c])"

definition repr_str :: "string \<Rightarrow> string" where
  "repr_str s = (let quote = (if CHR 0x27 \<in> set s \<and> CHR 0x22 \<notin> set s then CHR 0x22 else CHR 0x27)
     in quote # concat (map (repr_char quote) s) @ [quote])"

fun join :: "string \<Rightarrow> string list \<Rightarrow> string" where
  "join sep [] = []"
| "join sep [s] = s"
| "join sep (s # t # ts) = s @ sep @ join sep (t # ts)"

fun py_repr :: "json \<Rightarrow> string" where
  "py_repr JNull = ''None''"
| "py_repr (JBool b) = (if b then ''True'' else ''False'')"
| "py_repr (JInt n) = py_str_int n"
| "py_repr (JStr s) = repr_str s"
| "py_repr (JArr xs) = ''['' @ join '', '' (map py_repr xs) @ '']''"
| "py_repr (JObj kvs) = ''{'' @ join '', '' (map (\<lambda>(k, v). repr_str k @ '': '' @ py_repr v) kvs) @ ''}''"

fun py_str :: "json \<Rightarrow> string" where
  "py_str (JStr s) = s"
| "py_str v = py_repr v"

section \<open>_http.py\<close>

text \<open>\<open>ms / 1000.0\<close> on an integer: it is converted to a double first.\<close>

definition seconds :: "int \<Rightarrow> rat" where
  "seconds ms = py_div (fl (of_int ms)) 1000"

definition http_timeout_seconds :: "int option \<Rightarrow> int \<Rightarrow> rat option" where
  "http_timeout_seconds server_timeout_ms network_buffer_ms = (case server_timeout_ms of
     None \<Rightarrow> None
   | Some ms \<Rightarrow> Some (seconds (ms + network_buffer_ms)))"

definition describe :: "http_reply \<Rightarrow> string" where
  "describe resp = (case rp_json resp of
     Some body \<Rightarrow> (case body of
         JObj kvs \<Rightarrow> py_str_int (rp_status resp) @ '' '' @
           py_str (case map_of kvs ''detail'' of Some d \<Rightarrow> d | None \<Rightarrow> body)
       | _ \<Rightarrow> py_str_int (rp_status resp) @ '' '' @ py_str body)
   | None \<Rightarrow>
       let text = rp_text resp
       in if text \<noteq> [] then py_str_int (rp_status resp) @ '' '' @ take 200 text
          else ''HTTP '' @ py_str_int (rp_status resp))"

definition raise_for_status :: "http_reply \<Rightarrow> int set \<Rightarrow> client_error option" where
  "raise_for_status resp expected_codes =
     (if rp_status resp \<in> expected_codes then None
      else
        let status = rp_status resp; detail = describe resp in
        if status = 401 then Some (PypeAuthError detail)
        else if status = 400 then Some (PypeBadRequestError detail)
        else if status = 403 then Some (PypeForbiddenError detail)
        else if status = 503 then Some (PypeTimeoutError detail)
        else Some (PypeProtocolError (''unexpected status '' @ py_str_int status @ '': '' @ detail)))"

definition call :: "'w transport \<Rightarrow> session \<Rightarrow> string \<Rightarrow> string \<Rightarrow> rat option \<Rightarrow> (string, param) dict \<Rightarrow>
    (string, string) dict \<Rightarrow> call_body \<Rightarrow> 'w \<Rightarrow> (client_error + http_reply) \<times> 'w" where
  "call tr session method url timeout_seconds params hdrs body w =
     (case send tr \<lparr>hc_session_headers = ss_headers session, hc_method = method, hc_url = url,
         hc_timeout = timeout_seconds, hc_params = params, hc_headers = hdrs, hc_body = body\<rparr> w of
       (Answer resp, w) \<Rightarrow> (Inr resp, w)
     | (RequestTimeout, w) \<Rightarrow> (Inl (PypeTimeoutError (''local HTTP timeout calling '' @ method @ '' '' @ url)), w)
     | (RequestException exc, w) \<Rightarrow>
         (Inl (PypeNetworkError (''network error calling '' @ method @ '' '' @ url @ '': '' @ exc)), w))"

text \<open>\<open>call\<close> and \<open>raise_for_status\<close> in a row, as every method uses them.\<close>

definition checked_call :: "'w transport \<Rightarrow> session \<Rightarrow> string \<Rightarrow> string \<Rightarrow> rat option \<Rightarrow> (string, param) dict \<Rightarrow>
    (string, string) dict \<Rightarrow> call_body \<Rightarrow> int set \<Rightarrow> 'w \<Rightarrow> (client_error + http_reply) \<times> 'w" where
  "checked_call tr session method url timeout_seconds params hdrs body expected_codes w =
     (case call tr session method url timeout_seconds params hdrs body w of
       (Inl e, w) \<Rightarrow> (Inl e, w)
     | (Inr resp, w) \<Rightarrow> (case raise_for_status resp expected_codes of
           Some e \<Rightarrow> (Inl e, w) | None \<Rightarrow> (Inr resp, w)))"

lemma seconds_small: "\<bar>ms\<bar> \<le> 2 ^ 53 \<Longrightarrow> seconds ms = py_div (of_int ms) 1000"
  by (simp add: seconds_def fl_int)

lemma seconds_mono: "a \<le> b \<Longrightarrow> seconds a \<le> seconds b"
  unfolding seconds_def py_div_def by (intro fl_mono divide_right_mono) simp_all

lemma seconds_near:
  assumes "0 \<le> ms" "ms \<le> 2 ^ 32"
  shows "of_int ms / 1000 - 1 / 2 ^ 20 \<le> seconds ms" "seconds ms \<le> of_int ms / 1000 + 1 / 2 ^ 20"
proof -
  have "\<bar>rat_of_int ms / 1000\<bar> \<le> 2 ^ 33" using assms by simp
  then show "of_int ms / 1000 - 1 / 2 ^ 20 \<le> seconds ms" "seconds ms \<le> of_int ms / 1000 + 1 / 2 ^ 20"
    using binary64.rnd_near [of "of_int ms / 1000"] assms by (simp_all add: seconds_small py_div_def)
qed

lemma raise_for_status_None: "raise_for_status resp codes = None \<longleftrightarrow> rp_status resp \<in> codes"
  by (simp add: raise_for_status_def Let_def)

lemma raise_for_status_pype: "raise_for_status resp codes = Some e \<Longrightarrow> is_pype_error e"
  by (auto simp: raise_for_status_def Let_def split: if_splits)

text \<open>What a call makes of the outcome: its effect on the world is that of \<open>send\<close> alone.\<close>

definition verdict :: "string \<Rightarrow> string \<Rightarrow> int set \<Rightarrow> outcome \<Rightarrow> client_error + http_reply" where
  "verdict method url codes outcome = (case outcome of
     Answer resp \<Rightarrow> (case raise_for_status resp codes of Some e \<Rightarrow> Inl e | None \<Rightarrow> Inr resp)
   | RequestTimeout \<Rightarrow> Inl (PypeTimeoutError (''local HTTP timeout calling '' @ method @ '' '' @ url))
   | RequestException exc \<Rightarrow> Inl (PypeNetworkError (''network error calling '' @ method @ '' '' @ url @ '': '' @ exc)))"

lemma checked_call_verdict:
  "checked_call tr s m u t ps hs b codes w = apfst (verdict m u codes)
     (send tr \<lparr>hc_session_headers = ss_headers s, hc_method = m, hc_url = u, hc_timeout = t,
        hc_params = ps, hc_headers = hs, hc_body = b\<rparr> w)"
  by (auto simp: checked_call_def call_def verdict_def split: prod.splits outcome.splits option.splits)

lemma verdict_Inr: "verdict m u codes oc = Inr resp \<longleftrightarrow> oc = Answer resp \<and> rp_status resp \<in> codes"
  using raise_for_status_None [of resp codes]
  by (auto simp: verdict_def split: outcome.splits option.splits)

lemma verdict_timeout:
  "(\<exists>e. verdict m u codes oc = Inl (PypeTimeoutError e)) \<longleftrightarrow>
     oc = RequestTimeout \<or> (\<exists>resp. oc = Answer resp \<and> rp_status resp = 503 \<and> 503 \<notin> codes)"
  by (auto simp: verdict_def raise_for_status_def Let_def split: outcome.splits if_splits)

lemma verdict_pype: "verdict m u codes oc = Inl e \<Longrightarrow> is_pype_error e"
  by (auto simp: verdict_def raise_for_status_pype split: outcome.splits option.splits)



text \<open>
  C34: the local socket timeout never fires before the server's own deadline. Without a server
  timeout there is none; with one it is at least the number of seconds the server waits
  (\<open>timeout_ms / 1000.0\<close> there too), and it exceeds that by the network buffer, up to two
  roundings of less than a microsecond.
\<close>

theorem http_timeout_covers:
  assumes "0 \<le> buffer" "0 \<le> ms" "ms + buffer \<le> 2 ^ 32"
  shows "http_timeout_seconds None buffer = None
    \<and> (\<exists>t. http_timeout_seconds (Some ms) buffer = Some t \<and> py_div (of_int ms) 1000 \<le> t
        \<and> py_div (of_int ms) 1000 + of_int buffer / 1000 - 2 / 2 ^ 20 \<le> t
        \<and> t \<le> py_div (of_int ms) 1000 + of_int buffer / 1000 + 2 / 2 ^ 20)"
proof -
  have s: "seconds ms = py_div (of_int ms) 1000" using assms by (intro seconds_small) simp
  have "rat_of_int (ms + buffer) / 1000 = of_int ms / 1000 + of_int buffer / 1000" by (simp add: add_divide_distrib)
  moreover have "ms \<le> 2 ^ 32" "0 \<le> ms + buffer" using assms by simp_all
  ultimately have "seconds ms + of_int buffer / 1000 - 2 / 2 ^ 20 \<le> seconds (ms + buffer)"
    "seconds (ms + buffer) \<le> seconds ms + of_int buffer / 1000 + 2 / 2 ^ 20"
    using seconds_near [of ms] seconds_near [of "ms + buffer"] assms by linarith+
  moreover have "seconds ms \<le> seconds (ms + buffer)" using assms(1) by (intro seconds_mono) simp
  ultimately show ?thesis unfolding http_timeout_seconds_def s [symmetric] by simp
qed

theorem http_timeout_covers_witness:
  "\<exists>t. http_timeout_seconds (Some 500) 1000 = Some t \<and> py_div 500 1000 + 1 - 2 / 2 ^ 20 \<le> t"
  using http_timeout_covers [of 1000 500] by auto

end
