(* ===== verification/Client_Messages.thy ===== *)
theory Client_Messages
  imports Client_Http
begin

text \<open>
  \<open>_payload.py\<close>, \<open>messages.py\<close> and \<open>schemas.py\<close> of the client library.

  \<^item> \<open>utf8_encode\<close>, \<open>utf8_decode\<close>: \<open>str.encode("utf-8")\<close> and \<open>bytes.decode("utf-8")\<close>, both
    strict. A text is the list of its code points.
  \<^item> \<open>payload_accessors\<close> with \<open>payload_bytes\<close>, \<open>payload_text\<close>, \<open>payload_json\<close>: the mixin with its two
    lazily filled caches; \<open>client_request\<close> and \<open>service_response\<close> extend its record, as the
    classes extend the mixin.
  \<^item> UTF-8 round trips both ways; the caches never change an answer.
  \<open>json.loads\<close> is a parameter, \<open>None\<close> where it raises.
\<close>

type_synonym unicode = "nat list"

section \<open>UTF-8\<close>

definition scalar_value :: "nat \<Rightarrow> bool" where
  "scalar_value c \<longleftrightarrow> c < 0x110000 \<and> \<not> (0xD800 \<le> c \<and> c < 0xE000)"

definition utf8_char :: "nat \<Rightarrow> nat list" where
  "utf8_char c =
     (if c < 0x80 then [c]
      else if c < 0x800 then [0xC0 + c div 64, 0x80 + c mod 64]
      else if c < 0x10000 then [0xE0 + c div 64 div 64, 0x80 + c div 64 mod 64, 0x80 + c mod 64]
      else [0xF0 + c div 64 div 64 div 64, 0x80 + c div 64 div 64 mod 64, 0x80 + c div 64 mod 64, 0x80 + c mod 64])"

fun utf8_chars :: "unicode \<Rightarrow> nat list option" where
  "utf8_chars [] = Some []"
| "utf8_chars (c # cs) = (if scalar_value c then map_option ((@) (utf8_char c)) (utf8_chars cs) else None)"

definition continuation :: "nat \<Rightarrow> bool" where
  "continuation b \<longleftrightarrow> 0x80 \<le> b \<and> b < 0xC0"

text \<open>Six more bits of a code point, from a continuation byte.\<close>

definition six :: "nat \<Rightarrow> nat \<Rightarrow> nat" where
  "six k b = k * 64 + (b - 0x80)"

fun utf8_scan :: "nat list \<Rightarrow> unicode option" where
  "utf8_scan [] = Some []"
| "utf8_scan (a # rest) =
     (if a < 0x80 then map_option ((#) a) (utf8_scan rest)
      else if 0xC0 \<le> a \<and> a < 0xE0 then
        (case rest of
           b # rest \<Rightarrow>
             let c = six (a - 0xC0) b in
             if continuation b \<and> 0x80 \<le> c then map_option ((#) c) (utf8_scan rest) else None
         | _ \<Rightarrow> None)
      else if 0xE0 \<le> a \<and> a < 0xF0 then
        (case rest of
           b1 # b2 # rest \<Rightarrow>
             let c = six (six (a - 0xE0) b1) b2 in
             if continuation b1 \<and> continuation b2 \<and> 0x800 \<le> c \<and> scalar_value c
             then map_option ((#) c) (utf8_scan rest) else None
         | _ \<Rightarrow> None)
      else if 0xF0 \<le> a \<and> a < 0xF8 then
        (case rest of
           b1 # b2 # b3 # rest \<Rightarrow>
             let c = six (six (six (a - 0xF0) b1) b2) b3 in
             if continuation b1 \<and> continuation b2 \<and> continuation b3 \<and> 0x10000 \<le> c \<and> scalar_value c
             then map_option ((#) c) (utf8_scan rest) else None
         | _ \<Rightarrow> None)
      else None)"

definition utf8_encode :: "unicode \<Rightarrow> bytes option" where
  "utf8_encode s = map_option (map word_of_nat) (utf8_chars s)"

definition utf8_decode :: "bytes \<Rightarrow> unicode option" where
  "utf8_decode b = utf8_scan (map unat b)"

lemma utf8_char_bytes: "scalar_value c \<Longrightarrow> b \<in> set (utf8_char c) \<Longrightarrow> b < 256"
  by (auto simp: utf8_char_def scalar_value_def split: if_splits)

lemma six_bits [simp]: "six (c div 64) (0x80 + c mod 64) = c" "continuation (0x80 + c mod 64)"
  by (simp_all add: six_def continuation_def)

lemma six_div_mod:
  assumes "continuation b"
  shows "six k b div 64 = k" "0x80 + six k b mod 64 = b" "six k b < n * 64 \<longleftrightarrow> k < n"
proof -
  obtain y where "b = 0x80 + y" "y < 64" using assms by (auto simp: continuation_def le_iff_add)
  then show "six k b div 64 = k" "0x80 + six k b mod 64 = b" "six k b < n * 64 \<longleftrightarrow> k < n"
    by (simp_all add: six_def flip: div_less_iff_less_mult)
qed

lemma scan_char:
  assumes "scalar_value c"
  shows "utf8_scan (utf8_char c @ rest) = map_option ((#) c) (utf8_scan rest)"
proof -
  have top: "c < 0x110000" using assms by (simp add: scalar_value_def)
  consider "c < 0x80" | "0x80 \<le> c" "c < 0x800" | "0x800 \<le> c" "c < 0x10000" | "0x10000 \<le> c"
    by linarith
  then show ?thesis
  proof cases
    case 1
    then show ?thesis by (simp add: utf8_char_def)
  next
    case 2
    have "c div 64 < 32" using 2 by (simp add: less_mult_imp_div_less)
    with 2 show ?thesis by (simp add: utf8_char_def)
  next
    case 3
    have "c div 64 div 64 < 16" using 3 by (simp add: less_mult_imp_div_less)
    with 3 assms show ?thesis by (simp add: utf8_char_def)
  next
    case 4
    have "c div 64 div 64 div 64 < 5" using top by (simp add: less_mult_imp_div_less)
    with 4 assms show ?thesis by (simp add: utf8_char_def)
  qed
qed

lemma scan_chars: "utf8_chars s = Some b \<Longrightarrow> utf8_scan b = Some s"
  by (induction s arbitrary: b) (auto simp: scan_char split: if_splits)

lemma char_scan2:
  assumes "0xC0 \<le> a" "a < 0xE0" "continuation b" "c = six (a - 0xC0) b" "0x80 \<le> c"
  shows "scalar_value c" "utf8_char c = [a, b]"
proof -
  have "c < 32 * 64" using assms(1,2) unfolding assms(4) six_div_mod(3) [OF assms(3)] by linarith
  with assms show "scalar_value c" "utf8_char c = [a, b]"
    by (simp_all add: utf8_char_def scalar_value_def six_div_mod)
qed

lemma char_scan3:
  assumes "0xE0 \<le> a" "a < 0xF0" "continuation b1" "continuation b2"
    "c = six (six (a - 0xE0) b1) b2" "0x800 \<le> c"
  shows "utf8_char c = [a, b1, b2]"
proof -
  have "c < 16 * 64 * 64"
    using assms(1,2) unfolding assms(5) six_div_mod(3) [OF assms(3)] six_div_mod(3) [OF assms(4)] by linarith
  with assms show ?thesis by (simp add: utf8_char_def six_div_mod)
qed

lemma char_scan4:
  assumes "0xF0 \<le> a" "continuation b1" "continuation b2" "continuation b3"
    "c = six (six (six (a - 0xF0) b1) b2) b3" "0x10000 \<le> c"
  shows "utf8_char c = [a, b1, b2, b3]"
  using assms by (simp add: utf8_char_def six_div_mod)

lemma chars_scan: "utf8_scan b = Some s \<Longrightarrow> utf8_chars s = Some b"
proof (induction b arbitrary: s rule: utf8_scan.induct)
  case 1
  then show ?case by simp
next
  case (2 a rest)
  note prem = 2(5)
  consider "a < 0x80" | "0xC0 \<le> a" "a < 0xE0" | "0xE0 \<le> a" "a < 0xF0" | "0xF0 \<le> a" "a < 0xF8"
    using prem by (fastforce split: if_splits)
  then show ?case
  proof cases
    case 1
    with prem obtain t where t: "utf8_scan rest = Some t" "s = a # t" by auto
    with 2(1) 1 show ?thesis by (simp add: scalar_value_def utf8_char_def)
  next
    case C: 2
    then obtain b r where r: "rest = b # r" using prem by (cases rest) auto
    define c where "c = six (a - 0xC0) b"
    from C prem obtain t where c: "continuation b" "0x80 \<le> c" and t: "utf8_scan r = Some t" and s: "s = c # t"
      by (auto simp: r Let_def c_def [symmetric] split: if_splits)
    have "utf8_chars t = Some r" using 2(2) [OF _ _ r c_def] C c t by simp
    with char_scan2 [OF C c(1) c_def c(2)] show ?thesis by (simp add: s r)
  next
    case C: 3
    then obtain b1 b2 r where r: "rest = b1 # b2 # r" using prem by (auto split: list.splits)
    define c where "c = six (six (a - 0xE0) b1) b2"
    from C prem obtain t where c: "continuation b1" "continuation b2" "0x800 \<le> c" "scalar_value c"
      and t: "utf8_scan r = Some t" and s: "s = c # t"
      by (auto simp: r Let_def c_def [symmetric] split: if_splits)
    have "utf8_chars t = Some r" using 2(3) [OF _ _ _ r refl c_def] C c t by simp
    with char_scan3 [OF C c(1,2) c_def c(3)] c(4) show ?thesis by (simp add: s r)
  next
    case C: 4
    then obtain b1 b2 b3 r where r: "rest = b1 # b2 # b3 # r" using prem by (auto split: list.splits)
    define c where "c = six (six (six (a - 0xF0) b1) b2) b3"
    from C prem obtain t where c: "continuation b1" "continuation b2" "continuation b3" "0x10000 \<le> c" "scalar_value c"
      and t: "utf8_scan r = Some t" and s: "s = c # t"
      by (auto simp: r Let_def c_def [symmetric] split: if_splits)
    have "utf8_chars t = Some r" using 2(4) [OF _ _ _ _ r refl refl c_def] C c t by simp
    with char_scan4 [OF C(1) c(1,2,3) c_def c(4)] c(5) show ?thesis by (simp add: s r)
  qed
qed

lemma utf8_decode_encode: "utf8_encode s = Some b \<Longrightarrow> utf8_decode b = Some s"
proof -
  assume "utf8_encode s = Some b"
  then obtain ns where ns: "utf8_chars s = Some ns" "b = map word_of_nat ns" by (auto simp: utf8_encode_def)
  have "utf8_chars s = Some ns \<Longrightarrow> \<forall>n \<in> set ns. n < 256" for s ns
    by (induction s arbitrary: ns) (auto split: if_splits dest: utf8_char_bytes)
  with ns have "map unat b = ns" by (auto simp: unat_of_nat intro!: map_idI)
  with ns(1) show ?thesis by (simp add: utf8_decode_def scan_chars)
qed

lemma utf8_encode_decode: "utf8_decode b = Some s \<Longrightarrow> utf8_encode s = Some b"
  using chars_scan [of "map unat b" s] by (simp add: utf8_decode_def utf8_encode_def comp_def)

section \<open>_payload.py\<close>

text \<open>
  A cache is \<open>None\<close> while it holds the sentinel \<open>_UNSET\<close>. \<open>json.loads\<close> is the parameter
  \<open>loads\<close>, with results of an unknown type \<open>'j\<close>.
\<close>

record 'j payload_accessors =
  payload :: bytes
  text_cache :: "unicode option"
  json_cache :: "'j option"

definition payload_bytes :: "('j, 'm) payload_accessors_scheme \<Rightarrow> bytes" where
  "payload_bytes m = payload m"

definition payload_text ::
  "('j, 'm) payload_accessors_scheme \<Rightarrow> (client_error + unicode) \<times> ('j, 'm) payload_accessors_scheme" where
  "payload_text m = (case text_cache m of
     Some s \<Rightarrow> (Inr s, m)
   | None \<Rightarrow> (case utf8_decode (payload m) of
       None \<Rightarrow> (Inl UnicodeErr, m)
     | Some s \<Rightarrow> (Inr s, m\<lparr>text_cache := Some s\<rparr>)))"

definition payload_json :: "(unicode \<Rightarrow> 'j option) \<Rightarrow>
    ('j, 'm) payload_accessors_scheme \<Rightarrow> (client_error + 'j) \<times> ('j, 'm) payload_accessors_scheme" where
  "payload_json loads m = (case json_cache m of
     Some j \<Rightarrow> (Inr j, m)
   | None \<Rightarrow> (case payload_text m of
       (Inl e, m) \<Rightarrow> (Inl e, m)
     | (Inr s, m) \<Rightarrow> (case loads s of
         None \<Rightarrow> (Inl JSONDecodeErr, m)
       | Some j \<Rightarrow> (Inr j, m\<lparr>json_cache := Some j\<rparr>))))"

section \<open>messages.py\<close>

text \<open>
  The two classes extend the mixin; a request also keeps the connection it came from, which is
  \<open>'c\<close> here, and the service name as authentication answered it, which no check makes a string.
\<close>

record ('j, 'c) client_request = "'j payload_accessors" +
  cr_client_id :: string
  cr_request_id :: string
  cr_content_type :: string
  cr_service_name :: json
  cr_connection :: 'c

record 'j service_response = "'j payload_accessors" +
  sr_request_id :: string
  sr_content_type :: string

definition new_client_request ::
  "string \<Rightarrow> string \<Rightarrow> string \<Rightarrow> bytes \<Rightarrow> json \<Rightarrow> 'c \<Rightarrow> ('j, 'c) client_request" where
  "new_client_request client_id request_id content_type bs service_name connection =
     \<lparr>payload = bs, text_cache = None, json_cache = None, cr_client_id = client_id, cr_request_id = request_id,
      cr_content_type = content_type, cr_service_name = service_name, cr_connection = connection\<rparr>"

definition new_service_response :: "string \<Rightarrow> string \<Rightarrow> bytes \<Rightarrow> 'j service_response" where
  "new_service_response request_id content_type bs =
     \<lparr>payload = bs, text_cache = None, json_cache = None, sr_request_id = request_id,
      sr_content_type = content_type\<rparr>"

text \<open>\<open>ServiceResponse.__repr__\<close>: the payload is not shown, only its length.\<close>

definition service_response_repr :: "'j service_response \<Rightarrow> string" where
  "service_response_repr m = ''ServiceResponse(request_id='' @ repr_str (sr_request_id m) @
     '', content_type='' @ repr_str (sr_content_type m) @
     '', payload=<'' @ py_str_int (int (length (payload m))) @ '' bytes>)''"

text \<open>\<open>str | bytes\<close>, the type of what a caller sends, and \<open>x.encode("utf-8") if isinstance(x, str) else x\<close>.\<close>

datatype str_or_bytes = Str unicode | Bytes bytes

fun to_bytes :: "str_or_bytes \<Rightarrow> client_error + bytes" where
  "to_bytes (Str s) = (case utf8_encode s of None \<Rightarrow> Inl UnicodeErr | Some b \<Rightarrow> Inr b)"
| "to_bytes (Bytes b) = Inr b"

section \<open>schemas.py\<close>

text \<open>The two bodies with \<open>min_length=1\<close>: \<open>None\<close> where the constructor raises a validation error.\<close>

definition service_auth_request :: "string \<Rightarrow> (string, json) dict option" where
  "service_auth_request service_name =
     (if 1 \<le> length service_name then Some [(''service_name'', JStr service_name)] else None)"

definition client_auth_request :: "string \<Rightarrow> (string, json) dict option" where
  "client_auth_request name = (if 1 \<le> length name then Some [(''name'', JStr name)] else None)"

section \<open>The accessors compute what they say\<close>

definition caches_ok :: "(unicode \<Rightarrow> 'j option) \<Rightarrow> ('j, 'm) payload_accessors_scheme \<Rightarrow> bool" where
  "caches_ok loads m \<longleftrightarrow>
     (\<forall>s. text_cache m = Some s \<longrightarrow> utf8_decode (payload m) = Some s) \<and>
     (\<forall>j. json_cache m = Some j \<longrightarrow> Option.bind (utf8_decode (payload m)) loads = Some j)"

lemma caches_ok_fresh [simp]:
  "caches_ok loads (new_service_response request_id content_type bs)"
  "caches_ok loads (new_client_request client_id request_id content_type bs service_name connection)"
  by (simp_all add: caches_ok_def new_service_response_def new_client_request_def)

datatype access = Bytes_Access | Text_Access | Json_Access

fun perform :: "(unicode \<Rightarrow> 'j option) \<Rightarrow> access \<Rightarrow> ('j, 'm) payload_accessors_scheme \<Rightarrow> ('j, 'm) payload_accessors_scheme" where
  "perform loads Bytes_Access m = m"
| "perform loads Text_Access m = snd (payload_text m)"
| "perform loads Json_Access m = snd (payload_json loads m)"

lemma payload_text_ok:
  "caches_ok loads m \<Longrightarrow> fst (payload_text m) = (case utf8_decode (payload m) of None \<Rightarrow> Inl UnicodeErr | Some s \<Rightarrow> Inr s)"
  "caches_ok loads m \<Longrightarrow> caches_ok loads (snd (payload_text m)) \<and> payload (snd (payload_text m)) = payload m"
  by (auto simp: payload_text_def caches_ok_def split: option.splits)

lemma payload_json_ok:
  assumes "caches_ok loads m"
  shows "fst (payload_json loads m) = (case utf8_decode (payload m) of None \<Rightarrow> Inl UnicodeErr
      | Some s \<Rightarrow> (case loads s of None \<Rightarrow> Inl JSONDecodeErr | Some j \<Rightarrow> Inr j))"
    and "caches_ok loads (snd (payload_json loads m)) \<and> payload (snd (payload_json loads m)) = payload m"
  using assms by (auto simp: payload_json_def payload_text_def caches_ok_def split: option.splits bind_splits)

lemma perform_ok: "caches_ok loads m \<Longrightarrow> caches_ok loads (perform loads a m) \<and> payload (perform loads a m) = payload m"
  by (cases a) (simp_all add: payload_text_ok payload_json_ok)

lemma performs_ok:
  "caches_ok loads m \<Longrightarrow> caches_ok loads (fold (perform loads) as m) \<and> payload (fold (perform loads) as m) = payload m"
  by (induction "as" arbitrary: m) (simp_all add: perform_ok)

text \<open>
  C31: after any sequence of accesses, \<open>.bytes\<close>, \<open>.text\<close> and \<open>.json()\<close> of a response answer what
  they would without their caches: the payload, its UTF-8 decoding, and \<open>json.loads\<close> of that;
  each raises exactly where the decoding or the parsing fails. Once \<open>.json()\<close> has succeeded it never
  parses again: its answer no longer depends on \<open>json.loads\<close>.
\<close>

theorem accessors_correct:
  "let m = fold (perform loads) accesses (new_service_response request_id content_type bs)
   in payload_bytes m = bs
    \<and> fst (payload_text m) = (case utf8_decode bs of None \<Rightarrow> Inl UnicodeErr | Some s \<Rightarrow> Inr s)
    \<and> fst (payload_json loads m) = (case utf8_decode bs of None \<Rightarrow> Inl UnicodeErr
        | Some s \<Rightarrow> (case loads s of None \<Rightarrow> Inl JSONDecodeErr | Some j \<Rightarrow> Inr j))
    \<and> (\<forall>j loads'. fst (payload_json loads m) = Inr j \<longrightarrow>
          payload_json loads' (snd (payload_json loads m)) = (Inr j, snd (payload_json loads m)))"
proof -
  define m where "m = fold (perform loads) accesses (new_service_response request_id content_type bs)"
  have m: "caches_ok loads m" "payload m = bs"
    using performs_ok [OF caches_ok_fresh(1) [of loads request_id content_type bs]]
    by (simp_all add: m_def new_service_response_def)
  have "payload_json loads' (snd (payload_json loads m)) = (Inr j, snd (payload_json loads m))"
    if "fst (payload_json loads m) = Inr j" for j loads'
    using that by (auto simp: payload_json_def split: option.splits prod.splits sum.splits)
  then show ?thesis
    using payload_text_ok(1) [OF m(1)] payload_json_ok(1) [OF m(1)] m(2)
    by (simp add: payload_bytes_def Let_def flip: m_def)
qed

theorem accessors_correct_witness:
  "let loads = (\<lambda>s. if s = [0x31] then Some (1 :: int) else None);
       m = fold (perform loads) [Text_Access, Json_Access] (new_service_response ''1'' ''text/plain'' [0x31])
   in payload_json (\<lambda>_. None) (snd (payload_json loads m)) = (Inr 1, snd (payload_json loads m))"
proof -
  let ?l = "\<lambda>s. if s = [0x31] then Some (1 :: int) else None"
  let ?m = "fold (perform ?l) [Text_Access, Json_Access] (new_service_response ''1'' ''text/plain'' [0x31])"
  have "utf8_decode [0x31] = Some [0x31]" by code_simp
  then have "fst (payload_json ?l ?m) = Inr 1"
    using accessors_correct [of ?l "[Text_Access, Json_Access]" "''1''" "''text/plain''" "[0x31]"]
    by (simp add: Let_def)
  then show ?thesis
    using accessors_correct [of ?l "[Text_Access, Json_Access]" "''1''" "''text/plain''" "[0x31]"]
    unfolding Let_def by blast
qed

text \<open>
  C32: what one side sends as a \<open>str\<close> is what the other side reads as \<open>.text\<close>, for every string
  that can be encoded, which is every string without surrogates; and a payload that reads as a
  text is exactly the bytes that sending this text puts on the wire.
\<close>

theorem text_round_trip:
  "(to_bytes (Str s) = Inr bs \<longleftrightarrow> fst (payload_text (new_service_response request_id content_type bs)) = Inr s)
   \<and> (to_bytes (Str s) = Inl UnicodeErr \<longleftrightarrow> (\<exists>c \<in> set s. \<not> scalar_value c))"
proof -
  have "utf8_chars s = None \<longleftrightarrow> (\<exists>c \<in> set s. \<not> scalar_value c)"
    by (induction s) auto
  then have "utf8_encode s = None \<longleftrightarrow> (\<exists>c \<in> set s. \<not> scalar_value c)"
    by (simp add: utf8_encode_def)
  moreover have "utf8_encode s = Some bs \<longleftrightarrow> utf8_decode bs = Some s"
    using utf8_decode_encode utf8_encode_decode by blast
  ultimately show ?thesis
    by (cases "utf8_encode s"; cases "utf8_decode bs") (simp_all add: payload_text_def new_service_response_def)
qed

end
