(* ===== verification/Service_Client.thy ===== *)
theory Service_Client
  imports Client_Messages
begin

text \<open>
  \<open>service_client.py\<close>: \<open>ServiceClient.authenticate\<close> and \<open>ServiceConnection\<close>.

  \<^item> \<open>service_authenticate\<close> answers with a connection, or with the error it raises and the session
    it leaves behind.
  \<^item> A request a service has fetched keeps the connection it came from, so connections live in a
    store and a request holds a reference into it: \<open>service_get_request\<close>, \<open>service_send_response\<close>,
    \<open>request_send_response\<close> and \<open>service_close\<close> work on the store.
  \<^item> Shown: what authentication accepts and that it never leaks a session; every branch of
    \<open>get_request\<close>; a closed connection stays silent, also through requests fetched before.
\<close>

section \<open>What both clients share\<close>

fun rstrip_slash :: "string \<Rightarrow> string" where
  "rstrip_slash s = rev (dropWhile (\<lambda>c. c = CHR ''/'') (rev s))"

text \<open>\<open>(base_url or self._settings.base_url).rstrip("/")\<close>.\<close>

definition resolve_base_url :: "string option \<Rightarrow> client_settings \<Rightarrow> string" where
  "resolve_base_url base_url cfg =
     rstrip_slash (case base_url of Some b \<Rightarrow> if b \<noteq> [] then b else cs_base_url cfg | None \<Rightarrow> cs_base_url cfg)"

definition new_session :: session where
  "new_session = \<lparr>ss_headers = [], ss_closed = False\<rparr>"

definition close_session :: "session \<Rightarrow> session" where
  "close_session s = s\<lparr>ss_closed := True\<rparr>"

text \<open>\<open>data[key]\<close> on a decoded document: \<open>None\<close> where it raises \<open>KeyError\<close> or \<open>TypeError\<close>.\<close>

fun subscript :: "json \<Rightarrow> string \<Rightarrow> json option" where
  "subscript (JObj kvs) key = map_of kvs key"
| "subscript _ key = None"

text \<open>
  The first \<open>try\<close> of both \<open>authenticate\<close> methods: the call, the check of the status and the
  decoding of the body. An error leaves with the session closed.
\<close>

definition auth_exchange :: "'w transport \<Rightarrow> client_settings \<Rightarrow> session \<Rightarrow> string \<Rightarrow> (string, json) dict \<Rightarrow> 'w \<Rightarrow>
    (client_error \<times> session + http_reply \<times> json) \<times> 'w" where
  "auth_exchange tr cfg session url auth_request w =
     (case checked_call tr session ''POST'' url (Some (seconds (cs_auth_timeout_ms cfg))) [] []
         (JsonBody (JObj auth_request)) {200} w of
       (Inl e, w) \<Rightarrow> (Inl (e, close_session session), w)
     | (Inr resp, w) \<Rightarrow> (case rp_json resp of
         None \<Rightarrow> (Inl (JSONDecodeErr, close_session session), w)
       | Some data \<Rightarrow> (Inr (resp, data), w)))"

text \<open>The two headers a session gets once it is authenticated.\<close>

definition sign_session :: "session \<Rightarrow> json \<Rightarrow> http_reply \<Rightarrow> session" where
  "sign_session session access_token resp =
     (let session = session\<lparr>ss_headers := AList.update ''Authorization'' (''Bearer '' @ py_str access_token) (ss_headers session)\<rparr>
      in case map_of (rp_headers resp) ''X-Pype-Server-IP'' of
           Some ip \<Rightarrow> if ip \<noteq> [] then session\<lparr>ss_headers := AList.update ''X-Pype-Server-IP'' ip (ss_headers session)\<rparr> else session
         | None \<Rightarrow> session)"

definition malformed :: "json \<Rightarrow> client_error" where
  "malformed data = PypeProtocolError (''malformed auth response: '' @ py_repr data)"

section \<open>ServiceClient.authenticate\<close>

record service_connection =
  svc_base_url :: string
  svc_service_name :: json
  svc_access_token :: json
  svc_server_internal_ip :: "string option"
  svc_session :: session
  svc_settings :: client_settings
  svc_closed :: bool

definition service_authenticate :: "'w transport \<Rightarrow> client_settings \<Rightarrow> string option \<Rightarrow> (string, json) dict \<Rightarrow> 'w \<Rightarrow>
    (client_error \<times> session + service_connection) \<times> 'w" where
  "service_authenticate tr cfg base_url auth_request w =
     (let base = resolve_base_url base_url cfg; session = new_session
      in case auth_exchange tr cfg session (base @ ''/auth/service'') auth_request w of
           (Inl err, w) \<Rightarrow> (Inl err, w)
         | (Inr (resp, data), w) \<Rightarrow>
             (case (subscript data ''access_token'', subscript data ''name'') of
               (Some access_token, Some name) \<Rightarrow>
                 (Inr \<lparr>svc_base_url = base, svc_service_name = name, svc_access_token = access_token,
                    svc_server_internal_ip = map_of (rp_headers resp) ''X-Pype-Server-IP'',
                    svc_session = sign_session session access_token resp, svc_settings = cfg,
                    svc_closed = False\<rparr>, w)
             | _ \<Rightarrow> (Inl (malformed data, close_session session), w)))"

section \<open>ServiceConnection\<close>

type_synonym connections = "service_connection list"
type_synonym 'j fetched = "('j, nat) client_request"

definition service_ensure_open :: "service_connection \<Rightarrow> client_error option" where
  "service_ensure_open c = (if svc_closed c then Some (RuntimeErr ''ServiceConnection is closed'') else None)"

definition timeout_param :: "int option \<Rightarrow> (string, param) dict" where
  "timeout_param timeout = (case timeout of None \<Rightarrow> [] | Some ms \<Rightarrow> [(''timeout'', PInt ms)])"

definition service_get_request :: "'w transport \<Rightarrow> connections \<Rightarrow> nat \<Rightarrow> int option \<Rightarrow> 'w \<Rightarrow>
    (client_error + 'j fetched) \<times> 'w" where
  "service_get_request tr conns self timeout w =
     (let c = conns ! self in
      case service_ensure_open c of
        Some e \<Rightarrow> (Inl e, w)
      | None \<Rightarrow>
        (case checked_call tr (svc_session c) ''GET'' (svc_base_url c @ ''/services/'' @ py_str (svc_service_name c))
            (http_timeout_seconds timeout (cs_network_buffer_ms (svc_settings c))) (timeout_param timeout) [] NoBody {200, 204} w of
          (Inl e, w) \<Rightarrow> (Inl e, w)
        | (Inr resp, w) \<Rightarrow>
            if rp_status resp = 204
            then (Inl (PypeTimeoutError (''no requests available for service '' @ py_repr (svc_service_name c) @ '' within timeout'')), w)
            else (case map_of (rp_headers resp) ''X-Pype-Client-Id'' of
                None \<Rightarrow> (Inl (PypeProtocolError (''missing X-Pype-* header: '' @ repr_str ''x-pype-client-id'')), w)
              | Some client_id \<Rightarrow> (case map_of (rp_headers resp) ''X-Pype-Request-Id'' of
                    None \<Rightarrow> (Inl (PypeProtocolError (''missing X-Pype-* header: '' @ repr_str ''x-pype-request-id'')), w)
                  | Some request_id \<Rightarrow>
                      (Inr (new_client_request client_id request_id
                         (case map_of (rp_headers resp) ''Content-Type'' of Some t \<Rightarrow> t | None \<Rightarrow> ''application/octet-stream'')
                         (rp_content resp) (svc_service_name c) self), w)))))"

definition service_send_response :: "'w transport \<Rightarrow> connections \<Rightarrow> nat \<Rightarrow> 'j fetched \<Rightarrow> str_or_bytes \<Rightarrow> string \<Rightarrow>
    int option \<Rightarrow> 'w \<Rightarrow> (client_error + unit) \<times> 'w" where
  "service_send_response tr conns self for_request response content_type timeout w =
     (let c = conns ! self in
      case service_ensure_open c of
        Some e \<Rightarrow> (Inl e, w)
      | None \<Rightarrow> (case to_bytes response of
          Inl e \<Rightarrow> (Inl e, w)
        | Inr body \<Rightarrow>
          (case checked_call tr (svc_session c) ''POST'' (svc_base_url c @ ''/clients/'' @ cr_client_id for_request)
              (http_timeout_seconds timeout (cs_network_buffer_ms (svc_settings c)))
              ((''request_id'', PStr (cr_request_id for_request)) # timeout_param timeout)
              [(''Content-Type'', content_type)] (DataBody body) {202} w of
            (Inl e, w) \<Rightarrow> (Inl e, w)
          | (Inr _, w) \<Rightarrow> (Inr (), w))))"

text \<open>\<open>ClientRequest.send_response\<close>, through the request's own connection.\<close>

definition request_send_response :: "'w transport \<Rightarrow> connections \<Rightarrow> 'j fetched \<Rightarrow> str_or_bytes \<Rightarrow> string \<Rightarrow>
    int option \<Rightarrow> 'w \<Rightarrow> (client_error + unit) \<times> 'w" where
  "request_send_response tr conns req response content_type timeout w =
     service_send_response tr conns (cr_connection req) req response content_type timeout w"

definition service_close :: "connections \<Rightarrow> nat \<Rightarrow> connections" where
  "service_close conns self =
     (let c = conns ! self in
      if svc_closed c then conns
      else conns[self := c\<lparr>svc_closed := True, svc_session := close_session (svc_session c)\<rparr>])"

text \<open>The context manager: \<open>__enter__\<close> gives the connection itself, \<open>__exit__\<close> closes it.\<close>

definition service_enter :: "connections \<Rightarrow> nat \<Rightarrow> nat" where
  "service_enter conns self = self"

definition service_exit :: "connections \<Rightarrow> nat \<Rightarrow> client_error option \<Rightarrow> connections" where
  "service_exit conns self exc = service_close conns self"

section \<open>Authentication\<close>

lemma ss_closed_close [simp]: "ss_closed (close_session s) = True" "ss_closed new_session = False"
  by (simp_all add: close_session_def new_session_def)

lemma sign_session_simps [simp]:
  "ss_closed (sign_session s token resp) = ss_closed s"
  "map_of (ss_headers (sign_session s token resp)) ''Authorization'' = Some (''Bearer '' @ py_str token)"
  by (auto simp: sign_session_def Let_def dict_simps split: option.splits)

text \<open>The call \<open>authenticate\<close> makes, and what comes of its answer.\<close>

definition auth_call :: "client_settings \<Rightarrow> string \<Rightarrow> (string, json) dict \<Rightarrow> http_call" where
  "auth_call cfg url auth_request = \<lparr>hc_session_headers = [], hc_method = ''POST'', hc_url = url,
     hc_timeout = Some (seconds (cs_auth_timeout_ms cfg)), hc_params = [], hc_headers = [],
     hc_body = JsonBody (JObj auth_request)\<rparr>"

lemma auth_exchange_send:
  "auth_exchange tr cfg new_session url auth_request w =
     (case send tr (auth_call cfg url auth_request) w of (oc, w') \<Rightarrow>
        ((case verdict ''POST'' url {200} oc of
            Inl e \<Rightarrow> Inl (e, close_session new_session)
          | Inr resp \<Rightarrow> (case rp_json resp of
              None \<Rightarrow> Inl (JSONDecodeErr, close_session new_session) | Some data \<Rightarrow> Inr (resp, data))), w'))"
  by (auto simp: auth_exchange_def checked_call_verdict auth_call_def new_session_def split: prod.splits sum.splits option.splits)

text \<open>
  C27: a service signs in with exactly one call, and the result is a connection if and only if the
  server answered 200 with a JSON object that has both \<open>access_token\<close> and \<open>name\<close>; the connection
  is open, speaks for the name the server answered and carries the token as its bearer header. On
  every other outcome (timeout, network error, any other status, undecodable body, missing field,
  a body that is no object) the error leaves with the session closed.
\<close>

theorem service_authenticate_correct:
  fixes tr cfg base_url auth_request w
  shows "let url = resolve_base_url base_url cfg @ ''/auth/service'';
      (outcome, w') = send tr (auth_call cfg url auth_request) w;
      (result, w'') = service_authenticate tr cfg base_url auth_request w
    in w'' = w'
     \<and> (\<forall>e s. result = Inl (e, s) \<longrightarrow> ss_closed s)
     \<and> (\<forall>token name. (\<exists>c. result = Inr c \<and> svc_access_token c = token \<and> svc_service_name c = name) \<longleftrightarrow>
          (\<exists>resp data. outcome = Answer resp \<and> rp_status resp = 200 \<and> rp_json resp = Some data
             \<and> subscript data ''access_token'' = Some token \<and> subscript data ''name'' = Some name))
     \<and> (\<forall>c. result = Inr c \<longrightarrow> \<not> svc_closed c \<and> \<not> ss_closed (svc_session c)
          \<and> map_of (ss_headers (svc_session c)) ''Authorization'' = Some (''Bearer '' @ py_str (svc_access_token c)))"
proof -
  define url where "url = resolve_base_url base_url cfg @ ''/auth/service''"
  obtain oc w' where send: "send tr (auth_call cfg url auth_request) w = (oc, w')" by fastforce
  show ?thesis
  proof (cases "verdict ''POST'' url {200} oc")
    case (Inl e)
    then have "\<And>resp. oc = Answer resp \<Longrightarrow> rp_status resp \<noteq> 200"
      using verdict_Inr [of "''POST''" url "{200}" oc] by auto
    with Inl show ?thesis
      by (auto simp: send auth_exchange_send service_authenticate_def Let_def simp flip: url_def)
  next
    case (Inr resp)
    then have "oc = Answer resp" "rp_status resp = 200" by (simp_all add: verdict_Inr)
    with Inr show ?thesis
      by (auto simp: send auth_exchange_send service_authenticate_def Let_def
          simp flip: url_def split: option.splits)
  qed
qed

text \<open>The reply every sign-in example gets.\<close>

definition demo_reply :: "int \<Rightarrow> (string, string) dict \<Rightarrow> json option \<Rightarrow> http_reply" where
  "demo_reply st hs v = \<lparr>rp_status = st, rp_headers = hs, rp_content = [], rp_text = [], rp_json = v\<rparr>"

definition demo_transport :: "http_reply \<Rightarrow> nat transport" where
  "demo_transport resp = \<lparr>send = (\<lambda>c n. (Answer resp, Suc n)), read_time = (\<lambda>n. (of_nat n, Suc n))\<rparr>"

theorem service_authenticate_correct_witness:
  "\<exists>c. fst (service_authenticate (demo_transport (demo_reply 200 []
        (Some (JObj [(''access_token'', JStr ''t''), (''name'', JStr ''echo'')]))))
        default_client_settings None [(''service_name'', JStr ''echo'')] 0) = Inr c
     \<and> svc_service_name c = JStr ''echo'' \<and> svc_access_token c = JStr ''t''
     \<and> map_of (ss_headers (svc_session c)) ''Authorization'' = Some (''Bearer '' @ py_str (svc_access_token c))"
  (is "\<exists>c. fst ?r = Inr c \<and> _ c")
proof -
  let ?tr = "demo_transport (demo_reply 200 [] (Some (JObj [(''access_token'', JStr ''t''), (''name'', JStr ''echo'')])))"
  obtain r w' where r: "?r = (r, w')" by fastforce
  have send: "send ?tr c 0 = (Answer (demo_reply 200 [] (Some (JObj [(''access_token'', JStr ''t''), (''name'', JStr ''echo'')]))), 1)" for c
    by (simp add: demo_transport_def)
  note facts = service_authenticate_correct [of None default_client_settings ?tr "[(''service_name'', JStr ''echo'')]" 0,
      unfolded Let_def r send prod.case, THEN conjunct2, THEN conjunct2]
  have "\<exists>c. r = Inr c \<and> svc_access_token c = JStr ''t'' \<and> svc_service_name c = JStr ''echo''"
    using facts [THEN conjunct1, THEN spec, of "JStr ''t''", THEN spec, of "JStr ''echo''"]
    by (simp add: demo_reply_def)
  with facts [THEN conjunct2] show ?thesis unfolding r by (metis fst_conv)
qed

definition demo_connection :: service_connection where
  "demo_connection = \<lparr>svc_base_url = ''http://localhost:8000'', svc_service_name = JStr ''echo'', svc_access_token = JStr ''t'',
     svc_server_internal_ip = None, svc_session = new_session, svc_settings = default_client_settings, svc_closed = False\<rparr>"

section \<open>Fetching a request\<close>

definition service_get_call :: "service_connection \<Rightarrow> int option \<Rightarrow> http_call" where
  "service_get_call c timeout = \<lparr>hc_session_headers = ss_headers (svc_session c), hc_method = ''GET'',
     hc_url = svc_base_url c @ ''/services/'' @ py_str (svc_service_name c),
     hc_timeout = http_timeout_seconds timeout (cs_network_buffer_ms (svc_settings c)),
     hc_params = timeout_param timeout, hc_headers = [], hc_body = NoBody\<rparr>"

abbreviation service_get_url :: "service_connection \<Rightarrow> string" where
  "service_get_url c \<equiv> svc_base_url c @ ''/services/'' @ py_str (svc_service_name c)"

definition fetched_from :: "service_connection \<Rightarrow> nat \<Rightarrow> http_reply \<Rightarrow> client_error + 'j fetched" where
  "fetched_from c self resp =
     (if rp_status resp = 204
      then Inl (PypeTimeoutError (''no requests available for service '' @ py_repr (svc_service_name c) @ '' within timeout''))
      else case (map_of (rp_headers resp) ''X-Pype-Client-Id'', map_of (rp_headers resp) ''X-Pype-Request-Id'') of
          (None, _) \<Rightarrow> Inl (PypeProtocolError (''missing X-Pype-* header: '' @ repr_str ''x-pype-client-id''))
        | (_, None) \<Rightarrow> Inl (PypeProtocolError (''missing X-Pype-* header: '' @ repr_str ''x-pype-request-id''))
        | (Some client_id, Some request_id) \<Rightarrow> Inr (new_client_request client_id request_id
            (case map_of (rp_headers resp) ''Content-Type'' of Some t \<Rightarrow> t | None \<Rightarrow> ''application/octet-stream'')
            (rp_content resp) (svc_service_name c) self))"

lemma service_get_request_open:
  assumes "\<not> svc_closed (conns ! self)"
  shows "service_get_request tr conns self timeout w =
    (case send tr (service_get_call (conns ! self) timeout) w of (oc, w') \<Rightarrow>
      (case verdict ''GET'' (service_get_url (conns ! self)) {200, 204} oc of
         Inl e \<Rightarrow> Inl e | Inr resp \<Rightarrow> fetched_from (conns ! self) self resp, w'))"
  using assms unfolding service_get_request_def Let_def checked_call_verdict service_get_call_def service_ensure_open_def fetched_from_def
  by (auto split: prod.splits sum.splits option.splits)

text \<open>
  C28: \<open>get_request\<close> on an open connection makes exactly one call, to its own service's path with
  exactly the caller's timeout, and returns a request if and only if the server answered 200 with
  both routing headers; the request carries the ids, the content type and the payload of that
  answer and its own connection, with nothing decoded yet. An empty queue (204) and a
  server or socket timeout are \<open>PypeTimeoutError\<close>s; every other failure is a \<open>PypeClientError\<close> too.
\<close>

theorem service_get_request_correct:
  assumes "\<not> svc_closed (conns ! self)"
  shows "let (outcome, w') = send tr (service_get_call (conns ! self) timeout) w;
      (result :: client_error + 'j fetched, w'') = service_get_request tr conns self timeout w
    in w'' = w'
     \<and> (\<forall>m. result = Inr m \<longleftrightarrow> (\<exists>resp cid rid. outcome = Answer resp \<and> rp_status resp = 200
          \<and> map_of (rp_headers resp) ''X-Pype-Client-Id'' = Some cid \<and> map_of (rp_headers resp) ''X-Pype-Request-Id'' = Some rid
          \<and> m = \<lparr>payload = rp_content resp, text_cache = None, json_cache = None, cr_client_id = cid,
              cr_request_id = rid,
              cr_content_type = (case map_of (rp_headers resp) ''Content-Type'' of Some t \<Rightarrow> t | None \<Rightarrow> ''application/octet-stream''),
              cr_service_name = svc_service_name (conns ! self), cr_connection = self\<rparr>))
     \<and> ((\<exists>e. result = Inl (PypeTimeoutError e)) \<longleftrightarrow>
          outcome = RequestTimeout \<or> (\<exists>resp. outcome = Answer resp \<and> rp_status resp \<in> {204, 503}))
     \<and> (\<forall>e. result = Inl e \<longrightarrow> is_pype_error e)"
proof -
  let ?c = "conns ! self"
  obtain oc w' where send: "send tr (service_get_call ?c timeout) w = (oc, w')" by fastforce
  note get = service_get_request_open [OF assms] send Let_def fetched_from_def new_client_request_def
  show ?thesis
  proof (cases "verdict ''GET'' (service_get_url ?c) {200, 204} oc")
    case (Inl e)
    moreover have "is_pype_error e" using Inl by (rule verdict_pype)
    ultimately show ?thesis
      using verdict_Inr [of "''GET''" "service_get_url ?c" "{200, 204}" oc]
        verdict_timeout [of "''GET''" "service_get_url ?c" "{200, 204}" oc]
      by (auto simp: get simp del: append.simps)
  next
    case (Inr resp)
    then have "oc = Answer resp" "rp_status resp \<in> {200, 204}" by (simp_all add: verdict_Inr)
    with Inr show ?thesis
      by (auto simp: get simp del: append.simps split: option.splits)
  qed
qed

theorem service_get_request_correct_witness:
  "fst (service_get_request (demo_transport (demo_reply 200
        [(''X-Pype-Client-Id'', ''c''), (''X-Pype-Request-Id'', ''1'')] None)) [demo_connection] 0 (Some 10) 0)
      = Inr (\<lparr>payload = [], text_cache = None, json_cache = None, cr_client_id = ''c'', cr_request_id = ''1'',
          cr_content_type = ''application/octet-stream'', cr_service_name = JStr ''echo'', cr_connection = 0\<rparr> :: int fetched)"
  using service_get_request_correct [where ?'j = int and conns = "[demo_connection]" and self = 0 and timeout = "Some 10" and w = 0
      and tr = "demo_transport (demo_reply 200 [(''X-Pype-Client-Id'', ''c''), (''X-Pype-Request-Id'', ''1'')] None)"]
  by (auto simp: demo_transport_def demo_reply_def demo_connection_def Let_def split: prod.splits)

section \<open>Closing\<close>

text \<open>
  C30: closing a connection closes its session and silences it: fetching fails with
  \<open>RuntimeError\<close> without touching the network, and so does answering any request that was fetched
  through it before. Closing again changes nothing, and the other connections are unaffected.
\<close>

theorem service_close_correct:
  assumes "self < length conns"
  shows "let conns' = service_close conns self in
      svc_closed (conns' ! self)
    \<and> (ss_closed (svc_session (conns' ! self)) \<or> svc_closed (conns ! self))
    \<and> service_close conns' self = conns'
    \<and> service_get_request tr conns' self timeout w = (Inl (RuntimeErr ''ServiceConnection is closed'') :: _ + 'j fetched, w)
    \<and> (\<forall>req :: 'j fetched. cr_connection req = self \<longrightarrow>
         request_send_response tr conns' req response content_type timeout w =
           (Inl (RuntimeErr ''ServiceConnection is closed''), w))
    \<and> (\<forall>other. other \<noteq> self \<longrightarrow> conns' ! other = conns ! other)"
  using assms
  by (simp add: service_close_def Let_def service_get_request_def service_ensure_open_def
      request_send_response_def service_send_response_def)

theorem service_close_correct_witness:
  "request_send_response (demo_transport (demo_reply 202 [] None)) (service_close [demo_connection] 0)
     (new_client_request ''c'' ''1'' ''text/plain'' [] (JStr ''echo'') 0 :: int fetched) (Bytes []) ''text/plain'' None 5
   = (Inl (RuntimeErr ''ServiceConnection is closed''), 5)"
  using service_close_correct [where ?'j = int and self = 0 and conns = "[demo_connection]"
      and tr = "demo_transport (demo_reply 202 [] None)" and w = 5 and response = "Bytes []"
      and content_type = "''text/plain''" and timeout = None]
  by (simp add: Let_def new_client_request_def)

end
