(* ===== verification/Pype_Client.thy ===== *)
theory Pype_Client
  imports Service_Client
begin

text \<open>
  \<open>pype_client.py\<close>: \<open>PypeClient.authenticate\<close>, \<open>ClientConnection\<close> and \<open>_Deadline\<close>.

  A method takes the connection and the world and returns its result or the error it raises,
  with the connection as it leaves it (a minted id and cached responses survive an error). The
  polling loops can run forever, so what contains one is an \<open>option\<close>: \<open>None\<close> is not returning.
  \<open>set(request_ids)\<close> is \<open>remdups\<close>: Python leaves the iteration order of a set open, and nothing
  below depends on it.
\<close>

section \<open>_Deadline\<close>

definition new_deadline :: "'w transport \<Rightarrow> int option \<Rightarrow> 'w \<Rightarrow> rat option \<times> 'w" where
  "new_deadline tr timeout_ms w = (case timeout_ms of
     None \<Rightarrow> (None, w)
   | Some ms \<Rightarrow> (case read_time tr w of (t, w) \<Rightarrow> (Some (py_add t (seconds ms)), w)))"

definition deadline_remaining_ms :: "'w transport \<Rightarrow> rat option \<Rightarrow> 'w \<Rightarrow> int option \<times> 'w" where
  "deadline_remaining_ms tr deadline_monotonic w = (case deadline_monotonic of
     None \<Rightarrow> (None, w)
   | Some d \<Rightarrow> (case read_time tr w of (t, w) \<Rightarrow> (Some (ms_until d t), w)))"

section \<open>PypeClient.authenticate\<close>

record 'j client_connection =
  cn_base_url :: string
  cn_name :: json
  cn_client_id :: string
  cn_access_token :: json
  cn_server_internal_ip :: "string option"
  cn_session :: session
  cn_settings :: client_settings
  cn_closed :: bool
  cn_next_request_id :: int
  cn_cache :: "(string, 'j service_response) dict"

definition client_authenticate :: "'w transport \<Rightarrow> client_settings \<Rightarrow> string option \<Rightarrow> (string, json) dict \<Rightarrow> 'w \<Rightarrow>
    (client_error \<times> session + 'j client_connection) \<times> 'w" where
  "client_authenticate tr cfg base_url auth_request w =
     (let base = resolve_base_url base_url cfg; session = new_session
      in case auth_exchange tr cfg session (base @ ''/auth/client'') auth_request w of
           (Inl err, w) \<Rightarrow> (Inl err, w)
         | (Inr (resp, data), w) \<Rightarrow>
             (case (subscript data ''access_token'', as_str (subscript data ''client_id''), subscript data ''name'') of
               (Some access_token, Some client_id, Some name) \<Rightarrow>
                 if client_id = [] then (Inl (malformed data, close_session session), w)
                 else (Inr \<lparr>cn_base_url = base, cn_name = name, cn_client_id = client_id, cn_access_token = access_token,
                    cn_server_internal_ip = map_of (rp_headers resp) ''X-Pype-Server-IP'',
                    cn_session = sign_session session access_token resp, cn_settings = cfg,
                    cn_closed = False, cn_next_request_id = 0, cn_cache = []\<rparr>, w)
             | _ \<Rightarrow> (Inl (malformed data, close_session session), w)))"

section \<open>Sending\<close>

definition client_ensure_open :: "'j client_connection \<Rightarrow> client_error option" where
  "client_ensure_open c = (if cn_closed c then Some (RuntimeErr ''ClientConnection is closed'') else None)"

definition mint_request_id :: "'j client_connection \<Rightarrow> string \<times> 'j client_connection" where
  "mint_request_id c = (let n = cn_next_request_id c + 1 in (py_str_int n, c\<lparr>cn_next_request_id := n\<rparr>))"

definition send_request :: "'w transport \<Rightarrow> string \<Rightarrow> str_or_bytes \<Rightarrow> string \<Rightarrow> int option \<Rightarrow>
    'j client_connection \<Rightarrow> 'w \<Rightarrow> (client_error + string) \<times> 'j client_connection \<times> 'w" where
  "send_request tr service_name request content_type timeout c w =
     (case client_ensure_open c of
       Some e \<Rightarrow> (Inl e, c, w)
     | None \<Rightarrow> (case mint_request_id c of (request_id, c) \<Rightarrow>
         (case to_bytes request of
           Inl e \<Rightarrow> (Inl e, c, w)
         | Inr body \<Rightarrow>
             (case checked_call tr (cn_session c) ''POST'' (cn_base_url c @ ''/services/'' @ service_name)
                 (http_timeout_seconds timeout (cs_network_buffer_ms (cn_settings c)))
                 ((''request_id'', PStr request_id) # timeout_param timeout)
                 [(''Content-Type'', content_type)] (DataBody body) {202} w of
               (Inl e, w) \<Rightarrow> (Inl e, c, w)
             | (Inr _, w) \<Rightarrow> (Inr request_id, c, w)))))"

section \<open>Polling\<close>

definition response_of :: "string \<Rightarrow> http_reply \<Rightarrow> string \<Rightarrow> 'j service_response" where
  "response_of request_id resp default_type = new_service_response request_id
     (case map_of (rp_headers resp) ''Content-Type'' of Some t \<Rightarrow> t | None \<Rightarrow> default_type) (rp_content resp)"

definition missing_request_id :: client_error where
  "missing_request_id = PypeProtocolError ''missing X-Pype-Request-Id header on 200 response''"

definition poll_one :: "'w transport \<Rightarrow> 'j client_connection \<Rightarrow> int option \<Rightarrow> 'w \<Rightarrow>
    (client_error + 'j service_response option) \<times> 'w" where
  "poll_one tr c remaining_ms w =
     (if (case remaining_ms of None \<Rightarrow> False | Some ms \<Rightarrow> ms < 0)
      then (Inl (PypeTimeoutError ''local deadline elapsed''), w)
      else (case checked_call tr (cn_session c) ''GET'' (cn_base_url c @ ''/clients/'' @ cn_client_id c)
          (http_timeout_seconds remaining_ms (cs_network_buffer_ms (cn_settings c)))
          (timeout_param remaining_ms) [] NoBody {200, 204} w of
        (Inl e, w) \<Rightarrow> (Inl e, w)
      | (Inr resp, w) \<Rightarrow>
          if rp_status resp = 204 then (Inr None, w)
          else (case map_of (rp_headers resp) ''X-Pype-Request-Id'' of
              None \<Rightarrow> (Inl missing_request_id, w)
            | Some request_id \<Rightarrow> (Inr (Some (response_of request_id resp ''application/json'')), w))))"

definition cache_response :: "'j service_response \<Rightarrow> 'j client_connection \<Rightarrow> 'j client_connection" where
  "cache_response resp c = c\<lparr>cn_cache := AList.update (sr_request_id resp) resp (cn_cache c)\<rparr>"

definition queue_empty :: client_error where
  "queue_empty = PypeTimeoutError ''server queue empty within timeout''"

partial_function (option) get_response_loop :: "'w transport \<Rightarrow> string \<Rightarrow> bool \<Rightarrow> rat option \<Rightarrow>
    'j client_connection \<Rightarrow> 'w \<Rightarrow> ((client_error + 'j service_response) \<times> 'j client_connection \<times> 'w) option" where
  "get_response_loop tr request_id forever deadline c w =
     (case deadline_remaining_ms tr deadline w of (remaining, w) \<Rightarrow>
        (case poll_one tr c remaining w of (polled, w) \<Rightarrow>
           (case polled of
             Inl e \<Rightarrow> Some (Inl e, c, w)
           | Inr None \<Rightarrow>
               if \<not> forever then Some (Inl queue_empty, c, w)
               else get_response_loop tr request_id forever deadline c w
           | Inr (Some resp) \<Rightarrow>
               if sr_request_id resp = request_id then Some (Inr resp, c, w)
               else get_response_loop tr request_id forever deadline (cache_response resp c) w)))"

declare get_response_loop.simps [code]

definition get_response :: "'w transport \<Rightarrow> string \<Rightarrow> int option \<Rightarrow> 'j client_connection \<Rightarrow> 'w \<Rightarrow>
    ((client_error + 'j service_response) \<times> 'j client_connection \<times> 'w) option" where
  "get_response tr request_id timeout c w =
     (case client_ensure_open c of
       Some e \<Rightarrow> Some (Inl e, c, w)
     | None \<Rightarrow> (case map_of (cn_cache c) request_id of
         Some cached \<Rightarrow> Some (Inr cached, c\<lparr>cn_cache := AList.delete request_id (cn_cache c)\<rparr>, w)
       | None \<Rightarrow> (case new_deadline tr timeout w of (deadline, w) \<Rightarrow>
           get_response_loop tr request_id (timeout = None) deadline c w)))"

section \<open>A call in one round trip\<close>

text \<open>Phase 2, after the server has taken the request without the matching response.\<close>

definition call_fallback :: "'w transport \<Rightarrow> rat option \<Rightarrow> string \<Rightarrow>
    'j client_connection \<Rightarrow> 'w \<Rightarrow> ((client_error + 'j service_response) \<times> 'j client_connection \<times> 'w) option" where
  "call_fallback tr deadline request_id c w =
     (case deadline_remaining_ms tr deadline w of (remaining_ms, w) \<Rightarrow>
       (case remaining_ms of
         None \<Rightarrow> get_response tr request_id None c w
       | Some ms \<Rightarrow>
           if ms < 0 then Some (Inl (PypeTimeoutError ''local deadline elapsed before response arrived''), c, w)
           else get_response tr request_id (Some ms) c w))"

definition client_call :: "'w transport \<Rightarrow> string \<Rightarrow> str_or_bytes \<Rightarrow> string \<Rightarrow> int option \<Rightarrow>
    'j client_connection \<Rightarrow> 'w \<Rightarrow> ((client_error + 'j service_response) \<times> 'j client_connection \<times> 'w) option" where
  "client_call tr service_name request content_type timeout c w =
     (case client_ensure_open c of
       Some e \<Rightarrow> Some (Inl e, c, w)
     | None \<Rightarrow> (case mint_request_id c of (request_id, c) \<Rightarrow>
       (case to_bytes request of
         Inl e \<Rightarrow> Some (Inl e, c, w)
       | Inr body \<Rightarrow>
         (case new_deadline tr timeout w of (deadline, w) \<Rightarrow>
         (case deadline_remaining_ms tr deadline w of (remaining_ms, w) \<Rightarrow>
         (case checked_call tr (cn_session c) ''POST'' (cn_base_url c @ ''/services/'' @ service_name)
             (http_timeout_seconds remaining_ms (cs_network_buffer_ms (cn_settings c)))
             ([(''request_id'', PStr request_id), (''block'', PInt 1)] @ timeout_param (map_option (max 0) remaining_ms))
             [(''Content-Type'', content_type)] (DataBody body) {200, 202} w of
           (Inl e, w) \<Rightarrow> Some (Inl e, c, w)
         | (Inr resp, w) \<Rightarrow>
             if rp_status resp = 200
             then (case map_of (rp_headers resp) ''X-Pype-Request-Id'' of
                 None \<Rightarrow> Some (Inl missing_request_id, c, w)
               | Some returned_request_id \<Rightarrow>
                   let response_object = response_of returned_request_id resp ''application/octet-stream''
                   in if returned_request_id = request_id then Some (Inr response_object, c, w)
                      else call_fallback tr deadline request_id (cache_response response_object c) w)
             else call_fallback tr deadline request_id c w))))))"

section \<open>Scatter and gather\<close>

partial_function (option) loop_until_loop :: "'w transport \<Rightarrow> ((string, 'j service_response) dict \<Rightarrow> bool) \<Rightarrow> bool \<Rightarrow>
    rat option \<Rightarrow> 'j client_connection \<Rightarrow> 'w \<Rightarrow> (client_error option \<times> 'j client_connection \<times> 'w) option" where
  "loop_until_loop tr is_done forever deadline c w =
     (case deadline_remaining_ms tr deadline w of (remaining, w) \<Rightarrow>
        (case poll_one tr c remaining w of (polled, w) \<Rightarrow>
           (case polled of
             Inl e \<Rightarrow> Some (Some e, c, w)
           | Inr None \<Rightarrow>
               if \<not> forever then Some (Some queue_empty, c, w)
               else loop_until_loop tr is_done forever deadline c w
           | Inr (Some resp) \<Rightarrow>
               if is_done (cn_cache (cache_response resp c)) then Some (None, cache_response resp c, w)
               else loop_until_loop tr is_done forever deadline (cache_response resp c) w)))"

declare loop_until_loop.simps [code]

definition loop_until :: "'w transport \<Rightarrow> ((string, 'j service_response) dict \<Rightarrow> bool) \<Rightarrow> int option \<Rightarrow>
    'j client_connection \<Rightarrow> 'w \<Rightarrow> (client_error option \<times> 'j client_connection \<times> 'w) option" where
  "loop_until tr is_done timeout c w =
     (if is_done (cn_cache c) then Some (None, c, w)
      else (case new_deadline tr timeout w of (deadline, w) \<Rightarrow>
        loop_until_loop tr is_done (timeout = None) deadline c w))"

fun pop_matching :: "string list \<Rightarrow> 'j client_connection \<Rightarrow> (string, 'j service_response) dict \<times> 'j client_connection" where
  "pop_matching [] c = ([], c)"
| "pop_matching (rid # wanted) c = (case map_of (cn_cache c) rid of
     None \<Rightarrow> pop_matching wanted c
   | Some resp \<Rightarrow> (case pop_matching wanted (c\<lparr>cn_cache := AList.delete rid (cn_cache c)\<rparr>) of
       (out, c) \<Rightarrow> ((rid, resp) # out, c)))"

text \<open>What the three methods share after their checks: wait, then take what matches.\<close>

definition gather :: "'w transport \<Rightarrow> (string list \<Rightarrow> (string, 'j service_response) dict \<Rightarrow> bool) \<Rightarrow> string list \<Rightarrow> int option \<Rightarrow>
    'j client_connection \<Rightarrow> 'w \<Rightarrow>
    ((client_error + (string, 'j service_response) dict) \<times> 'j client_connection \<times> 'w) option" where
  "gather tr is_done request_ids timeout c w =
     (let wanted = remdups request_ids in
      case loop_until tr (is_done wanted) timeout c w of
        None \<Rightarrow> None
      | Some (Some e, c, w) \<Rightarrow> Some (Inl e, c, w)
      | Some (None, c, w) \<Rightarrow> (case pop_matching wanted c of (out, c) \<Rightarrow> Some (Inr out, c, w)))"

definition any_cached :: "string list \<Rightarrow> (string, 'v) dict \<Rightarrow> bool" where
  "any_cached wanted cache \<longleftrightarrow> list_ex (\<lambda>rid. map_of cache rid \<noteq> None) wanted"

definition all_cached :: "string list \<Rightarrow> (string, 'v) dict \<Rightarrow> bool" where
  "all_cached wanted cache \<longleftrightarrow> list_all (\<lambda>rid. map_of cache rid \<noteq> None) wanted"

definition quorum_cached :: "int \<Rightarrow> string list \<Rightarrow> (string, 'v) dict \<Rightarrow> bool" where
  "quorum_cached quorum wanted cache \<longleftrightarrow> quorum \<le> int (length (filter (\<lambda>rid. map_of cache rid \<noteq> None) wanted))"

definition no_request_ids :: client_error where
  "no_request_ids = ValueErr ''at least one request_id is required''"

definition get_any_responses :: "'w transport \<Rightarrow> string list \<Rightarrow> int option \<Rightarrow> 'j client_connection \<Rightarrow> 'w \<Rightarrow>
    ((client_error + (string, 'j service_response) dict) \<times> 'j client_connection \<times> 'w) option" where
  "get_any_responses tr request_ids timeout c w =
     (case client_ensure_open c of
       Some e \<Rightarrow> Some (Inl e, c, w)
     | None \<Rightarrow>
         if request_ids = [] then Some (Inl no_request_ids, c, w)
         else gather tr any_cached request_ids timeout c w)"

definition get_all_responses :: "'w transport \<Rightarrow> string list \<Rightarrow> int option \<Rightarrow> 'j client_connection \<Rightarrow> 'w \<Rightarrow>
    ((client_error + (string, 'j service_response) dict) \<times> 'j client_connection \<times> 'w) option" where
  "get_all_responses tr request_ids timeout c w =
     (case client_ensure_open c of
       Some e \<Rightarrow> Some (Inl e, c, w)
     | None \<Rightarrow>
         if request_ids = [] then Some (Inl no_request_ids, c, w)
         else gather tr all_cached request_ids timeout c w)"

definition get_response_quorum :: "'w transport \<Rightarrow> int \<Rightarrow> string list \<Rightarrow> int option \<Rightarrow> 'j client_connection \<Rightarrow> 'w \<Rightarrow>
    ((client_error + (string, 'j service_response) dict) \<times> 'j client_connection \<times> 'w) option" where
  "get_response_quorum tr quorum request_ids timeout c w =
     (case client_ensure_open c of
       Some e \<Rightarrow> Some (Inl e, c, w)
     | None \<Rightarrow>
         if request_ids = [] then Some (Inl no_request_ids, c, w)
         else if quorum < 1 \<or> int (length request_ids) < quorum
         then Some (Inl (ValueErr (''quorum must be in [1, '' @ py_str_int (int (length request_ids)) @ '']; got '' @ py_str_int quorum)), c, w)
         else gather tr (quorum_cached quorum) request_ids timeout c w)"

section \<open>Lifecycle\<close>

text \<open>Whatever the server answers to the logoff, \<open>close\<close> ends normally; the warnings it logs are not modelled.\<close>

definition client_close :: "'w transport \<Rightarrow> 'j client_connection \<Rightarrow> 'w \<Rightarrow> 'j client_connection \<times> 'w" where
  "client_close tr c w =
     (if cn_closed c then (c, w)
      else (case send tr \<lparr>hc_session_headers = ss_headers (cn_session c), hc_method = ''DELETE'',
          hc_url = cn_base_url c @ ''/auth/client'', hc_timeout = Some (seconds (cs_auth_timeout_ms (cn_settings c))),
          hc_params = [], hc_headers = [], hc_body = NoBody\<rparr> w of
        (_, w) \<Rightarrow> (c\<lparr>cn_closed := True, cn_session := close_session (cn_session c)\<rparr>, w)))"

text \<open>
  The context manager: \<open>__enter__\<close> gives the connection itself, \<open>__exit__\<close> closes it and returns \<open>None\<close>, so
  that an exception of the body is raised again. \<open>with_client\<close> is \<open>with conn: body\<close>; a body that
  does not return, as the loops above, leaves the connection open.
\<close>

definition client_enter :: "'j client_connection \<Rightarrow> 'j client_connection" where
  "client_enter c = c"

definition client_exit :: "'w transport \<Rightarrow> client_error option \<Rightarrow> 'j client_connection \<Rightarrow> 'w \<Rightarrow> 'j client_connection \<times> 'w" where
  "client_exit tr exc c w = client_close tr c w"

definition with_client :: "'w transport \<Rightarrow>
    ('j client_connection \<Rightarrow> 'w \<Rightarrow> ((client_error + 'r) \<times> 'j client_connection \<times> 'w) option) \<Rightarrow>
    'j client_connection \<Rightarrow> 'w \<Rightarrow> ((client_error + 'r) \<times> 'j client_connection \<times> 'w) option" where
  "with_client tr body c w = (case body (client_enter c) w of
     None \<Rightarrow> None
   | Some (result, c, w) \<Rightarrow>
       (case client_exit tr (case result of Inl exc \<Rightarrow> Some exc | Inr _ \<Rightarrow> None) c w of
          (c, w) \<Rightarrow> Some (result, c, w)))"

lemma with_client_closes:
  assumes "with_client tr body c w = Some (result, c', w')"
  shows "cn_closed c' \<and> (\<exists>c1 w1. body c w = Some (result, c1, w1) \<and> client_close tr c1 w1 = (c', w'))"
proof -
  obtain c1 w1 where b: "body c w = Some (result, c1, w1)" "client_close tr c1 w1 = (c', w')"
    using assms by (auto simp: with_client_def client_enter_def client_exit_def split: option.splits prod.splits)
  then show ?thesis by (auto simp: client_close_def split: if_splits prod.splits)
qed

end
