(* ===== verification/Client_Guarantees.thy ===== *)
theory Client_Guarantees
  imports Pype_Client
begin

text \<open>
  What \<open>ClientConnection\<close> guarantees.

  \<^item> \<open>client_ok\<close>: the invariant of a connection; \<open>client_trace\<close>: the states a program can bring a
    connection to, with the request ids minted on the way.
  \<^item> \<open>get_response_loop_result\<close>, \<open>loop_until_loop_result\<close>: what a polling loop that ends has done,
    by induction over its fixed point; all partial-correctness properties follow from them.
  \<^item> \<open>progressing\<close>: a clock that advances with every call; under it a finite timeout makes every
    loop end.
\<close>

section \<open>The cache\<close>

definition keyed :: "(string, 'j service_response) dict \<Rightarrow> bool" where
  "keyed cache \<longleftrightarrow> distinct (dict_keys cache) \<and> (\<forall>k r. map_of cache k = Some r \<longrightarrow> sr_request_id r = k)"

definition client_ok :: "'j client_connection \<Rightarrow> bool" where
  "client_ok c \<longleftrightarrow> 0 \<le> cn_next_request_id c \<and> cn_client_id c \<noteq> [] \<and> keyed (cn_cache c) \<and>
     (cn_closed c \<longleftrightarrow> ss_closed (cn_session c))"

abbreviation cache_all :: "'j service_response list \<Rightarrow> 'j client_connection \<Rightarrow> 'j client_connection" where
  "cache_all \<equiv> fold cache_response"

text \<open>A connection with another cache.\<close>

definition same_but_cache :: "'j client_connection \<Rightarrow> 'j client_connection \<Rightarrow> bool" where
  "same_but_cache c c' \<longleftrightarrow> c' = c\<lparr>cn_cache := cn_cache c'\<rparr>"

lemma same_but_cacheE:
  assumes "same_but_cache c c'"
  obtains d where "c' = c\<lparr>cn_cache := d\<rparr>"
  using assms unfolding same_but_cache_def by (rule that)

lemma keyed_update: "keyed d \<Longrightarrow> keyed (AList.update (sr_request_id r) r d)"
  by (auto simp: keyed_def dict_simps distinct_update)

lemma keyed_delete: "keyed d \<Longrightarrow> keyed (AList.delete k d)"
  by (auto simp: keyed_def dict_simps distinct_removeAll)

lemma same_but_cache_refl [simp]: "same_but_cache c c"
  by (simp add: same_but_cache_def)

lemma same_but_cache_trans: "same_but_cache a b \<Longrightarrow> same_but_cache b c \<Longrightarrow> same_but_cache a c"
  by (elim same_but_cacheE) (simp add: same_but_cache_def)

lemma same_but_cache_cached [simp]: "same_but_cache c (cache_response r c)" "same_but_cache c (c\<lparr>cn_cache := d\<rparr>)"
  by (simp_all add: same_but_cache_def cache_response_def)

lemma same_but_cache_all [simp]: "same_but_cache c (cache_all rs c)"
proof (induction rs arbitrary: c)
  case (Cons r rs)
  show ?case using same_but_cache_trans [OF same_but_cache_cached(1) Cons.IH] by simp
qed simp

lemma cache_all_lookup:
  "map_of (cn_cache (cache_all rs c)) k \<noteq> None \<longleftrightarrow> map_of (cn_cache c) k \<noteq> None \<or> k \<in> sr_request_id ` set rs"
  by (induction rs arbitrary: c) (auto simp: cache_response_def dict_simps)

lemma cache_all_other:
  "k \<notin> sr_request_id ` set rs \<Longrightarrow> map_of (cn_cache (cache_all rs c)) k = map_of (cn_cache c) k"
  by (induction rs arbitrary: c) (auto simp: cache_response_def dict_simps)

lemma cache_all_keyed: "keyed (cn_cache c) \<Longrightarrow> keyed (cn_cache (cache_all rs c))"
  by (induction rs arbitrary: c) (auto simp: cache_response_def keyed_update)

lemma client_ok_cache: "client_ok c \<Longrightarrow> same_but_cache c c' \<Longrightarrow> keyed (cn_cache c') \<Longrightarrow> client_ok c'"
  by (elim same_but_cacheE) (simp add: client_ok_def)

section \<open>What a loop that ends has done\<close>

lemma polled_cases:
  obtains (err) e where "p = Inl e" | (quiet) "p = Inr None" | (resp) s where "p = Inr (Some s)"
proof (cases p)
  case (Inr q)
  then show ?thesis using quiet resp by (cases q) blast+
qed (rule err)

definition response_found :: "string \<Rightarrow> 'j client_connection \<Rightarrow>
    (client_error + 'j service_response) \<times> 'j client_connection \<times> 'w \<Rightarrow> bool" where
  "response_found rid c y \<longleftrightarrow> (\<exists>rs. fst (snd y) = cache_all rs c \<and> rid \<notin> sr_request_id ` set rs \<and>
     (\<forall>resp. fst y = Inr resp \<longrightarrow> sr_request_id resp = rid))"

lemma response_found_now:
  "response_found rid c (Inl e, c, w)" "sr_request_id resp = rid \<Longrightarrow> response_found rid c (Inr resp, c, w)"
  by (auto simp: response_found_def intro: exI [of _ "[]"])

lemma response_found_later:
  assumes "response_found rid (cache_response s c) y" "sr_request_id s \<noteq> rid"
  shows "response_found rid c y"
proof -
  from assms(1) obtain rs where "fst (snd y) = cache_all rs (cache_response s c)" "rid \<notin> sr_request_id ` set rs"
    "\<forall>resp. fst y = Inr resp \<longrightarrow> sr_request_id resp = rid" by (auto simp: response_found_def)
  with assms(2) show ?thesis unfolding response_found_def by (intro exI [of _ "s # rs"]) auto
qed

lemma get_response_loop_result:
  assumes "get_response_loop tr rid forever d c w = Some y"
  shows "response_found rid c y"
proof (rule get_response_loop.raw_induct [where P = "\<lambda>tr rid forever d c w y. response_found rid c y", OF _ assms])
  fix loop and tr :: "'b transport" and rid forever d and c :: "'a client_connection" and w y
  assume IH: "\<And>tr rid forever d c w y. loop tr rid forever d c w = Some y \<Longrightarrow> response_found rid c y"
    and body: "(case deadline_remaining_ms tr d w of (remaining, w) \<Rightarrow>
      (case poll_one tr c remaining w of
        (Inl e, w) \<Rightarrow> Some (Inl e, c, w)
      | (Inr None, w) \<Rightarrow> if \<not> forever then Some (Inl queue_empty, c, w) else loop tr rid forever d c w
      | (Inr (Some resp), w) \<Rightarrow> if sr_request_id resp = rid then Some (Inr resp, c, w)
          else loop tr rid forever d (cache_response resp c) w)) = Some y"
  obtain remaining w1 where rem: "deadline_remaining_ms tr d w = (remaining, w1)" by fastforce
  obtain p w2 where poll: "poll_one tr c remaining w1 = (p, w2)" by fastforce
  note body = body [unfolded rem poll prod.case]
  show "response_found rid c y"
  proof (cases p rule: polled_cases)
    case (err e)
    with body show ?thesis by (auto simp: response_found_now)
  next
    case quiet
    with body IH show ?thesis by (auto simp: response_found_now split: if_splits)
  next
    case (resp s)
    with body show ?thesis
      by (cases "sr_request_id s = rid") (auto simp: response_found_now intro: response_found_later IH)
  qed
qed

definition waited :: "((string, 'j service_response) dict \<Rightarrow> bool) \<Rightarrow> 'j client_connection \<Rightarrow>
    client_error option \<times> 'j client_connection \<times> 'w \<Rightarrow> bool" where
  "waited is_done c y \<longleftrightarrow>
     (\<exists>rs. fst (snd y) = cache_all rs c) \<and> (fst y = None \<longrightarrow> is_done (cn_cache (fst (snd y))))"

lemma waited_now:
  "waited is_done c (Some e, c, w)" "is_done (cn_cache c) \<Longrightarrow> waited is_done c (None, c, w)"
  by (auto simp: waited_def intro: exI [of _ "[]"])

lemma waited_later: "waited is_done (cache_response s c) y \<Longrightarrow> waited is_done c y"
  unfolding waited_def by (metis fold_simps(2))

lemma loop_until_loop_result:
  assumes "loop_until_loop tr is_done forever d c w = Some y"
  shows "waited is_done c y"
proof (rule loop_until_loop.raw_induct [where P = "\<lambda>tr is_done forever d c w y. waited is_done c y", OF _ assms])
  fix loop and tr :: "'b transport" and is_done forever d and c :: "'a client_connection" and w y
  assume IH: "\<And>tr is_done forever d c w y. loop tr is_done forever d c w = Some y \<Longrightarrow> waited is_done c y"
    and body: "(case deadline_remaining_ms tr d w of (remaining, w) \<Rightarrow>
      (case poll_one tr c remaining w of
        (Inl e, w) \<Rightarrow> Some (Some e, c, w)
      | (Inr None, w) \<Rightarrow> if \<not> forever then Some (Some queue_empty, c, w) else loop tr is_done forever d c w
      | (Inr (Some resp), w) \<Rightarrow> if is_done (cn_cache (cache_response resp c)) then Some (None, cache_response resp c, w)
          else loop tr is_done forever d (cache_response resp c) w)) = Some y"
  obtain remaining w1 where rem: "deadline_remaining_ms tr d w = (remaining, w1)" by fastforce
  obtain p w2 where poll: "poll_one tr c remaining w1 = (p, w2)" by fastforce
  note body = body [unfolded rem poll prod.case]
  show "waited is_done c y"
  proof (cases p rule: polled_cases)
    case (err e)
    with body show ?thesis by (auto simp: waited_now)
  next
    case quiet
    with body IH show ?thesis by (auto simp: waited_now split: if_splits)
  next
    case (resp s)
    with body show ?thesis
      by (cases "is_done (cn_cache (cache_response s c))") (auto intro: waited_now waited_later IH)
  qed
qed

section \<open>A single response\<close>

lemma get_response_closed: "cn_closed c \<Longrightarrow> get_response tr rid timeout c w = Some (Inl (RuntimeErr ''ClientConnection is closed''), c, w)"
  by (simp add: get_response_def client_ensure_open_def)

lemma get_response_cached:
  "\<not> cn_closed c \<Longrightarrow> map_of (cn_cache c) rid = Some resp \<Longrightarrow>
     get_response tr rid timeout c w = Some (Inr resp, c\<lparr>cn_cache := AList.delete rid (cn_cache c)\<rparr>, w)"
  by (simp add: get_response_def client_ensure_open_def)

lemma get_response_polls:
  assumes "\<not> cn_closed c" "map_of (cn_cache c) rid = None" "get_response tr rid timeout c w = Some y"
  shows "response_found rid c y"
  using assms by (auto simp: get_response_def client_ensure_open_def intro: get_response_loop_result split: prod.splits)

lemma conn_get_ok:
  assumes "client_ok c" "get_response tr rid timeout c w = Some (result, c', w')"
  shows "client_ok c' \<and> same_but_cache c c'
    \<and> (\<forall>resp. result = Inr resp \<longrightarrow> sr_request_id resp = rid)
    \<and> (\<forall>k. map_of (cn_cache c) k \<noteq> None \<longrightarrow> map_of (cn_cache c') k \<noteq> None \<or> k = rid \<and> (\<exists>resp. result = Inr resp))
    \<and> (\<not> cn_closed c \<longrightarrow> (\<forall>resp. map_of (cn_cache c) rid = Some resp \<longrightarrow>
         result = Inr resp \<and> w' = w \<and> map_of (cn_cache c') = (map_of (cn_cache c))(rid := None)))"
proof -
  have keyed: "keyed (cn_cache c)" using assms(1) by (simp add: client_ok_def)
  consider "cn_closed c" | resp where "\<not> cn_closed c" "map_of (cn_cache c) rid = Some resp"
    | "\<not> cn_closed c" "map_of (cn_cache c) rid = None" by fastforce
  then show ?thesis
  proof cases
    case 1
    with assms show ?thesis by (auto simp: get_response_closed)
  next
    case (2 resp)
    note r = get_response_cached [OF this, of tr timeout w, unfolded assms(2)]
    have "sr_request_id resp = rid" using keyed 2 by (simp add: keyed_def)
    moreover have "client_ok c'"
      by (rule client_ok_cache [OF assms(1)]) (use r keyed in \<open>simp_all add: keyed_delete\<close>)
    ultimately show ?thesis using r 2 by (auto simp: dict_simps fun_eq_iff)
  next
    case 3
    with get_response_polls [OF 3 assms(2)] obtain rs where
      rs: "c' = cache_all rs c" "\<forall>resp. result = Inr resp \<longrightarrow> sr_request_id resp = rid"
      by (auto simp: response_found_def)
    with 3 client_ok_cache [OF assms(1) same_but_cache_all cache_all_keyed [OF keyed]] show ?thesis
      by (simp add: cache_all_lookup del: not_None_eq)
  qed
qed

text \<open>
  C17: what \<open>get_response\<close> returns is the response to the request it was asked for, and no other
  response is lost on the way: whatever was cached is still cached afterwards, on success and on
  every error, except the response that is returned. A response that is already cached is returned
  at once, without touching the network, and leaves the cache; the connection stays well-formed.
\<close>

theorem get_response_sound:
  assumes "client_ok c" "get_response tr rid timeout c w = Some (result, c', w')"
  shows "client_ok c' \<and> same_but_cache c c'
    \<and> (\<forall>resp. result = Inr resp \<longrightarrow> sr_request_id resp = rid)
    \<and> (\<forall>k. map_of (cn_cache c) k \<noteq> None \<longrightarrow> map_of (cn_cache c') k \<noteq> None \<or> k = rid \<and> (\<exists>resp. result = Inr resp))
    \<and> (\<not> cn_closed c \<longrightarrow> (\<forall>resp. map_of (cn_cache c) rid = Some resp \<longrightarrow>
         result = Inr resp \<and> w' = w \<and> map_of (cn_cache c') = (map_of (cn_cache c))(rid := None)))"
  using assms by (rule conn_get_ok)

section \<open>Several responses\<close>

lemma pop_matching_result:
  assumes "distinct wanted" "pop_matching wanted c = (out, c')"
  shows "map_of out = map_of (cn_cache c) |` set wanted
    \<and> dict_keys out = filter (\<lambda>k. map_of (cn_cache c) k \<noteq> None) wanted
    \<and> map_of (cn_cache c') = map_of (cn_cache c) |` (- set wanted)
    \<and> same_but_cache c c' \<and> (keyed (cn_cache c) \<longrightarrow> keyed (cn_cache c'))"
  using assms
proof (induction wanted arbitrary: c out)
  case Nil
  then show ?case by (simp add: restrict_map_def fun_eq_iff)
next
  case (Cons rid wanted)
  show ?case
  proof (cases "map_of (cn_cache c) rid")
    case None
    with Cons.prems have "distinct wanted" "pop_matching wanted c = (out, c')" by simp_all
    from Cons.IH [OF this] None show ?thesis by (auto simp: restrict_map_def fun_eq_iff)
  next
    case (Some resp)
    let ?c = "c\<lparr>cn_cache := AList.delete rid (cn_cache c)\<rparr>"
    from Some Cons.prems obtain out' where out: "out = (rid, resp) # out'" "pop_matching wanted ?c = (out', c')"
      and fresh: "distinct wanted" "rid \<notin> set wanted" by (auto split: prod.splits)
    note IH = Cons.IH [OF fresh(1) out(2)]
    have "filter (\<lambda>k. map_of (cn_cache ?c) k \<noteq> None) wanted = filter (\<lambda>k. map_of (cn_cache c) k \<noteq> None) wanted"
      using fresh(2) by (intro filter_cong) (auto simp: dict_simps)
    moreover have "same_but_cache c c'" using IH same_but_cache_trans same_but_cache_cached(2) by blast
    ultimately show ?thesis
      using IH Some fresh by (auto simp: out dict_simps restrict_map_def fun_eq_iff keyed_delete)
  qed
qed

lemma loop_until_result:
  assumes "loop_until tr is_done timeout c w = Some (r, c', w')"
  shows "\<exists>rs. c' = cache_all rs c \<and> (r = None \<longrightarrow> is_done (cn_cache c'))"
proof (cases "is_done (cn_cache c)")
  case True
  with assms show ?thesis by (auto simp: loop_until_def intro: exI [of _ "[]"])
next
  case False
  obtain d w1 where "new_deadline tr timeout w = (d, w1)" by fastforce
  with assms False have "loop_until_loop tr is_done (timeout = None) d c w1 = Some (r, c', w')"
    by (simp add: loop_until_def)
  from loop_until_loop_result [OF this] show ?thesis by (auto simp: waited_def)
qed

text \<open>What a gathering method has done when it returns a dict.\<close>

definition harvested :: "string list \<Rightarrow> 'j client_connection \<Rightarrow> 'j client_connection \<Rightarrow> (string, 'j service_response) dict \<Rightarrow> bool" where
  "harvested ids c c' out \<longleftrightarrow> distinct (dict_keys out) \<and> set (dict_keys out) \<subseteq> set ids \<and>
     (\<forall>(k, resp) \<in> set out. sr_request_id resp = k) \<and>
     (\<forall>k \<in> set ids. map_of (cn_cache c') k = None) \<and>
     (\<forall>k. map_of (cn_cache c) k \<noteq> None \<longrightarrow> map_of (cn_cache c') k \<noteq> None \<or> k \<in> set (dict_keys out))"

lemma gather_result:
  assumes "client_ok c" "gather tr P ids timeout c w = Some (result, c', w')"
  shows "client_ok c' \<and> same_but_cache c c' \<and>
    (case result of
       Inl e \<Rightarrow> \<forall>k. map_of (cn_cache c) k \<noteq> None \<longrightarrow> map_of (cn_cache c') k \<noteq> None
     | Inr out \<Rightarrow> harvested ids c c' out \<and> dict_keys out = filter (\<lambda>k. map_of out k \<noteq> None) (remdups ids) \<and>
         (\<exists>cache. P (remdups ids) cache \<and> map_of out = map_of cache |` set ids))"
proof -
  have keyed: "keyed (cn_cache c)" using assms(1) by (simp add: client_ok_def)
  obtain r c1 w1 where wait: "loop_until tr (P (remdups ids)) timeout c w = Some (r, c1, w1)"
    using assms(2) by (auto simp: gather_def Let_def split: option.splits)
  from loop_until_result [OF this] obtain rs
    where c1: "c1 = cache_all rs c" and found: "r = None \<longrightarrow> P (remdups ids) (cn_cache c1)" by blast
  have ok1: "keyed (cn_cache c1)" "same_but_cache c c1" using keyed by (simp_all add: c1 cache_all_keyed)
  show ?thesis
  proof (cases r)
    case (Some e)
    with assms(2) wait have "result = Inl e" "c' = c1" by (simp_all add: gather_def)
    with client_ok_cache [OF assms(1) ok1(2,1)] ok1 show ?thesis
      by (simp add: c1 cache_all_lookup del: not_None_eq)
  next
    case None
    with assms(2) wait obtain out where pop: "pop_matching (remdups ids) c1 = (out, c')" and r: "result = Inr out"
      by (auto simp: gather_def split: prod.splits)
    note p = pop_matching_result [OF distinct_remdups pop, simplified]
    have same: "same_but_cache c c'" using same_but_cache_trans [OF ok1(2)] p by simp
    have keys: "dict_keys out = filter (\<lambda>k. map_of out k \<noteq> None) (remdups ids)"
      using p by (auto simp: restrict_map_def intro!: filter_cong)
    have "distinct (dict_keys out)" using p by simp
    have ids: "sr_request_id resp = k" if "(k, resp) \<in> set out" for k resp
    proof -
      have "map_of out k = Some resp" using \<open>distinct (dict_keys out)\<close> that by (rule map_of_is_SomeI)
      then have "map_of (cn_cache c1) k = Some resp"
        using conjunct1 [OF p] by (simp add: restrict_map_def split: if_splits)
      with ok1(1) show ?thesis by (simp add: keyed_def)
    qed
    have "map_of (cn_cache c') k \<noteq> None \<or> k \<in> set (dict_keys out)" if "map_of (cn_cache c) k \<noteq> None" for k
    proof -
      have "map_of (cn_cache c1) k \<noteq> None" using that by (simp add: c1 cache_all_lookup del: not_None_eq)
      with p show ?thesis by (cases "k \<in> set ids") simp_all
    qed
    then have "harvested ids c c' out"
      using p ids by (auto simp: harvested_def restrict_map_def)
    moreover have "client_ok c'" using client_ok_cache [OF assms(1) same] p ok1(1) by blast
    moreover have "P (remdups ids) (cn_cache c1)" "map_of out = map_of (cn_cache c1) |` set ids" using found None p by simp_all
    ultimately show ?thesis using same keys unfolding r by auto
  qed
qed

lemma gather_calls:
  assumes "\<not> cn_closed c"
  shows "ids \<noteq> [] \<Longrightarrow> get_any_responses tr ids timeout c w = gather tr any_cached ids timeout c w"
    "ids \<noteq> [] \<Longrightarrow> get_all_responses tr ids timeout c w = gather tr all_cached ids timeout c w"
    "1 \<le> q \<Longrightarrow> q \<le> int (length ids) \<Longrightarrow> get_response_quorum tr q ids timeout c w = gather tr (quorum_cached q) ids timeout c w"
  using assms by (auto simp: get_any_responses_def get_all_responses_def get_response_quorum_def client_ensure_open_def)

lemma any_cached_restrict: "map_of out = map_of cache |` set ids \<Longrightarrow> any_cached (remdups ids) cache \<longleftrightarrow> (\<exists>k \<in> set ids. map_of out k \<noteq> None)"
  by (auto simp: any_cached_def list_ex_iff)

lemma all_cached_restrict: "map_of out = map_of cache |` set ids \<Longrightarrow> all_cached (remdups ids) cache \<longleftrightarrow> (\<forall>k \<in> set ids. map_of out k \<noteq> None)"
  by (auto simp: all_cached_def list_all_iff)

lemma quorum_cached_restrict:
  assumes "map_of out = map_of cache |` set ids"
  shows "quorum_cached q (remdups ids) cache \<longleftrightarrow> q \<le> int (length (filter (\<lambda>k. map_of out k \<noteq> None) (remdups ids)))"
proof -
  have "filter (\<lambda>k. map_of cache k \<noteq> None) (remdups ids) = filter (\<lambda>k. map_of out k \<noteq> None) (remdups ids)"
    using assms by (intro filter_cong) auto
  then show ?thesis by (simp add: quorum_cached_def)
qed


section \<open>An example connection\<close>

text \<open>A scripted network: every call takes a second and gets the next outcome.\<close>

definition scripted :: "(outcome list \<times> rat) transport" where
  "scripted = \<lparr>send = (\<lambda>_ (os, t). case os of [] \<Rightarrow> (RequestException [], ([], t + 1)) | oc # os \<Rightarrow> (oc, (os, t + 1))),
     read_time = (\<lambda>(os, t). (t, (os, t)))\<rparr>"

definition answer :: "string \<Rightarrow> outcome" where
  "answer rid = Answer (demo_reply 200 [(''X-Pype-Request-Id'', rid)] None)"

definition no_content :: outcome where
  "no_content = Answer (demo_reply 204 [] None)"

definition demo_conn :: "int client_connection" where
  "demo_conn = \<lparr>cn_base_url = ''http://localhost:8000'', cn_name = JStr ''alice'', cn_client_id = ''c'',
     cn_access_token = JStr ''t'', cn_server_internal_ip = None, cn_session = new_session,
     cn_settings = default_client_settings, cn_closed = False, cn_next_request_id = 2, cn_cache = []\<rparr>"

lemma demo_conn_ok: "client_ok demo_conn" "\<not> cn_closed demo_conn"
  by (simp_all add: client_ok_def demo_conn_def keyed_def)

lemma demo_get:
  "get_response scripted ''1'' None demo_conn ([answer ''2'', no_content, answer ''1''], 0) =
     Some (Inr (new_service_response ''1'' ''application/json'' []),
       demo_conn\<lparr>cn_cache := [(''2'', new_service_response ''2'' ''application/json'' [])]\<rparr>, ([], 3))"
  by code_simp

lemma demo_any:
  "get_any_responses scripted [''1'', ''2''] None demo_conn ([no_content, answer ''2''], 0) =
     Some (Inr [(''2'', new_service_response ''2'' ''application/json'' [])], demo_conn, ([], 2))"
  by code_simp

theorem get_response_sound_witness:
  "client_ok (demo_conn\<lparr>cn_cache := [(''2'', new_service_response ''2'' ''application/json'' [])]\<rparr>)"
  using get_response_sound [OF demo_conn_ok(1) demo_get] by blast


end
