(* ===== verification/Client_Calls.thy ===== *)
theory Client_Calls
  imports Client_Guarantees
begin

text \<open>
  The life of a \<open>ClientConnection\<close> as a whole.

  \<^item> \<open>client_trace\<close>: the states a program can bring a connection to, with the ids of the requests
    it made; the invariant \<open>client_ok\<close> holds in all of them and the ids are distinct.
  \<^item> \<open>client_call_correct\<close>: the two phases of \<open>call\<close>; \<open>client_close_correct\<close>: after \<open>close\<close>.
  \<^item> \<open>quorum_needs_distinct_ids\<close>: a quorum that repeated ids make unreachable.
\<close>

section \<open>Minting\<close>

abbreviation next_id :: "'j client_connection \<Rightarrow> string" where
  "next_id c \<equiv> py_str_int (cn_next_request_id c + 1)"

abbreviation minted :: "'j client_connection \<Rightarrow> 'j client_connection" where
  "minted c \<equiv> c\<lparr>cn_next_request_id := cn_next_request_id c + 1\<rparr>"

lemma mint_eq: "mint_request_id c = (next_id c, minted c)"
  by (simp add: mint_request_id_def Let_def)

lemma client_ok_minted: "client_ok c \<Longrightarrow> client_ok (minted c)"
  by (simp add: client_ok_def)

lemma send_request_result:
  assumes "send_request tr service_name request content_type timeout c w = (result, c', w')"
  shows "c' = (if cn_closed c then c else minted c)" "result = Inr rid \<Longrightarrow> \<not> cn_closed c \<and> rid = next_id c"
  using assms
  by (auto simp: send_request_def client_ensure_open_def mint_eq split: if_splits sum.splits prod.splits)

lemma call_fallback_result:
  assumes "client_ok c" "call_fallback tr d rid c w = Some (result, c', w')"
  shows "client_ok c' \<and> same_but_cache c c' \<and> (\<forall>resp. result = Inr resp \<longrightarrow> sr_request_id resp = rid)"
proof -
  obtain rem w1 where rem: "deadline_remaining_ms tr d w = (rem, w1)" by fastforce
  then consider "c' = c" "\<exists>e. result = Inl e" | timeout where "get_response tr rid timeout c w1 = Some (result, c', w')"
    using assms(2) by (auto simp: call_fallback_def split: option.splits if_splits)
  then show ?thesis
  proof cases
    case 1
    with assms(1) show ?thesis by auto
  next
    case 2
    from conn_get_ok [OF assms(1) this] show ?thesis by blast
  qed
qed

section \<open>Calling\<close>

text \<open>The POST that \<open>call\<close> makes.\<close>

abbreviation service_url :: "'j client_connection \<Rightarrow> string \<Rightarrow> string" where
  "service_url c service_name \<equiv> cn_base_url c @ ''/services/'' @ service_name"

definition block_call :: "'j client_connection \<Rightarrow> string \<Rightarrow> bytes \<Rightarrow> string \<Rightarrow> int option \<Rightarrow> http_call" where
  "block_call c service_name body content_type remaining =
     \<lparr>hc_session_headers = ss_headers (cn_session c), hc_method = ''POST'', hc_url = service_url c service_name,
      hc_timeout = http_timeout_seconds remaining (cs_network_buffer_ms (cn_settings c)),
      hc_params = [(''request_id'', PStr (next_id c)), (''block'', PInt 1)] @ timeout_param (map_option (max 0) remaining),
      hc_headers = [(''Content-Type'', content_type)], hc_body = DataBody body\<rparr>"

lemma client_call_open:
  assumes "\<not> cn_closed c" "to_bytes request = Inr body" "new_deadline tr timeout w = (deadline, w1)"
    "deadline_remaining_ms tr deadline w1 = (remaining, w2)"
    "send tr (block_call c service_name body content_type remaining) w2 = (oc, w3)"
  shows "client_call tr service_name request content_type timeout c w =
    (case verdict ''POST'' (service_url c service_name) {200, 202} oc of
       Inl e \<Rightarrow> Some (Inl e, minted c, w3)
     | Inr resp \<Rightarrow>
        if rp_status resp = 200
        then (case map_of (rp_headers resp) ''X-Pype-Request-Id'' of
            None \<Rightarrow> Some (Inl missing_request_id, minted c, w3)
          | Some rid \<Rightarrow>
              if rid = next_id c then Some (Inr (response_of rid resp ''application/octet-stream''), minted c, w3)
              else call_fallback tr deadline (next_id c)
                (cache_response (response_of rid resp ''application/octet-stream'') (minted c)) w3)
        else call_fallback tr deadline (next_id c) (minted c) w3)"
  using assms unfolding client_call_def client_ensure_open_def mint_eq checked_call_verdict block_call_def Let_def
  by (simp del: append.simps split: sum.splits)

lemma client_call_closed:
  "cn_closed c \<Longrightarrow> client_call tr s r ct t c w = Some (Inl (RuntimeErr ''ClientConnection is closed''), c, w)"
  by (simp add: client_call_def client_ensure_open_def)

lemma response_of_id [simp]: "sr_request_id (response_of rid resp d) = rid"
  by (simp add: response_of_def new_service_response_def)

lemma client_ok_cache_response: "client_ok c \<Longrightarrow> client_ok (cache_response r c)"
  using cache_all_keyed [of c "[r]"] by (intro client_ok_cache [OF _ same_but_cache_cached(1)]) (simp_all add: client_ok_def)

lemma client_call_ok:
  assumes "client_ok c" "client_call tr service_name request content_type timeout c w = Some (r, c', w')"
  shows "client_ok c' \<and> (if cn_closed c then c' = c else same_but_cache (minted c) c')
    \<and> (\<forall>resp. r = Inr resp \<longrightarrow> \<not> cn_closed c \<and> sr_request_id resp = next_id c)"
proof (cases "cn_closed c \<or> (\<exists>e. to_bytes request = Inl e)")
  case True
  with assms client_ok_minted [OF assms(1)] show ?thesis
    by (auto simp: client_call_def client_ensure_open_def mint_eq)
next
  case False
  then obtain body where opn: "\<not> cn_closed c" "to_bytes request = Inr body" by (cases "to_bytes request") auto
  obtain d w1 where d: "new_deadline tr timeout w = (d, w1)" by fastforce
  obtain rem w2 where rem: "deadline_remaining_ms tr d w1 = (rem, w2)" by fastforce
  obtain oc w3 where oc: "send tr (block_call c service_name body content_type rem) w2 = (oc, w3)" by fastforce
  note call = client_call_open [OF opn d rem oc, unfolded assms(2)]
  note ok = client_ok_minted [OF assms(1)]
  have waited: "client_ok c' \<and> same_but_cache (minted c) c' \<and> (\<forall>resp. r = Inr resp \<longrightarrow> sr_request_id resp = next_id c)"
    if "Some (r, c', w') = call_fallback tr d (next_id c) c1 w3" "client_ok c1" "same_but_cache (minted c) c1" for c1
    using call_fallback_result [OF that(2) that(1) [symmetric]] same_but_cache_trans [OF that(3)] by blast
  from call opn(1) ok show ?thesis
    by (auto split: sum.splits if_splits option.splits
        dest!: waited [OF _ ok same_but_cache_refl] waited [OF _ client_ok_cache_response [OF ok] same_but_cache_cached(1)])
qed



section \<open>Whole lives\<close>

text \<open>
  What a program can do with a connection once it has one, in any order and with any results, while
  the world moves on its own in between; the list has the ids of the requests that were accepted.
\<close>

inductive client_trace :: "'w transport \<Rightarrow> 'j client_connection \<Rightarrow> 'w \<Rightarrow> string list \<Rightarrow> bool" for tr where
  signed_in: "client_authenticate tr cfg base_url auth_request w = (Inr c, w') \<Longrightarrow> client_trace tr c w' []"
| elsewhere: "client_trace tr c w ids \<Longrightarrow> client_trace tr c w' ids"
| sent: "client_trace tr c w ids \<Longrightarrow> send_request tr service_name request content_type timeout c w = (Inr rid, c', w') \<Longrightarrow>
    client_trace tr c' w' (ids @ [rid])"
| send_failed: "client_trace tr c w ids \<Longrightarrow> send_request tr service_name request content_type timeout c w = (Inl e, c', w') \<Longrightarrow>
    client_trace tr c' w' ids"
| called: "client_trace tr c w ids \<Longrightarrow> client_call tr service_name request content_type timeout c w = Some (Inr resp, c', w') \<Longrightarrow>
    client_trace tr c' w' (ids @ [sr_request_id resp])"
| call_failed: "client_trace tr c w ids \<Longrightarrow> client_call tr service_name request content_type timeout c w = Some (Inl e, c', w') \<Longrightarrow>
    client_trace tr c' w' ids"
| got: "client_trace tr c w ids \<Longrightarrow> get_response tr rid timeout c w = Some (r, c', w') \<Longrightarrow> client_trace tr c' w' ids"
| got_any: "client_trace tr c w ids \<Longrightarrow> get_any_responses tr rids timeout c w = Some (rs, c', w') \<Longrightarrow> client_trace tr c' w' ids"
| got_all: "client_trace tr c w ids \<Longrightarrow> get_all_responses tr rids timeout c w = Some (rs, c', w') \<Longrightarrow> client_trace tr c' w' ids"
| got_quorum: "client_trace tr c w ids \<Longrightarrow> get_response_quorum tr q rids timeout c w = Some (rs, c', w') \<Longrightarrow> client_trace tr c' w' ids"
| closed: "client_trace tr c w ids \<Longrightarrow> client_close tr c w = (c', w') \<Longrightarrow> client_trace tr c' w' ids"

definition ids_ok :: "'j client_connection \<Rightarrow> string list \<Rightarrow> bool" where
  "ids_ok c ids \<longleftrightarrow> distinct ids \<and> set ids \<subseteq> py_str_int ` {1..cn_next_request_id c}"

lemma ids_ok_later: "ids_ok c ids \<Longrightarrow> cn_next_request_id c \<le> cn_next_request_id c' \<Longrightarrow> ids_ok c' ids"
  by (fastforce simp: ids_ok_def)

lemma ids_ok_minted:
  assumes "ids_ok c ids" "0 \<le> cn_next_request_id c" "cn_next_request_id c' = cn_next_request_id c + 1"
  shows "ids_ok c' (ids @ [next_id c])"
proof -
  have "next_id c \<notin> py_str_int ` {1..cn_next_request_id c}"
    using assms(2) by (auto simp: py_str_int_inject)
  then show ?thesis using assms by (fastforce simp: ids_ok_def)
qed

lemma same_but_cache_id [simp]: "same_but_cache c c' \<Longrightarrow> cn_next_request_id c' = cn_next_request_id c"
  by (elim same_but_cacheE) simp

lemma gathering_ok:
  assumes "client_ok c"
  shows "get_any_responses tr rids timeout c w = Some (r, c', w') \<Longrightarrow> client_ok c' \<and> same_but_cache c c'"
    "get_all_responses tr rids timeout c w = Some (r, c', w') \<Longrightarrow> client_ok c' \<and> same_but_cache c c'"
    "get_response_quorum tr q rids timeout c w = Some (r, c', w') \<Longrightarrow> client_ok c' \<and> same_but_cache c c'"
  using assms
  by (auto dest: gather_result [OF assms] simp: get_any_responses_def get_all_responses_def get_response_quorum_def split: option.splits if_splits)

lemma client_authenticate_ok:
  assumes "client_authenticate tr cfg base_url auth_request w = (Inr c, w')"
  shows "client_ok c \<and> cn_next_request_id c = 0 \<and> \<not> cn_closed c"
  using assms
  by (auto simp: client_authenticate_def Let_def client_ok_def keyed_def split: prod.splits sum.splits option.splits if_splits)

lemma client_close_ok: "client_ok c \<Longrightarrow> client_close tr c w = (c', w') \<Longrightarrow> client_ok c' \<and> cn_next_request_id c' = cn_next_request_id c"
  by (auto simp: client_close_def client_ok_def split: if_splits prod.splits)

lemma client_trace_ok: "client_trace tr c w ids \<Longrightarrow> client_ok c \<and> ids_ok c ids"
proof (induction rule: client_trace.induct)
  case (signed_in cfg base_url auth_request w c w')
  from client_authenticate_ok [OF this] show ?case by (simp add: ids_ok_def)
next
  case (sent c w ids service_name request content_type timeout rid c' w')
  with send_request_result [OF sent.hyps(2)] show ?case
    by (auto simp: client_ok_minted client_ok_def intro!: ids_ok_minted)
next
  case (send_failed c w ids service_name request content_type timeout e c' w')
  with send_request_result(1) [OF send_failed.hyps(2)] show ?case
    by (auto simp: client_ok_minted intro: ids_ok_later)
next
  case (called c w ids service_name request content_type timeout resp c' w')
  with client_call_ok [OF _ called.hyps(2)] have ok: "client_ok c'" "same_but_cache (minted c) c'" "sr_request_id resp = next_id c"
    by simp_all
  with called show ?case using ids_ok_minted [of c ids c'] by (simp add: client_ok_def)
next
  case (call_failed c w ids service_name request content_type timeout e c' w')
  with client_call_ok [OF _ call_failed.hyps(2)] show ?case by (auto split: if_splits intro: ids_ok_later)
next
  case (got c w ids rid timeout r c' w')
  with conn_get_ok [OF _ got.hyps(2)] show ?case by (auto intro: ids_ok_later)
next
  case (got_any c w ids rids timeout rs c' w')
  with gathering_ok(1) [OF _ got_any.hyps(2)] show ?case by (auto intro: ids_ok_later)
next
  case (got_all c w ids rids timeout rs c' w')
  with gathering_ok(2) [OF _ got_all.hyps(2)] show ?case by (auto intro: ids_ok_later)
next
  case (got_quorum c w ids q rids timeout rs c' w')
  with gathering_ok(3) [OF _ got_quorum.hyps(2)] show ?case by (auto intro: ids_ok_later)
next
  case (closed c w ids c' w')
  with client_close_ok [OF _ closed.hyps(2)] show ?case by (auto intro: ids_ok_later)
qed simp

text \<open>A life for the witnesses: sign in, send, close.\<close>

definition signed_reply :: outcome where
  "signed_reply = Answer (demo_reply 200 [] (Some (JObj
     [(''access_token'', JStr ''t''), (''client_id'', JStr ''c''), (''name'', JStr ''alice'')])))"

definition accepted :: outcome where
  "accepted = Answer (demo_reply 202 [] None)"

lemma demo_life:
  "\<exists>c w. client_trace scripted (c :: int client_connection) w [''1'', ''2''] \<and> cn_next_request_id c = 2"
proof -
  define c where "c = demo_conn\<lparr>cn_next_request_id := 0, cn_session := sign_session new_session (JStr ''t'') (demo_reply 200 [] None)\<rparr>"
  have "client_authenticate scripted default_client_settings None [] ([signed_reply, accepted, accepted], 0)
      = (Inr c, ([accepted, accepted], 1))"
    unfolding c_def by code_simp
  then have 0: "client_trace scripted c ([accepted, accepted], 1) []" by (rule signed_in)
  have "send_request scripted ''echo'' (Bytes []) ''text/plain'' None c ([accepted, accepted], 1) = (Inr ''1'', minted c, ([accepted], 2))"
    unfolding c_def by code_simp
  from sent [OF 0 this] have 1: "client_trace scripted (minted c) ([accepted], 2) [''1'']" by simp
  have "send_request scripted ''echo'' (Bytes []) ''text/plain'' None (minted c) ([accepted], 2) = (Inr ''2'', minted (minted c), ([], 3))"
    unfolding c_def by code_simp
  from sent [OF 1 this] have "client_trace scripted (minted (minted c)) ([], 3) [''1'', ''2'']" by simp
  moreover have "cn_next_request_id (minted (minted c)) = 2" by (simp add: c_def)
  ultimately show ?thesis by blast
qed

text \<open>
  C21: whatever a program does with a connection, the connection stays well-formed: its counter is
  not negative, its client id is not empty, every cached response stands under its own request id and
  no id occurs twice in the cache, and its HTTP session is closed exactly when the connection is.
\<close>

theorem client_invariant:
  assumes "client_trace tr c w ids"
  shows "0 \<le> cn_next_request_id c \<and> cn_client_id c \<noteq> [] \<and> distinct (dict_keys (cn_cache c))
    \<and> (\<forall>(rid, resp) \<in> set (cn_cache c). sr_request_id resp = rid)
    \<and> (cn_closed c \<longleftrightarrow> ss_closed (cn_session c))"
  using client_trace_ok [OF assms] by (auto simp: client_ok_def keyed_def)

theorem client_invariant_witness:
  "\<exists>c w. client_trace scripted (c :: int client_connection) w [''1'', ''2''] \<and> distinct (dict_keys (cn_cache c))
     \<and> cn_client_id c \<noteq> []"
proof -
  obtain c w where life: "client_trace scripted (c :: int client_connection) w [''1'', ''2'']" using demo_life by blast
  from client_invariant [OF life] life show ?thesis by blast
qed

text \<open>
  C22: request ids are never reused. The ids of all requests that a connection has ever had accepted, by
  \<open>send_request\<close> or by \<open>call\<close>, with failures, polling and anything else in between, are pairwise
  distinct, and they are decimal numerals of the counter's past values.
\<close>

theorem request_ids_distinct:
  assumes "client_trace tr c w ids"
  shows "distinct ids \<and> (\<forall>rid \<in> set ids. \<exists>n. rid = py_str_int n \<and> 1 \<le> n \<and> n \<le> cn_next_request_id c)"
  using client_trace_ok [OF assms] unfolding ids_ok_def by fastforce

theorem request_ids_distinct_witness:
  "\<exists>c w. client_trace scripted (c :: int client_connection) w [''1'', ''2''] \<and>
     (\<exists>n. ''2'' = py_str_int n \<and> 1 \<le> n \<and> n \<le> cn_next_request_id c)"
proof -
  obtain c w where life: "client_trace scripted (c :: int client_connection) w [''1'', ''2'']" using demo_life by blast
  from request_ids_distinct [OF life] life show ?thesis by (metis list.set_intros)
qed

section \<open>Signing in\<close>

text \<open>
  C26: a client signs in with exactly one call, and the result is a connection if and only if the
  server answered 200 with a JSON object that has an \<open>access_token\<close>, a \<open>client_id\<close> that is a
  non-empty string, and a \<open>name\<close>; it is open, has those, an empty cache and a fresh counter, and
  carries the token as its bearer header. On every other outcome the error leaves with the session
  closed.
\<close>

theorem client_authenticate_correct:
  fixes tr cfg base_url auth_request w
  shows "let url = resolve_base_url base_url cfg @ ''/auth/client'';
      (outcome, w') = send tr (auth_call cfg url auth_request) w;
      (result :: client_error \<times> session + 'j client_connection, w'') = client_authenticate tr cfg base_url auth_request w
    in w'' = w'
     \<and> (\<forall>e s. result = Inl (e, s) \<longrightarrow> ss_closed s)
     \<and> (\<forall>token cid name. (\<exists>c. result = Inr c \<and> cn_access_token c = token \<and> cn_client_id c = cid \<and> cn_name c = name) \<longleftrightarrow>
          (\<exists>resp data. outcome = Answer resp \<and> rp_status resp = 200 \<and> rp_json resp = Some data
             \<and> subscript data ''access_token'' = Some token \<and> subscript data ''client_id'' = Some (JStr cid) \<and> cid \<noteq> []
             \<and> subscript data ''name'' = Some name))
     \<and> (\<forall>c. result = Inr c \<longrightarrow> \<not> cn_closed c \<and> \<not> ss_closed (cn_session c) \<and> cn_cache c = [] \<and> cn_next_request_id c = 0
          \<and> map_of (ss_headers (cn_session c)) ''Authorization'' = Some (''Bearer '' @ py_str (cn_access_token c)))"
proof -
  define url where "url = resolve_base_url base_url cfg @ ''/auth/client''"
  obtain oc w' where send: "send tr (auth_call cfg url auth_request) w = (oc, w')" by fastforce
  show ?thesis
  proof (cases "verdict ''POST'' url {200} oc")
    case (Inl e)
    then have "\<And>resp. oc = Answer resp \<Longrightarrow> rp_status resp \<noteq> 200"
      using verdict_Inr [of "''POST''" url "{200}" oc] by auto
    with Inl show ?thesis
      by (auto simp: send auth_exchange_send client_authenticate_def Let_def simp flip: url_def)
  next
    case (Inr resp)
    then have "oc = Answer resp" "rp_status resp = 200" by (simp_all add: verdict_Inr)
    with Inr show ?thesis
      by (auto simp: send auth_exchange_send client_authenticate_def Let_def as_str_Some
          simp flip: url_def split: option.splits)
  qed
qed

theorem client_authenticate_correct_witness:
  "\<exists>c. fst (client_authenticate scripted default_client_settings None [] ([signed_reply], 0)) = Inr (c :: int client_connection)
     \<and> cn_client_id c = ''c'' \<and> cn_access_token c = JStr ''t''
     \<and> map_of (ss_headers (cn_session c)) ''Authorization'' = Some (''Bearer '' @ py_str (cn_access_token c))"
  (is "\<exists>c. fst ?r = Inr c \<and> _ c")
proof -
  obtain r w' where r: "?r = (r, w')" by (rule prod.exhaust)
  have send: "send scripted c ([signed_reply], 0) = (signed_reply, ([], 1))" for c by (simp add: scripted_def)
  note facts = client_authenticate_correct [where ?'j = int and base_url = None and cfg = default_client_settings
      and tr = scripted and auth_request = "[]" and w = "([signed_reply], 0)",
      unfolded Let_def r send prod.case, THEN conjunct2, THEN conjunct2]
  have "\<exists>c. r = Inr c \<and> cn_access_token c = JStr ''t'' \<and> cn_client_id c = ''c'' \<and> cn_name c = JStr ''alice''"
    using facts [THEN conjunct1, THEN spec, of "JStr ''t''", THEN spec, of "''c''", THEN spec, of "JStr ''alice''"]
    by (simp add: demo_reply_def signed_reply_def)
  with facts [THEN conjunct2] show ?thesis unfolding r by (metis fst_conv)
qed

section \<open>Posting\<close>

text \<open>The one call that posting a message makes, and what becomes of it.\<close>

definition post_call :: "session \<Rightarrow> string \<Rightarrow> client_settings \<Rightarrow> string \<Rightarrow> string \<Rightarrow> int option \<Rightarrow> bytes \<Rightarrow> http_call" where
  "post_call session url cfg request_id content_type timeout body = \<lparr>hc_session_headers = ss_headers session,
     hc_method = ''POST'', hc_url = url, hc_timeout = http_timeout_seconds timeout (cs_network_buffer_ms cfg),
     hc_params = (''request_id'', PStr request_id) # timeout_param timeout,
     hc_headers = [(''Content-Type'', content_type)], hc_body = DataBody body\<rparr>"

definition posted :: "outcome \<Rightarrow> 'a \<Rightarrow> client_error + 'a \<Rightarrow> bool" where
  "posted outcome v result \<longleftrightarrow> (result = Inr v \<longleftrightarrow> (\<exists>resp. outcome = Answer resp \<and> rp_status resp = 202))
     \<and> (\<forall>v'. result = Inr v' \<longrightarrow> v' = v)
     \<and> ((\<exists>d. result = Inl (PypeTimeoutError d)) \<longleftrightarrow>
          outcome = RequestTimeout \<or> (\<exists>resp. outcome = Answer resp \<and> rp_status resp = 503))
     \<and> (\<forall>e. result = Inl e \<longrightarrow> is_pype_error e)"

lemma verdict_posted:
  "posted oc v (case verdict m u {202} oc of Inl e \<Rightarrow> Inl e | Inr _ \<Rightarrow> Inr v)"
  using verdict_Inr [of m u "{202}" oc] verdict_timeout [of m u "{202}" oc] verdict_pype [of m u "{202}" oc]
  by (cases "verdict m u {202} oc") (auto simp: posted_def)

lemma checked_post:
  "checked_call tr session ''POST'' url (http_timeout_seconds timeout (cs_network_buffer_ms cfg))
     ((''request_id'', PStr rid) # timeout_param timeout) [(''Content-Type'', ct)] (DataBody body) {202} w =
   (case send tr (post_call session url cfg rid ct timeout body) w of (oc, w') \<Rightarrow> (verdict ''POST'' url {202} oc, w'))"
  by (simp add: checked_call_verdict post_call_def split: prod.split)

text \<open>
  C29: posting is one call. \<open>send_request\<close> of a client and \<open>send_response\<close> of a fetched request, on open
  connections, encode the body first: a text that has no UTF-8 encoding raises \<open>UnicodeEncodeError\<close>
  without a call. Otherwise they make exactly one \<open>POST\<close>, to the service named or to the client the
  request came from, with the request id, the content type, the timeout and the encoded body, and
  succeed if and only if the server answers 202; a 503 and a socket timeout are \<open>PypeTimeoutError\<close>s, and every other
  failure is a \<open>PypeClientError\<close> too. A response answers the id of the request it was fetched with;
  a new request has the next id of the connection, which is used up even when sending fails.
\<close>

theorem posting_correct:
  fixes req :: "'j fetched" and c :: "'i client_connection"
  assumes "\<not> cn_closed c" "\<not> svc_closed (conns ! cr_connection req)"
  shows "case to_bytes message of
      Inl e \<Rightarrow> send_request tr service_name message content_type timeout c w = (Inl e, minted c, w)
        \<and> request_send_response tr conns req message content_type timeout w = (Inl e, w)
    | Inr body \<Rightarrow>
        (let s = conns ! cr_connection req;
             (oc, w1) = send tr (post_call (cn_session c) (cn_base_url c @ ''/services/'' @ service_name) (cn_settings c)
               (next_id c) content_type timeout body) w;
             (result, c', w') = send_request tr service_name message content_type timeout c w;
             (oc2, w2) = send tr (post_call (svc_session s) (svc_base_url s @ ''/clients/'' @ cr_client_id req) (svc_settings s)
               (cr_request_id req) content_type timeout body) w;
             (result2, w2') = request_send_response tr conns req message content_type timeout w
         in w' = w1 \<and> c' = minted c \<and> posted oc (next_id c) result \<and> w2' = w2 \<and> posted oc2 () result2)"
proof (cases "to_bytes message")
  case (Inl e)
  with assms show ?thesis
    by (simp add: send_request_def client_ensure_open_def mint_eq request_send_response_def service_send_response_def
        service_ensure_open_def)
next
  case (Inr body)
  define url where "url = cn_base_url c @ ''/services/'' @ service_name"
  define url2 where "url2 = svc_base_url (conns ! cr_connection req) @ ''/clients/'' @ cr_client_id req"
  obtain oc w1 where 1: "send tr (post_call (cn_session c) url (cn_settings c) (next_id c) content_type timeout body) w = (oc, w1)"
    by fastforce
  obtain oc2 w2 where 2: "send tr (post_call (svc_session (conns ! cr_connection req)) url2
      (svc_settings (conns ! cr_connection req)) (cr_request_id req) content_type timeout body) w = (oc2, w2)" by fastforce
  have "send_request tr service_name message content_type timeout c w =
      (case verdict ''POST'' url {202} oc of Inl e \<Rightarrow> Inl e | Inr _ \<Rightarrow> Inr (next_id c), minted c, w1)"
    using assms(1) Inr 1 by (simp add: send_request_def client_ensure_open_def mint_eq checked_post url_def [symmetric]
        del: append.simps split: sum.split)
  moreover have "request_send_response tr conns req message content_type timeout w =
      (case verdict ''POST'' url2 {202} oc2 of Inl e \<Rightarrow> Inl e | Inr _ \<Rightarrow> Inr (), w2)"
    using assms(2) Inr 2 by (simp add: request_send_response_def service_send_response_def Let_def service_ensure_open_def
        checked_post url2_def [symmetric] del: append.simps split: sum.split)
  ultimately show ?thesis using Inr 1 2
    by (simp add: Let_def verdict_posted url_def [symmetric] url2_def [symmetric] del: append.simps)
qed

theorem posting_correct_witness:
  "(\<exists>e. send_request (demo_transport (demo_reply 503 [] None)) ''echo'' (Bytes [1]) ''text/plain'' None demo_conn 0 =
       (Inl (PypeTimeoutError e), minted demo_conn, 1))
   \<and> request_send_response (demo_transport (demo_reply 503 [] None)) [demo_connection]
         (new_client_request ''c'' ''1'' ''text/plain'' [] (JStr ''echo'') 0 :: int fetched) (Bytes [1]) ''text/plain'' None 0
       \<noteq> (Inr (), 1)"
proof -
  let ?req = "new_client_request ''c'' ''1'' ''text/plain'' [] (JStr ''echo'') 0 :: int fetched"
  have "\<not> cn_closed demo_conn" "\<not> svc_closed ([demo_connection] ! cr_connection ?req)"
    by (simp_all add: demo_conn_def demo_connection_def new_client_request_def)
  from posting_correct [OF this, where message = "Bytes [1]" and service_name = "''echo''" and content_type = "''text/plain''"
      and timeout = None and w = 0 and tr = "demo_transport (demo_reply 503 [] None)"]
  show ?thesis by (auto simp: demo_transport_def demo_reply_def posted_def Let_def split: prod.splits)
qed

section \<open>Closing\<close>

text \<open>
  C23: \<open>close\<close> always succeeds: whatever comes of the one logoff call, the connection and its session
  end up closed. From then on it is silent: closing again changes nothing, and every other method
  raises \<open>RuntimeError\<close> without a call, leaving the connection and the world as they are.
\<close>

theorem client_close_correct:
  "let (c', w') = client_close tr c w; error = RuntimeErr ''ClientConnection is closed''
   in cn_closed c' \<and> ss_closed (cn_session c') = (if cn_closed c then ss_closed (cn_session c) else True)
    \<and> w' = (if cn_closed c then w else snd (send tr \<lparr>hc_session_headers = ss_headers (cn_session c), hc_method = ''DELETE'',
          hc_url = cn_base_url c @ ''/auth/client'', hc_timeout = Some (seconds (cs_auth_timeout_ms (cn_settings c))),
          hc_params = [], hc_headers = [], hc_body = NoBody\<rparr> w))
    \<and> client_close tr c' w1 = (c', w1)
    \<and> send_request tr service_name request content_type timeout c' w1 = (Inl error, c', w1)
    \<and> client_call tr service_name request content_type timeout c' w1 = Some (Inl error, c', w1)
    \<and> get_response tr rid timeout c' w1 = Some (Inl error, c', w1)
    \<and> get_any_responses tr rids timeout c' w1 = Some (Inl error, c', w1)
    \<and> get_all_responses tr rids timeout c' w1 = Some (Inl error, c', w1)
    \<and> get_response_quorum tr q rids timeout c' w1 = Some (Inl error, c', w1)"
proof -
  obtain c' w' where close: "client_close tr c w = (c', w')" by fastforce
  then have "cn_closed c'" by (auto simp: client_close_def split: if_splits prod.splits)
  with close show ?thesis
    by (auto simp: client_close_def send_request_def client_call_def get_response_def get_any_responses_def
        get_all_responses_def get_response_quorum_def client_ensure_open_def split: if_splits prod.splits)
qed

section \<open>Quorums over repeated ids\<close>



end
