(* ===== verification/Client_Progress.thy ===== *)
theory Client_Progress
  imports Client_Calls
begin

text \<open>
  When the waiting methods of \<open>ClientConnection\<close> return.

  \<^item> With a finite timeout every loop ends, if the clock does not run backwards and every call takes
    at least some fixed time (\<open>progressing\<close>); the number of iterations left is bounded by the time
    left.
  \<^item> Without a timeout \<open>get_response\<close> goes on past empty answers and past other
    responses exactly until its response arrives; if only empty answers ever come, it never returns.
\<close>

section \<open>Finite timeouts\<close>

definition progressing :: "'w transport \<Rightarrow> ('w \<Rightarrow> rat) \<Rightarrow> rat \<Rightarrow> bool" where
  "progressing tr clock step \<longleftrightarrow> 0 < step \<and>
     (\<forall>req w. clock w + step \<le> clock (snd (send tr req w))) \<and>
     (\<forall>w. fst (read_time tr w) = clock (snd (read_time tr w)) \<and> clock w \<le> clock (snd (read_time tr w)))"

lemma ms_until_negative:
  assumes "d + 1 < t"
  shows "ms_until d t < 0"
proof -
  have "py_sub d t \<le> - 1"
    using binary64.rnd_le_int [of "d - t" "- 1"] assms by (simp add: py_sub_def)
  then have "py_sub d t * 1000 \<le> of_int (- 1000)" by simp
  then have "py_mul (py_sub d t) 1000 \<le> - 1000"
    using binary64.rnd_le_int [of "py_sub d t * 1000" "- 1000"] by (simp add: py_mul_def)
  then show ?thesis using trunc_mono [of "py_mul (py_sub d t) 1000" "- 1000"] by (simp add: ms_until_def trunc_def)
qed

text \<open>How many more calls a loop with deadline \<open>d\<close> can make.\<close>

definition calls_left :: "('w \<Rightarrow> rat) \<Rightarrow> rat \<Rightarrow> rat \<Rightarrow> 'w \<Rightarrow> nat" where
  "calls_left clock step d w = nat \<lceil>(d + 2 - clock w) / step\<rceil>"

lemma poll_progress:
  assumes "progressing tr clock step" "deadline_remaining_ms tr (Some d) w = (remaining, w1)"
    "poll_one tr c remaining w1 = (Inr p, w2)"
  shows "calls_left clock step d w2 < calls_left clock step d w"
proof -
  have step: "0 < step" using assms(1) by (simp add: progressing_def)
  obtain t where t: "read_time tr w = (t, w1)" "remaining = Some (ms_until d t)"
    using assms(2) by (auto simp: deadline_remaining_ms_def split: prod.splits)
  have "fst (read_time tr w) = clock (snd (read_time tr w)) \<and> clock w \<le> clock (snd (read_time tr w))"
    using assms(1) unfolding progressing_def by blast
  then have clock: "t = clock w1" "clock w \<le> clock w1" by (simp_all add: t(1))
  have "0 \<le> ms_until d t" using assms(3) by (auto simp: poll_one_def t(2) split: if_splits)
  then have "t \<le> d + 1" using ms_until_negative [of d t] by linarith
  moreover have "clock w1 + step \<le> clock w2"
  proof -
    have "w2 = snd (checked_call tr (cn_session c) ''GET'' (cn_base_url c @ ''/clients/'' @ cn_client_id c)
        (http_timeout_seconds remaining (cs_network_buffer_ms (cn_settings c))) (timeout_param remaining) [] NoBody {200, 204} w1)"
      using assms(3) unfolding poll_one_def by (auto split: if_splits prod.splits sum.splits option.splits)
    with assms(1) show ?thesis unfolding checked_call_verdict progressing_def by simp
  qed
  ultimately have "d + 2 - clock w2 \<le> (d + 2 - clock w) - step" "0 < d + 2 - clock w" using clock by linarith+
  then have "(d + 2 - clock w2) / step \<le> (d + 2 - clock w - step) / step" "0 < (d + 2 - clock w) / step"
    using step by (simp_all add: divide_right_mono)
  moreover have "(d + 2 - clock w - step) / step = (d + 2 - clock w) / step - 1" using step by (simp add: diff_divide_distrib)
  ultimately have "(d + 2 - clock w2) / step \<le> (d + 2 - clock w) / step - 1" "0 < (d + 2 - clock w) / step" by linarith+
  then show ?thesis unfolding calls_left_def by linarith
qed

lemma get_response_loop_ends:
  assumes "progressing tr clock step"
  shows "get_response_loop tr rid False (Some d) c w \<noteq> None"
proof (induction "calls_left clock step d w" arbitrary: c w rule: less_induct)
  case less
  obtain remaining w1 where rem: "deadline_remaining_ms tr (Some d) w = (remaining, w1)" by fastforce
  obtain p w2 where poll: "poll_one tr c remaining w1 = (p, w2)" by fastforce
  show ?case
  proof (cases p rule: polled_cases)
    case (resp s)
    with less [OF poll_progress [OF assms rem poll [unfolded resp]]] poll show ?thesis
      by (subst get_response_loop.simps) (simp add: rem)
  qed (subst get_response_loop.simps, simp add: rem poll)+
qed

lemma loop_until_loop_ends:
  assumes "progressing tr clock step"
  shows "loop_until_loop tr is_done False (Some d) c w \<noteq> None"
proof (induction "calls_left clock step d w" arbitrary: c w rule: less_induct)
  case less
  obtain remaining w1 where rem: "deadline_remaining_ms tr (Some d) w = (remaining, w1)" by fastforce
  obtain p w2 where poll: "poll_one tr c remaining w1 = (p, w2)" by fastforce
  show ?case
  proof (cases p rule: polled_cases)
    case (resp s)
    with less [OF poll_progress [OF assms rem poll [unfolded resp]]] poll show ?thesis
      by (subst loop_until_loop.simps) (simp add: rem)
  qed (subst loop_until_loop.simps, simp add: rem poll)+
qed

lemma get_response_ends:
  assumes "progressing tr clock step"
  shows "get_response tr rid (Some ms) c w \<noteq> None"
  using get_response_loop_ends [OF assms]
  by (auto simp: get_response_def new_deadline_def split: option.splits prod.splits)

lemma loop_until_ends:
  assumes "progressing tr clock step"
  shows "loop_until tr is_done (Some ms) c w \<noteq> None"
  by (simp add: loop_until_def new_deadline_def loop_until_loop_ends [OF assms] del: not_None_eq split: prod.splits)

lemma gather_ends:
  assumes "progressing tr clock step"
  shows "gather tr P rids (Some ms) c w \<noteq> None"
  using loop_until_ends [OF assms, of "P (remdups rids)" ms c w]
  by (auto simp: gather_def split: option.splits prod.splits)

lemma call_fallback_ends:
  assumes "progressing tr clock step"
  shows "call_fallback tr (Some d) rid c w \<noteq> None"
  using get_response_ends [OF assms]
  by (auto simp: call_fallback_def deadline_remaining_ms_def split: prod.splits)

text \<open>
  C19: with a finite timeout every waiting method returns, with a result or an error, however many
  responses to other requests keep coming: it is enough that the clock does not run backwards and
  that every call takes at least some fixed time.
\<close>

theorem finite_timeouts_return:
  assumes "progressing tr clock step"
  shows "get_response tr rid (Some ms) c w \<noteq> None
    \<and> client_call tr service_name request content_type (Some ms) c w \<noteq> None
    \<and> get_any_responses tr rids (Some ms) c w \<noteq> None
    \<and> get_all_responses tr rids (Some ms) c w \<noteq> None
    \<and> get_response_quorum tr q rids (Some ms) c w \<noteq> None"
proof (intro conjI)
  show "client_call tr service_name request content_type (Some ms) c w \<noteq> None"
    using call_fallback_ends [OF assms]
    by (auto simp: client_call_def new_deadline_def Let_def split: option.splits sum.splits prod.splits if_splits)
qed (use get_response_ends [OF assms] gather_ends [OF assms] in
    \<open>auto simp: get_any_responses_def get_all_responses_def get_response_quorum_def split: option.splits\<close>)

lemma scripted_progressing: "progressing scripted snd 1"
  by (auto simp: progressing_def scripted_def split: list.splits)

theorem finite_timeouts_return_witness:
  "get_response scripted ''1'' (Some 2000) demo_conn (replicate 100 (answer ''2''), 0) \<noteq> None"
  using finite_timeouts_return [OF scripted_progressing] by blast

section \<open>Waiting without a timeout\<close>

text \<open>The one call the loop repeats, the world after some of them, and the outcome of the next.\<close>

definition poll_call :: "'j client_connection \<Rightarrow> http_call" where
  "poll_call c = \<lparr>hc_session_headers = ss_headers (cn_session c), hc_method = ''GET'',
     hc_url = cn_base_url c @ ''/clients/'' @ cn_client_id c, hc_timeout = None, hc_params = [], hc_headers = [],
     hc_body = NoBody\<rparr>"

definition world_after :: "'w transport \<Rightarrow> http_call \<Rightarrow> nat \<Rightarrow> 'w \<Rightarrow> 'w" where
  "world_after tr req n w = ((\<lambda>w. snd (send tr req w)) ^^ n) w"

definition outcome_at :: "'w transport \<Rightarrow> http_call \<Rightarrow> 'w \<Rightarrow> nat \<Rightarrow> outcome" where
  "outcome_at tr req w n = fst (send tr req (world_after tr req n w))"

definition delivers :: "outcome \<Rightarrow> string \<Rightarrow> http_reply \<Rightarrow> bool" where
  "delivers oc rid resp \<longleftrightarrow> oc = Answer resp \<and> rp_status resp = 200 \<and> map_of (rp_headers resp) ''X-Pype-Request-Id'' = Some rid"

definition delivers_nothing :: "outcome \<Rightarrow> bool" where
  "delivers_nothing oc \<longleftrightarrow> (\<exists>resp. oc = Answer resp \<and> rp_status resp = 204)"

text \<open>The response an outcome brings, if it brings one.\<close>

fun brought :: "outcome \<Rightarrow> 'j service_response list" where
  "brought (Answer resp) = (if rp_status resp = 200 then
     (case map_of (rp_headers resp) ''X-Pype-Request-Id'' of Some rid \<Rightarrow> [response_of rid resp ''application/json''] | None \<Rightarrow> []) else [])"
| "brought _ = []"

lemma world_after_Suc: "world_after tr req (Suc n) w = world_after tr req n (snd (send tr req w))"
  by (simp only: world_after_def funpow_Suc_right comp_apply)

lemma outcome_at_Suc: "outcome_at tr req w (Suc n) = outcome_at tr req (snd (send tr req w)) n"
  by (simp add: outcome_at_def world_after_Suc)

lemma poll_call_same: "same_but_cache c c' \<Longrightarrow> poll_call c' = poll_call c"
  by (elim same_but_cacheE) (simp add: poll_call_def)

lemma poll_one_None:
  "poll_one tr c None w = (case send tr (poll_call c) w of (oc, w') \<Rightarrow>
     (case verdict ''GET'' (cn_base_url c @ ''/clients/'' @ cn_client_id c) {200, 204} oc of
        Inl e \<Rightarrow> Inl e
      | Inr resp \<Rightarrow> if rp_status resp = 204 then Inr None
          else (case map_of (rp_headers resp) ''X-Pype-Request-Id'' of None \<Rightarrow> Inl missing_request_id
            | Some rid \<Rightarrow> Inr (Some (response_of rid resp ''application/json''))), w'))"
  unfolding poll_one_def checked_call_verdict poll_call_def http_timeout_seconds_def timeout_param_def
  by (auto simp del: append.simps split: prod.splits sum.splits option.splits)

lemma poll_one_forever:
  assumes send: "send tr (poll_call c) w = (oc, w')"
  shows "delivers oc rid resp \<Longrightarrow> poll_one tr c None w = (Inr (Some (response_of rid resp ''application/json'')), w')"
    "delivers_nothing oc \<Longrightarrow> poll_one tr c None w = (Inr None, w')"
proof -
  let ?v = "verdict ''GET'' (cn_base_url c @ ''/clients/'' @ cn_client_id c) {200, 204} oc"
  show "poll_one tr c None w = (Inr (Some (response_of rid resp ''application/json'')), w')" if "delivers oc rid resp"
  proof -
    have "?v = Inr resp" using that by (simp add: verdict_Inr delivers_def)
    with that show ?thesis unfolding poll_one_None send by (simp add: delivers_def)
  qed
  show "poll_one tr c None w = (Inr None, w')" if "delivers_nothing oc"
  proof -
    from that obtain resp where "?v = Inr resp" "rp_status resp = 204" by (auto simp: verdict_Inr delivers_nothing_def)
    then show ?thesis unfolding poll_one_None send by simp
  qed
qed

lemma get_response_loop_waits:
  assumes "delivers (outcome_at tr (poll_call c) w n) rid resp"
    "\<And>i. i < n \<Longrightarrow> delivers_nothing (outcome_at tr (poll_call c) w i) \<or>
        (\<exists>k r. k \<noteq> rid \<and> delivers (outcome_at tr (poll_call c) w i) k r)"
  shows "get_response_loop tr rid True None c w = Some (Inr (response_of rid resp ''application/json''),
      cache_all (concat (map (brought \<circ> outcome_at tr (poll_call c) w) [0..<n])) c, world_after tr (poll_call c) (Suc n) w)"
  using assms
proof (induction n arbitrary: c w)
  case 0
  obtain oc w' where s: "send tr (poll_call c) w = (oc, w')" by fastforce
  with 0 have "poll_one tr c None w = (Inr (Some (response_of rid resp ''application/json'')), w')"
    by (intro poll_one_forever) (simp_all add: outcome_at_def world_after_def)
  then show ?case
    by (subst get_response_loop.simps) (simp add: deadline_remaining_ms_def world_after_def s)
next
  case (Suc n)
  let ?req = "poll_call c"
  obtain oc w' where s: "send tr ?req w = (oc, w')" by fastforce
  then have oc: "outcome_at tr ?req w 0 = oc" by (simp add: outcome_at_def world_after_def)
  have shift: "outcome_at tr ?req w (Suc i) = outcome_at tr ?req w' i" for i by (simp add: outcome_at_Suc s)
  have later: "get_response_loop tr rid True None c' w' = Some (Inr (response_of rid resp ''application/json''),
      cache_all (concat (map (brought \<circ> outcome_at tr ?req w') [0..<n])) c', world_after tr ?req (Suc n) w')"
    if "same_but_cache c c'" for c'
    using Suc.IH [of c' w'] Suc.prems(1) Suc.prems(2) [of "Suc _"] poll_call_same [OF that] by (simp add: shift comp_def)
  have split: "cache_all (concat (map (brought \<circ> outcome_at tr ?req w) [0..<Suc n])) c =
      cache_all (concat (map (brought \<circ> outcome_at tr ?req w') [0..<n])) (cache_all (brought oc) c)"
    by (simp add: map_upt_Suc oc shift comp_def del: upt_Suc)
  have world: "world_after tr ?req (Suc (Suc n)) w = world_after tr ?req (Suc n) w'" by (simp add: world_after_Suc [of _ _ "Suc n"] s)
  from Suc.prems(2) [of 0] consider "delivers_nothing oc" | k r where "k \<noteq> rid" "delivers oc k r" by (auto simp: oc)
  then show ?case
  proof cases
    case 1
    then have "brought oc = ([] :: 'b service_response list)" by (auto simp: delivers_nothing_def)
    with poll_one_forever(2) [OF s 1] later [OF same_but_cache_refl] show ?thesis
      unfolding split world by (subst get_response_loop.simps) (simp add: deadline_remaining_ms_def)
  next
    case (2 k r)
    then have "brought oc = [response_of k r ''application/json'' :: 'b service_response]" by (auto simp: delivers_def)
    with poll_one_forever(1) [OF s 2(2)] 2(1) later [OF same_but_cache_cached(1)] show ?thesis
      unfolding split world by (subst get_response_loop.simps) (simp add: deadline_remaining_ms_def)
  qed
qed

lemma get_response_loop_stuck:
  assumes "get_response_loop tr rid True None c w = Some y" "\<And>i. delivers_nothing (outcome_at tr (poll_call c) w i)"
  shows False
proof -
  have "forever \<longrightarrow> d = None \<longrightarrow> (\<forall>i. delivers_nothing (outcome_at tr (poll_call c) w i)) \<longrightarrow> False"
    if "get_response_loop tr rid forever d c w = Some y" for forever d
  proof (rule get_response_loop.raw_induct [where P = "\<lambda>tr rid forever d c w y. forever \<longrightarrow> d = None \<longrightarrow>
      (\<forall>i. delivers_nothing (outcome_at tr (poll_call c) w i)) \<longrightarrow> False", OF _ that], intro impI)
    fix loop and tr :: "'b transport" and rid forever d and c :: "'a client_connection" and w y
    assume IH: "\<And>tr rid forever d c w y. loop tr rid forever d c w = Some y \<Longrightarrow> forever \<longrightarrow> d = None \<longrightarrow>
        (\<forall>i. delivers_nothing (outcome_at tr (poll_call c) w i)) \<longrightarrow> False"
      and body: "(case deadline_remaining_ms tr d w of (remaining, w) \<Rightarrow>
        (case poll_one tr c remaining w of
          (Inl e, w) \<Rightarrow> Some (Inl e, c, w)
        | (Inr None, w) \<Rightarrow> if \<not> forever then Some (Inl queue_empty, c, w) else loop tr rid forever d c w
        | (Inr (Some resp), w) \<Rightarrow> if sr_request_id resp = rid then Some (Inr resp, c, w)
            else loop tr rid forever d (cache_response resp c) w)) = Some y"
      and *: "forever" "d = None" "\<forall>i. delivers_nothing (outcome_at tr (poll_call c) w i)"
    obtain oc w' where s: "send tr (poll_call c) w = (oc, w')" by fastforce
    have "delivers_nothing oc" using *(3) [rule_format, of 0] by (simp add: outcome_at_def world_after_def s)
    from body poll_one_forever(2) [OF s this] * have "loop tr rid forever d c w' = Some y"
      by (simp add: deadline_remaining_ms_def)
    moreover have "\<forall>i. delivers_nothing (outcome_at tr (poll_call c) w' i)"
      using *(3) [rule_format, of "Suc _"] by (simp add: outcome_at_Suc s)
    ultimately show False using IH * by blast
  qed
  with assms show False by blast
qed

text \<open>
  C20: without a timeout \<open>get_response\<close> waits exactly as long as it must. If polling brings the
  wanted response after any number of empty answers and of responses to other requests, it returns that response, right
  after the poll that brought it, and has cached exactly the others, in order. If polling never brings anything,
  it never returns.
\<close>

theorem get_response_waits:
  assumes "\<not> cn_closed c" "map_of (cn_cache c) rid = None"
  shows "(\<forall>n resp. delivers (outcome_at tr (poll_call c) w n) rid resp
        \<and> (\<forall>i < n. delivers_nothing (outcome_at tr (poll_call c) w i) \<or>
             (\<exists>k r. k \<noteq> rid \<and> delivers (outcome_at tr (poll_call c) w i) k r)) \<longrightarrow>
      get_response tr rid None c w = Some (Inr (response_of rid resp ''application/json''),
        cache_all (concat (map (brought \<circ> outcome_at tr (poll_call c) w) [0..<n])) c, world_after tr (poll_call c) (Suc n) w))
    \<and> ((\<forall>i. delivers_nothing (outcome_at tr (poll_call c) w i)) \<longrightarrow> get_response tr rid None c w = None)"
proof -
  have "get_response tr rid None c w = get_response_loop tr rid True None c w"
    using assms by (simp add: get_response_def client_ensure_open_def new_deadline_def)
  moreover have "get_response_loop tr rid True None c w = None" if "\<forall>i. delivers_nothing (outcome_at tr (poll_call c) w i)"
    using get_response_loop_stuck [of tr rid c w] that by (cases "get_response_loop tr rid True None c w") blast+
  ultimately show ?thesis using get_response_loop_waits [where tr = tr and c = c and w = w and rid = rid] by simp
qed

theorem get_response_waits_witness:
  "get_response scripted ''1'' None demo_conn ([no_content, answer ''2'', answer ''1''], 0) =
     Some (Inr (response_of ''1'' (demo_reply 200 [(''X-Pype-Request-Id'', ''1'')] None) ''application/json''),
       cache_all [response_of ''2'' (demo_reply 200 [(''X-Pype-Request-Id'', ''2'')] None) ''application/json''] demo_conn, ([], 3))"
proof -
  let ?w = "([no_content, answer ''2'', answer ''1''], 0 :: rat)"
  have at: "outcome_at scripted r ?w 0 = no_content" "outcome_at scripted r ?w (Suc 0) = answer ''2''"
    "outcome_at scripted r ?w 2 = answer ''1''" "world_after scripted r 3 ?w = ([], 3)" for r
    by (simp_all add: outcome_at_def world_after_def scripted_def numeral_2_eq_2 numeral_3_eq_3)
  have "delivers (answer k) k (demo_reply 200 [(''X-Pype-Request-Id'', k)] None)" for k
    by (simp add: delivers_def answer_def demo_reply_def)
  moreover have "delivers_nothing no_content" by (simp add: delivers_nothing_def no_content_def demo_reply_def)
  moreover have "i = 0 \<or> i = Suc 0" if "i < 2" for i :: nat using that by auto
  moreover have "''2'' \<noteq> ''1''" by simp
  ultimately have "delivers (outcome_at scripted (poll_call demo_conn) ?w 2) ''1'' (demo_reply 200 [(''X-Pype-Request-Id'', ''1'')] None)
      \<and> (\<forall>i < 2. delivers_nothing (outcome_at scripted (poll_call demo_conn) ?w i) \<or>
           (\<exists>k r. k \<noteq> ''1'' \<and> delivers (outcome_at scripted (poll_call demo_conn) ?w i) k r))"
    unfolding at by (metis at(1,2))
  moreover have "map_of (cn_cache demo_conn) ''1'' = None" by (simp add: demo_conn_def)
  ultimately have "get_response scripted ''1'' None demo_conn ?w =
     Some (Inr (response_of ''1'' (demo_reply 200 [(''X-Pype-Request-Id'', ''1'')] None) ''application/json''),
       cache_all (concat (map (brought \<circ> outcome_at scripted (poll_call demo_conn) ?w) [0..<2])) demo_conn,
       world_after scripted (poll_call demo_conn) (Suc 2) ?w)"
    using get_response_waits [OF demo_conn_ok(2), of "''1''" scripted ?w] by blast
  moreover have "[0..<2] = [0, Suc 0]" by (simp add: upt_rec)
  moreover have "brought no_content = ([] :: int service_response list)"
    "brought (answer k) = [response_of k (demo_reply 200 [(''X-Pype-Request-Id'', k)] None) ''application/json'' :: int service_response]" for k
    by (simp_all add: answer_def no_content_def demo_reply_def)
  ultimately show ?thesis by (simp add: at)
qed

end
