(* ===== verification/Wire.thy ===== *)
theory Wire
  imports Mailbox Client_Progress
begin

text \<open>
  The client library on top of the server.

  \<^item> \<open>server_request\<close>: what FastAPI makes of a call of the library (the routes of \<open>main.py\<close> and the
    parameters of the handlers); \<open>client_reply\<close>: what \<open>requests\<close> makes of the answer.
  \<^item> \<open>server_transport\<close>: a transport whose world is a server process and the random draws it will
    make; a call runs the handler undisturbed. Serialisation of JSON and the header that Starlette
    sends for a media type are parameters (\<open>codec\<close>).
  \<^item> \<open>session_round_trip\<close>: both sides sign in, and a request and its response cross the server.
\<close>

section \<open>Serialisation\<close>

record codec =
  dump :: "json \<Rightarrow> bytes"
  parse :: "bytes \<Rightarrow> json option"
  decode :: "bytes \<Rightarrow> string"
  sent_type :: "string \<Rightarrow> string"

text \<open>The documents that matter are objects whose fields are strings.\<close>

definition codec_ok :: "codec \<Rightarrow> bool" where
  "codec_ok k \<longleftrightarrow> (\<forall>kvs. parse k (dump k (JObj (str_claims kvs))) = Some (JObj (str_claims kvs)))"

section \<open>Routes\<close>

text \<open>
  A path parameter is one non-empty segment that means itself in a URL: the characters that end a segment
  or the path, the escape character, and the two dot segments that are normalised away are left out.
\<close>

fun strip_prefix :: "string \<Rightarrow> string \<Rightarrow> string option" where
  "strip_prefix [] s = Some s"
| "strip_prefix (c # cs) [] = None"
| "strip_prefix (c # cs) (d # ds) = (if c = d then strip_prefix cs ds else None)"

definition segment :: "string \<Rightarrow> bool" where
  "segment s \<longleftrightarrow> s \<noteq> [] \<and> s \<noteq> ''.'' \<and> s \<noteq> ''..'' \<and> list_all (\<lambda>c. c \<notin> set ''/?#%'') s"

definition path_param :: "string \<Rightarrow> string \<Rightarrow> string option" where
  "path_param prefix path = (case strip_prefix prefix path of
     Some s \<Rightarrow> if segment s then Some s else None | None \<Rightarrow> None)"

definition endpoint_of :: "string \<Rightarrow> string \<Rightarrow> endpoint option" where
  "endpoint_of method path =
     (if method = ''POST'' \<and> path = ''/auth/service'' then Some AuthService
      else if method = ''POST'' \<and> path = ''/auth/client'' then Some AuthClient
      else if method = ''DELETE'' \<and> path = ''/auth/client'' then Some LogoffClient
      else if method = ''GET'' \<and> path = ''/load/services'' then Some LoadServices
      else case path_param ''/services/'' path of
        Some service_name \<Rightarrow>
          if method = ''POST'' then Some (PostService service_name)
          else if method = ''GET'' then Some (GetService service_name) else None
      | None \<Rightarrow> (case path_param ''/clients/'' path of
          Some client_id \<Rightarrow>
            if method = ''POST'' then Some (PostClient client_id)
            else if method = ''GET'' then Some (GetClient client_id) else None
        | None \<Rightarrow> None))"

fun query_str :: "param option \<Rightarrow> string option" where
  "query_str (Some (PStr s)) = Some s"
| "query_str (Some (PInt n)) = Some (py_str_int n)"
| "query_str None = None"

fun query_int :: "param option \<Rightarrow> int option" where
  "query_int (Some (PInt n)) = Some n"
| "query_int _ = None"

fun body_name :: "call_body \<Rightarrow> string" where
  "body_name (JsonBody v) = (case (as_str (subscript v ''name''), as_str (subscript v ''service_name'')) of
     (Some s, _) \<Rightarrow> s | (None, Some s) \<Rightarrow> s | (None, None) \<Rightarrow> [])"
| "body_name _ = []"

fun body_bytes :: "call_body \<Rightarrow> bytes" where
  "body_bytes (DataBody b) = b"
| "body_bytes _ = []"

definition server_request :: "string \<Rightarrow> http_call \<Rightarrow> http_request option" where
  "server_request base req = (case strip_prefix base (hc_url req) of
     None \<Rightarrow> None
   | Some path \<Rightarrow> (case endpoint_of (hc_method req) path of
       None \<Rightarrow> None
     | Some endpoint \<Rightarrow> Some \<lparr>hr_endpoint = endpoint,
         hr_authorization = map_of (hc_session_headers req) ''Authorization'',
         hr_request_id = query_str (map_of (hc_params req) ''request_id''),
         hr_timeout = query_int (map_of (hc_params req) ''timeout''),
         hr_block = (query_int (map_of (hc_params req) ''block'') = Some 1),
         hr_content_type = map_of (hc_headers req) ''Content-Type'',
         hr_name = body_name (hc_body req), hr_body = body_bytes (hc_body req)\<rparr>))"

definition reply_response :: "reply \<Rightarrow> http_response" where
  "reply_response p = (case p of
     Reply response \<Rightarrow> response
   | Raised exc \<Rightarrow> pype_error_handler exc
   | Unprocessable \<Rightarrow> json_response 422 [] (JObj [(''detail'', JArr [])]))"

definition client_reply :: "codec \<Rightarrow> reply \<Rightarrow> http_reply" where
  "client_reply k p =
     (let response = reply_response p;
          bs = (case content response of Raw bs \<Rightarrow> bs | Json v \<Rightarrow> dump k v)
      in \<lparr>rp_status = status response,
          rp_headers = headers response @ (case media_type response of Some t \<Rightarrow> [(''Content-Type'', sent_type k t)] | None \<Rightarrow> []),
          rp_content = bs, rp_text = decode k bs, rp_json = parse k bs\<rparr>)"

section \<open>A transport made of the server\<close>

text \<open>Signing in takes the next draw of the random source.\<close>

fun draws_random :: "endpoint \<Rightarrow> bool" where
  "draws_random AuthService = True"
| "draws_random AuthClient = True"
| "draws_random _ = False"

definition not_found :: outcome where
  "not_found = Answer \<lparr>rp_status = 404, rp_headers = [], rp_content = [], rp_text = [], rp_json = None\<rparr>"

definition server_transport :: "ext \<Rightarrow> settings \<Rightarrow> codec \<Rightarrow> string \<Rightarrow> (server \<times> bytes list) transport" where
  "server_transport x cfg k base = \<lparr>
     send = (\<lambda>req (sv, draws). case server_request base req of
         None \<Rightarrow> (not_found, (sv, draws))
       | Some r \<Rightarrow>
           (case serve (handle x cfg (case draws of [] \<Rightarrow> [] | d # _ \<Rightarrow> d) r) sv of
             (sv, p) \<Rightarrow> (Answer (client_reply k p), (sv, if draws_random (hr_endpoint r) then tl draws else draws)))),
     read_time = (\<lambda>(sv, draws). case read_clock sv of (t, sv) \<Rightarrow> (t, (sv, draws)))\<rparr>"

lemma send_server:
  assumes "server_request base req = Some r" "serve (handle x cfg (case draws of [] \<Rightarrow> [] | d # _ \<Rightarrow> d) r) sv = (sv', p)"
  shows "send (server_transport x cfg k base) req (sv, draws) =
    (Answer (client_reply k p), (sv', if draws_random (hr_endpoint r) then tl draws else draws))"
  using assms by (simp add: server_transport_def)

lemma strip_prefix_append [simp]: "strip_prefix p (p @ s) = Some s"
  by (induction p) simp_all

lemma path_param_append [simp]: "segment s \<Longrightarrow> path_param p (p @ s) = Some s"
  by (simp add: path_param_def)

lemma strip_services [simp]:
  "strip_prefix ''/services/'' (''/services/'' @ s) = Some s" "strip_prefix ''/clients/'' (''/clients/'' @ s) = Some s"
  by simp_all

lemma endpoints:
  "endpoint_of ''POST'' ''/auth/service'' = Some AuthService"
  "endpoint_of ''POST'' ''/auth/client'' = Some AuthClient"
  "endpoint_of ''DELETE'' ''/auth/client'' = Some LogoffClient"
  "segment s \<Longrightarrow> endpoint_of ''POST'' (''/services/'' @ s) = Some (PostService s)"
  "segment s \<Longrightarrow> endpoint_of ''GET'' (''/services/'' @ s) = Some (GetService s)"
  "segment s \<Longrightarrow> endpoint_of ''POST'' (''/clients/'' @ s) = Some (PostClient s)"
  "segment s \<Longrightarrow> endpoint_of ''GET'' (''/clients/'' @ s) = Some (GetClient s)"
  by (simp_all add: endpoint_of_def path_param_def)

section \<open>Every call of the library, answered by the server\<close>

lemma verdict_answer: "rp_status resp \<in> codes \<Longrightarrow> verdict m u codes (Answer resp) = Inr resp"
  by (simp add: verdict_Inr)

text \<open>The next draw of the random source.\<close>

abbreviation next_draw :: "bytes list \<Rightarrow> bytes" where
  "next_draw draws \<equiv> (case draws of [] \<Rightarrow> [] | d # _ \<Rightarrow> d)"

lemma auth_documents:
  assumes "codec_ok k"
  shows "parse k (dump k (client_auth_response token name cid)) = Some (client_auth_response token name cid)"
    "parse k (dump k (service_auth_response token name secret)) = Some (service_auth_response token name secret)"
proof -
  have "client_auth_response token name cid = JObj (str_claims [(''access_token'', token), (''token_type'', ''Bearer''),
      (''role'', ''client''), (''name'', name), (''client_id'', cid)])"
    "service_auth_response token name secret = JObj (str_claims [(''access_token'', token), (''token_type'', ''Bearer''),
      (''role'', ''service''), (''name'', name), (''service_secret'', secret)])"
    by (simp_all add: client_auth_response_def service_auth_response_def str_claims_def)
  then show "parse k (dump k (client_auth_response token name cid)) = Some (client_auth_response token name cid)"
    "parse k (dump k (service_auth_response token name secret)) = Some (service_auth_response token name secret)"
    using assms unfolding codec_ok_def by simp_all
qed

lemma client_signs_in:
  assumes base: "resolve_base_url url ccfg = base" and k: "codec_ok k" and ne: "name \<noteq> []" "generate_secret d \<noteq> []"
  obtains c where "client_authenticate (server_transport x cfg k base) ccfg url [(''name'', JStr name)] (sv, d # ds) = (Inr c, (sv, ds))"
    "cn_client_id c = generate_secret d" "cn_base_url c = base" "\<not> cn_closed c" "cn_cache c = []" "cn_next_request_id c = 0"
    "map_of (ss_headers (cn_session c)) ''Authorization'' = bearer (issue_client_jwt x name (generate_secret d) cfg)"
proof -
  let ?cid = "generate_secret d"
  let ?v = "client_auth_response (issue_client_jwt x name ?cid cfg) name ?cid"
  let ?p = "Reply (json_response 200 [(''X-Pype-Server-IP'', internal_ip cfg)] ?v)"
  let ?r = "\<lparr>hr_endpoint = AuthClient, hr_authorization = None, hr_request_id = None, hr_timeout = None, hr_block = False,
      hr_content_type = None, hr_name = name, hr_body = []\<rparr>"
  have r: "server_request base (auth_call ccfg (base @ ''/auth/client'') [(''name'', JStr name)]) = Some ?r"
    by (simp add: server_request_def auth_call_def endpoints)
  have "serve (handle x cfg d ?r) sv = (sv, ?p)"
    using ne by (simp add: handle_def nonempty_def client_auth_def Let_def)
  then have send: "send (server_transport x cfg k base) (auth_call ccfg (base @ ''/auth/client'') [(''name'', JStr name)]) (sv, d # ds)
      = (Answer (client_reply k ?p), (sv, ds))"
    using send_server [OF r, where draws = "d # ds"] by simp
  have reply: "rp_status (client_reply k ?p) = 200" "rp_json (client_reply k ?p) = Some ?v"
    using auth_documents [OF k] by (simp_all add: client_reply_def reply_response_def json_response_def Let_def)
  have fields: "subscript ?v ''access_token'' = Some (JStr (issue_client_jwt x name ?cid cfg))"
    "as_str (subscript ?v ''client_id'') = Some ?cid" "subscript ?v ''name'' = Some (JStr name)"
    by (simp_all add: client_auth_response_def)
  let ?c = "\<lparr>cn_base_url = base, cn_name = JStr name, cn_client_id = ?cid,
      cn_access_token = JStr (issue_client_jwt x name ?cid cfg),
      cn_server_internal_ip = map_of (rp_headers (client_reply k ?p)) ''X-Pype-Server-IP'',
      cn_session = sign_session new_session (JStr (issue_client_jwt x name ?cid cfg)) (client_reply k ?p),
      cn_settings = ccfg, cn_closed = False, cn_next_request_id = 0, cn_cache = []\<rparr>"
  have "client_authenticate (server_transport x cfg k base) ccfg url [(''name'', JStr name)] (sv, d # ds) = (Inr ?c, (sv, ds))"
    using ne by (simp add: client_authenticate_def base auth_exchange_send send verdict_answer reply fields Let_def
        del: append.simps)
  from that [OF this] show thesis by (simp add: bearer_def)
qed

lemma service_signs_in:
  assumes base: "resolve_base_url url ccfg = base" and k: "codec_ok k" and ne: "name \<noteq> []" and ok: "server_ok x cfg sv"
  obtains c sv' secret where
    "service_authenticate (server_transport x cfg k base) ccfg url [(''service_name'', JStr name)] (sv, d # ds) = (Inr c, (sv', ds))"
    "svc_service_name c = JStr name" "svc_base_url c = base" "\<not> svc_closed c"
    "map_of (ss_headers (svc_session c)) ''Authorization'' = bearer (issue_service_jwt x name secret cfg)"
    "server_ok x cfg sv'" "view sv' = view sv"
proof -
  let ?secret = "generate_secret d"
  let ?v = "service_auth_response (issue_service_jwt x name ?secret cfg) name ?secret"
  let ?p = "Reply (json_response 200 [(''X-Pype-Server-IP'', internal_ip cfg)] ?v)"
  let ?r = "\<lparr>hr_endpoint = AuthService, hr_authorization = None, hr_request_id = None, hr_timeout = None, hr_block = False,
      hr_content_type = None, hr_name = name, hr_body = []\<rparr>"
  obtain q sv' where q: "service_queue_for name sv = (q, sv')" by fastforce
  have r: "server_request base (auth_call ccfg (base @ ''/auth/service'') [(''service_name'', JStr name)]) = Some ?r"
    by (simp add: server_request_def auth_call_def endpoints)
  have "serve (handle x cfg d ?r) sv = serve (reply_with (json_response 200 [(''X-Pype-Server-IP'', internal_ip cfg)] ?v)) sv'"
    by (rule serve_cong) (simp add: handle_def nonempty_def ne service_auth_def Let_def q)
  then have send: "send (server_transport x cfg k base) (auth_call ccfg (base @ ''/auth/service'') [(''service_name'', JStr name)]) (sv, d # ds)
      = (Answer (client_reply k ?p), (sv', ds))"
    using send_server [OF r, where draws = "d # ds"] by simp
  have reply: "rp_status (client_reply k ?p) = 200" "rp_json (client_reply k ?p) = Some ?v"
    using auth_documents [OF k] by (simp_all add: client_reply_def reply_response_def json_response_def Let_def)
  have fields: "subscript ?v ''access_token'' = Some (JStr (issue_service_jwt x name ?secret cfg))"
    "subscript ?v ''name'' = Some (JStr name)"
    by (simp_all add: service_auth_response_def)
  let ?c = "\<lparr>svc_base_url = base, svc_service_name = JStr name,
      svc_access_token = JStr (issue_service_jwt x name ?secret cfg),
      svc_server_internal_ip = map_of (rp_headers (client_reply k ?p)) ''X-Pype-Server-IP'',
      svc_session = sign_session new_session (JStr (issue_service_jwt x name ?secret cfg)) (client_reply k ?p),
      svc_settings = ccfg, svc_closed = False\<rparr>"
  have "service_authenticate (server_transport x cfg k base) ccfg url [(''service_name'', JStr name)] (sv, d # ds) = (Inr ?c, (sv', ds))"
    by (simp add: service_authenticate_def base auth_exchange_send send verdict_answer reply fields Let_def
        del: append.simps)
  from that [OF this] show thesis
    using service_queue_for_ok(1) [OF ok q] silentD(1) [OF silent_service_queue_for(1) [OF ok q]] by (simp add: bearer_def)
qed

lemma request_is_sent:
  assumes c: "\<not> cn_closed c" "cn_base_url c = base" "map_of (ss_headers (cn_session c)) ''Authorization'' = bearer token"
    and name: "segment name" and body: "to_bytes request = Inr bs"
    and serve: "serve (handle x cfg (next_draw draws) (http (PostService name) token (Some (next_id c)) None (Some ct) bs)) sv
      = (sv', Reply (empty_response 202))"
  shows "send_request (server_transport x cfg k base) name request ct None c (sv, draws) = (Inr (next_id c), minted c, (sv', draws))"
proof -
  let ?req = "\<lparr>hc_session_headers = ss_headers (cn_session c), hc_method = ''POST'', hc_url = base @ ''/services/'' @ name,
      hc_timeout = None, hc_params = [(''request_id'', PStr (next_id c))], hc_headers = [(''Content-Type'', ct)], hc_body = DataBody bs\<rparr>"
  have "server_request base ?req = Some (http (PostService name) token (Some (next_id c)) None (Some ct) bs)"
    using c(3) endpoints(4) [OF name] by (simp add: server_request_def del: append.simps)
  from send_server [OF this serve] have "send (server_transport x cfg k base) ?req (sv, draws)
      = (Answer (client_reply k (Reply (empty_response 202))), (sv', draws))" by simp
  moreover have "rp_status (client_reply k (Reply (empty_response 202))) = 202"
    by (simp add: client_reply_def reply_response_def Let_def)
  ultimately show ?thesis
    using c(1,2) body
    by (simp add: send_request_def client_ensure_open_def mint_eq checked_call_verdict http_timeout_seconds_def
        timeout_param_def verdict_answer del: append.simps)
qed

lemma request_is_fetched:
  assumes c: "\<not> svc_closed (conns ! self)" "svc_base_url (conns ! self) = base" "svc_service_name (conns ! self) = JStr name"
      "map_of (ss_headers (svc_session (conns ! self))) ''Authorization'' = bearer token"
    and name: "segment name"
    and serve: "serve (handle x cfg (next_draw draws) (http (GetService name) token None None None [])) sv
      = (sv', Reply (request_message m))"
  shows "service_get_request (server_transport x cfg k base) conns self None (sv, draws)
    = (Inr (new_client_request (rq_client_id m) (rq_request_id m) (sent_type k (rq_content_type m)) (rq_payload m) (JStr name) self), (sv', draws))"
proof -
  have "server_request base (service_get_call (conns ! self) None) = Some (http (GetService name) token None None None [])"
    using c endpoints(5) [OF name] by (simp add: server_request_def service_get_call_def timeout_param_def del: append.simps)
  from send_server [OF this serve] have send: "send (server_transport x cfg k base) (service_get_call (conns ! self) None) (sv, draws)
      = (Answer (client_reply k (Reply (request_message m))), (sv', draws))" by simp
  have "client_reply k (Reply (request_message m)) = \<lparr>rp_status = 200, rp_headers = [(''X-Pype-Client-Id'', rq_client_id m),
      (''X-Pype-Request-Id'', rq_request_id m), (''Content-Type'', sent_type k (rq_content_type m))],
      rp_content = rq_payload m, rp_text = decode k (rq_payload m), rp_json = parse k (rq_payload m)\<rparr>"
    by (simp add: client_reply_def reply_response_def request_message_def Let_def)
  then show ?thesis
    using c by (simp add: service_get_request_open send verdict_answer fetched_from_def)
qed

lemma response_is_sent:
  assumes c: "\<not> svc_closed (conns ! cr_connection m)" "svc_base_url (conns ! cr_connection m) = base"
      "map_of (ss_headers (svc_session (conns ! cr_connection m))) ''Authorization'' = bearer token"
    and cid: "segment (cr_client_id m)" and body: "to_bytes response = Inr bs"
    and serve: "serve (handle x cfg (next_draw draws) (http (PostClient (cr_client_id m)) token (Some (cr_request_id m)) None (Some ct) bs)) sv
      = (sv', Reply (empty_response 202))"
  shows "request_send_response (server_transport x cfg k base) conns m response ct None (sv, draws) = (Inr (), (sv', draws))"
proof -
  let ?c = "conns ! cr_connection m"
  let ?req = "\<lparr>hc_session_headers = ss_headers (svc_session ?c), hc_method = ''POST'', hc_url = base @ ''/clients/'' @ cr_client_id m,
      hc_timeout = None, hc_params = [(''request_id'', PStr (cr_request_id m))], hc_headers = [(''Content-Type'', ct)], hc_body = DataBody bs\<rparr>"
  have "server_request base ?req = Some (http (PostClient (cr_client_id m)) token (Some (cr_request_id m)) None (Some ct) bs)"
    using c(3) endpoints(6) [OF cid] by (simp add: server_request_def del: append.simps)
  from send_server [OF this serve] have "send (server_transport x cfg k base) ?req (sv, draws)
      = (Answer (client_reply k (Reply (empty_response 202))), (sv', draws))" by simp
  moreover have "rp_status (client_reply k (Reply (empty_response 202))) = 202"
    by (simp add: client_reply_def reply_response_def Let_def)
  ultimately show ?thesis
    using c(1,2) body
    by (simp add: request_send_response_def service_send_response_def service_ensure_open_def Let_def checked_call_verdict
        http_timeout_seconds_def timeout_param_def verdict_answer del: append.simps)
qed

lemma response_is_fetched:
  assumes c: "\<not> cn_closed c" "cn_base_url c = base" "map_of (ss_headers (cn_session c)) ''Authorization'' = bearer token"
      "map_of (cn_cache c) (rs_request_id m) = None"
    and cid: "segment (cn_client_id c)"
    and serve: "serve (handle x cfg (next_draw draws) (http (GetClient (cn_client_id c)) token None None None [])) sv
      = (sv', Reply (response_message m))"
  shows "get_response (server_transport x cfg k base) (rs_request_id m) None c (sv, draws)
    = Some (Inr (new_service_response (rs_request_id m) (sent_type k (rs_content_type m)) (rs_payload m)), c, (sv', draws))"
proof -
  let ?tr = "server_transport x cfg k base"
  let ?resp = "client_reply k (Reply (response_message m))"
  have "server_request base (poll_call c) = Some (http (GetClient (cn_client_id c)) token None None None [])"
    using c(2,3) endpoints(7) [OF cid] by (simp add: server_request_def poll_call_def del: append.simps)
  from send_server [OF this serve] have send: "send ?tr (poll_call c) (sv, draws) = (Answer ?resp, (sv', draws))" by simp
  have resp: "?resp = \<lparr>rp_status = 200, rp_headers = [(''X-Pype-Request-Id'', rs_request_id m),
      (''Content-Type'', sent_type k (rs_content_type m))], rp_content = rs_payload m,
      rp_text = decode k (rs_payload m), rp_json = parse k (rs_payload m)\<rparr>"
    by (simp add: client_reply_def reply_response_def response_message_def Let_def)
  have "delivers (outcome_at ?tr (poll_call c) (sv, draws) 0) (rs_request_id m) ?resp"
    by (simp add: outcome_at_def world_after_def send delivers_def) (simp add: resp)
  from get_response_loop_waits [OF this] have "get_response_loop ?tr (rs_request_id m) True None c (sv, draws)
      = Some (Inr (response_of (rs_request_id m) ?resp ''application/json''), c, (sv', draws))"
    by (simp add: world_after_def send)
  then show ?thesis
    using c by (simp add: get_response_def client_ensure_open_def new_deadline_def response_of_def resp)
qed

section \<open>A whole session\<close>

lemma secret_segment: "d \<noteq> [] \<Longrightarrow> segment (generate_secret d)"
proof -
  assume d: "d \<noteq> []"
  have "c \<notin> set ''/?#%.''" if "c \<in> set urlsafe_alphabet" for c using that by (auto simp: urlsafe_alphabet_def)
  then have chars: "c \<notin> set ''/?#%.''" if "c \<in> set (generate_secret d)" for c
    using that generate_secret_alphabet by blast
  then have "generate_secret d \<noteq> ''.''" "generate_secret d \<noteq> ''..''" by auto
  with chars generate_secret_nonempty [OF d] show ?thesis by (auto simp: segment_def list_all_iff)
qed

lemma next_id_fresh: "cn_next_request_id c = 0 \<Longrightarrow> next_id c = ''1''"
proof -
  have "py_str_int 1 = ''1''" by code_simp
  then show "cn_next_request_id c = 0 \<Longrightarrow> next_id c = ''1''" by simp
qed

lemma session_steps:
  assumes lib: "jwt_roundtrip x" "bearer_parsed x" "codec_ok k"
    and cfg: "settings_valid cfg" and ok: "server_ok x cfg sv"
    and requests: "client_auth_request cname = Some creq" "service_auth_request sname = Some sreq"
    and names: "segment sname" "d1 \<noteq> []"
    and empty: "requests (view sv) sname = []" "responses (view sv) (generate_secret d1) = []"
    and payloads: "to_bytes request = Inr bs" "to_bytes response = Inr bs'" "ct \<noteq> []" "ct' \<noteq> []"
    and tr: "tr = server_transport x cfg k (resolve_base_url url ccfg)"
  shows "\<exists>c w1 s w2 c1 w3 m w4 w5 w6.
      client_authenticate tr ccfg url creq (sv, d1 # d2 # ds) = (Inr c, w1)
    \<and> service_authenticate tr ccfg url sreq w1 = (Inr s, w2)
    \<and> send_request tr sname request ct None c w2 = (Inr ''1'', c1, w3)
    \<and> service_get_request tr [s] 0 None w3 = (Inr (m :: 'j fetched), w4)
    \<and> payload m = bs \<and> cr_client_id m = generate_secret d1 \<and> cr_request_id m = ''1'' \<and> cr_content_type m = sent_type k ct
    \<and> request_send_response tr [s] m response ct' None w4 = (Inr (), w5)
    \<and> get_response tr ''1'' None c1 w5 = Some (Inr (new_service_response ''1'' (sent_type k ct') bs' :: 'j service_response), c1, w6)
    \<and> server_ok x cfg (fst w6) \<and> view (fst w6) = view sv"
proof -
  let ?cid = "generate_secret d1"
  let ?base = "resolve_base_url url ccfg"
  have ne: "cname \<noteq> []" "sname \<noteq> []" and reqs: "creq = [(''name'', JStr cname)]" "sreq = [(''service_name'', JStr sname)]"
    using requests by (auto simp: client_auth_request_def service_auth_request_def split: if_splits)
  have cid: "segment ?cid" "?cid \<noteq> []" using secret_segment [OF names(2)] by (auto simp: segment_def)
  obtain c :: "'j client_connection" where
    c: "client_authenticate tr ccfg url creq (sv, d1 # d2 # ds) = (Inr c, (sv, d2 # ds))"
      "cn_client_id c = ?cid" "cn_base_url c = ?base" "\<not> cn_closed c" "cn_cache c = []" "cn_next_request_id c = 0"
      "map_of (ss_headers (cn_session c)) ''Authorization'' = bearer (issue_client_jwt x cname ?cid cfg)"
    using client_signs_in [OF refl lib(3) ne(1) cid(2)] unfolding tr reqs by metis
  obtain s sv0 secret where
    s: "service_authenticate tr ccfg url sreq (sv, d2 # ds) = (Inr s, (sv0, ds))"
      "svc_service_name s = JStr sname" "svc_base_url s = ?base" "\<not> svc_closed s"
      "map_of (ss_headers (svc_session s)) ''Authorization'' = bearer (issue_service_jwt x sname secret cfg)"
      "server_ok x cfg sv0" "view sv0 = view sv"
    using service_signs_in [OF refl lib(3) ne(2) ok] unfolding tr reqs by metis
  let ?d = "next_draw ds"
  let ?ctok = "issue_client_jwt x cname ?cid cfg" and ?stok = "issue_service_jwt x sname secret cfg"
  obtain sv1 p1 where 1: "serve (handle x cfg ?d (http (PostService sname) ?ctok (Some ''1'') None (Some ct) bs)) sv0 = (sv1, p1)"
    by fastforce
  obtain sv2 p2 where 2: "serve (handle x cfg ?d (http (GetService sname) ?stok None None None [])) sv1 = (sv2, p2)"
    by fastforce
  obtain sv3 p3 where 3: "serve (handle x cfg ?d (http (PostClient ?cid) ?stok (Some ''1'') None (Some ct') bs')) sv2 = (sv3, p3)"
    by fastforce
  obtain sv4 p4 where 4: "serve (handle x cfg ?d (http (GetClient ?cid) ?ctok None None None [])) sv3 = (sv4, p4)"
    by fastforce
  have times: "\<forall>t \<in> {None, None, None, None}. \<exists>ms. normalize_timeout t (max_timeout_ms cfg) = Inr ms"
    by (simp add: normalize_timeout_def)
  have rid: "''1'' \<noteq> []" by simp
  note steps = rpc_steps [OF lib(1,2) cfg s(6) cid(2) ne(2) rid empty [folded s(7)] times 1 2 3 4 payloads(3,4)]
  have ok4: "server_ok x cfg sv4"
    by (rule serve_ok(1) [OF serve_ok(1) [OF serve_ok(1) [OF serve_ok(1) [OF s(6) handle_ok 1] handle_ok 2] handle_ok 3] handle_ok 4])
  let ?m = "new_client_request ?cid ''1'' (sent_type k ct) bs (JStr sname) 0 :: 'j fetched"
  have id: "next_id c = ''1''" by (rule next_id_fresh [OF c(6)])
  have sent: "send_request tr sname request ct None c (sv0, ds) = (Inr ''1'', minted c, (sv1, ds))"
    using request_is_sent [OF c(4,3,7) names(1) payloads(1), where draws = ds] 1 steps unfolding tr id by simp
  have fetched: "service_get_request tr [s] 0 None (sv1, ds) = (Inr ?m, (sv2, ds))"
    using request_is_fetched [where conns = "[s]" and self = 0 and draws = ds and x = x and cfg = cfg and base = ?base
        and name = sname and token = ?stok and sv = sv1 and sv' = sv2 and k = k
        and m = "\<lparr>rq_client_id = ?cid, rq_request_id = ''1'', rq_content_type = ct, rq_payload = bs\<rparr>"]
      s names(1) 2 steps unfolding tr by (simp add: request_message_def)
  have answered: "request_send_response tr [s] ?m response ct' None (sv2, ds) = (Inr (), (sv3, ds))"
    using response_is_sent [where conns = "[s]" and m = ?m and draws = ds and x = x and cfg = cfg and base = ?base
        and token = ?stok and sv = sv2 and sv' = sv3 and k = k and ct = ct' and bs = bs' and response = response]
      s cid(1) payloads(2) 3 steps unfolding tr by (simp add: new_client_request_def)
  have got: "get_response tr ''1'' None (minted c) (sv3, ds)
      = Some (Inr (new_service_response ''1'' (sent_type k ct') bs'), minted c, (sv4, ds))"
    using response_is_fetched [where c = "minted c" and draws = ds and x = x and cfg = cfg and base = ?base
        and token = ?ctok and sv = sv3 and sv' = sv4 and k = k
        and m = "\<lparr>rs_request_id = ''1'', rs_content_type = ct', rs_payload = bs'\<rparr>"]
      c cid(1) 4 steps unfolding tr by (simp add: response_message_def)
  show ?thesis
    using c(1) s(1) sent fetched answered got ok4 steps s(7) by (intro exI conjI) (auto simp: new_client_request_def)
qed

section \<open>An instance\<close>

text \<open>
  For the witness: a serialisation in the style of the example tokens, and Starlette's rule for the
  charset of text types.
\<close>

definition demo_codec :: codec where
  "demo_codec = \<lparr>
     dump = (\<lambda>v. case v of
         JObj kvs \<Rightarrow> map (\<lambda>c. word_of_nat (of_char c)) (concat (map enc_field (claim_fields kvs))) | _ \<Rightarrow> []),
     parse = (\<lambda>b. Some (JObj (fields_claims (dec_fields [] (map (\<lambda>n. char_of (unat n)) b))))),
     decode = (\<lambda>b. map (\<lambda>n. char_of (unat n)) b),
     sent_type = (\<lambda>t. if take 5 t = ''text/'' then t @ ''; charset=utf-8'' else t)\<rparr>"

lemma demo_codec_ok: "codec_ok demo_codec"
proof -
  have "char_of (unat (word_of_nat (of_char c) :: 8 word)) = c" for c
    by (simp add: unat_of_nat)
  then have "map (\<lambda>n. char_of (unat n)) (map (\<lambda>c. word_of_nat (of_char c) :: 8 word) s) = s" for s
    by (simp add: comp_def)
  then show ?thesis
    by (simp add: codec_ok_def demo_codec_def dec_enc_fields fields_claims_str del: concat.simps list.map(2))
qed

end
