(* ===== verification/Access.thy ===== *)
theory Access
  imports Server_App
begin

text \<open>
  Who may use which endpoint, over all runs of the process.

  \<^item> \<open>permitted\<close>: the policy of the dependencies of \<open>security.py\<close> and of the path checks in the
    routers, stated on the request alone; \<open>refused\<close>: the three kinds of refusal.
  \<^item> The locale \<open>interference\<close> with the guarantee that a request without permission leaves the state alone.
  \<^item> \<open>access_control\<close>: the handlers enforce the policy.
\<close>

section \<open>The policy\<close>

definition as_client :: "ext \<Rightarrow> settings \<Rightarrow> http_request \<Rightarrow> (string \<Rightarrow> bool) \<Rightarrow> bool" where
  "as_client x cfg r P = (case client_claims_of x cfg (hr_authorization r) of
     Inl _ \<Rightarrow> False | Inr claims \<Rightarrow> P (cc_client_id claims))"

definition as_service :: "ext \<Rightarrow> settings \<Rightarrow> http_request \<Rightarrow> (string \<Rightarrow> bool) \<Rightarrow> bool" where
  "as_service x cfg r P = (case service_claims_of x cfg (hr_authorization r) of
     Inl _ \<Rightarrow> False | Inr claims \<Rightarrow> P (sc_name claims))"

definition permitted :: "ext \<Rightarrow> settings \<Rightarrow> http_request \<Rightarrow> bool" where
  "permitted x cfg r = (case hr_endpoint r of
     PostService _ \<Rightarrow> as_client x cfg r (\<lambda>_. True)
   | GetService service_name \<Rightarrow> as_service x cfg r (\<lambda>name. name = service_name)
   | PostClient _ \<Rightarrow> as_service x cfg r (\<lambda>_. True)
   | GetClient client_id \<Rightarrow> as_client x cfg r (\<lambda>cid. cid = client_id)
   | LogoffClient \<Rightarrow> as_client x cfg r (\<lambda>_. True)
   | AuthService \<Rightarrow> True
   | AuthClient \<Rightarrow> True
   | LoadServices \<Rightarrow> True)"

definition refused :: "reply \<Rightarrow> bool" where
  "refused p = (case p of
     Raised exc \<Rightarrow> error_code exc \<in> {''UNAUTHENTICATED'', ''ROLE_MISMATCH'', ''FORBIDDEN''}
   | _ \<Rightarrow> False)"

section \<open>All answers of a handler\<close>

abbreviation answers :: "(reply \<Rightarrow> bool) \<Rightarrow> handler \<Rightarrow> bool" where
  "answers Q h \<equiv> \<forall>sv. always Q (snd (h sv))"

lemma always_queue_put:
  "(\<And>ok s. always Q (snd (k ok s))) \<Longrightarrow> always Q (snd (queue_put ref item ms k sv))"
  by (auto simp: queue_put_def split: sum.splits)

lemma answers_params:
  "answers Q h \<Longrightarrow> (p = [] \<Longrightarrow> Q Unprocessable) \<Longrightarrow> answers Q (nonempty p h)"
  "(\<And>v. answers Q (f v)) \<Longrightarrow> (q = None \<or> q = Some [] \<Longrightarrow> Q Unprocessable) \<Longrightarrow> answers Q (required q f)"
  by (auto simp: nonempty_def required_def split: option.split)

lemma claims_errors_refused:
  "client_claims_of x cfg h = Inl e \<Longrightarrow> refused (Raised e)"
  "service_claims_of x cfg h = Inl e \<Longrightarrow> refused (Raised e)"
  by (auto simp: service_claims_of_def client_claims_of_def extract_and_decode_def refused_def
      split: sum.splits if_splits option.splits prod.splits)

lemma timeout_not_refused: "normalize_timeout t m = Inl e \<Longrightarrow> \<not> refused (Raised e)"
  by (auto simp: normalize_timeout_def refused_def split: option.splits if_splits)

text \<open>Whoever is permitted is never refused, whatever happens while the handler runs.\<close>

lemma not_refused [simp]: "\<not> refused (Reply r)" "\<not> refused Unprocessable"
  by (simp_all add: refused_def)

lemma answers_reply [simp]: "answers Q (reply_with r) \<longleftrightarrow> Q (Reply r)" "answers Q (raise e) \<longleftrightarrow> Q (Raised e)"
  by (simp_all add: reply_with_def raise_def)

text \<open>What each handler can answer, as a rule: \<open>Q\<close> holds of every answer if it holds of these.\<close>

lemma post_request_answers:
  assumes "Q (Reply (empty_response 202))" "Q (Reply (empty_response 503))"
    and "\<And>item. block \<Longrightarrow> Q (Reply (response_message item))"
    and "\<And>e. normalize_timeout timeout (max_timeout_ms cfg) = Inl e \<Longrightarrow> Q (Raised e)"
  shows "answers Q (post_request_to_service cfg name claims rid timeout block ct payload)"
proof (cases "normalize_timeout timeout (max_timeout_ms cfg)")
  case (Inl e)
  then show ?thesis using assms(4) by (simp add: post_request_to_service_def case_prod_unfold Let_def raise_def)
next
  case (Inr budget)
  have "always Q (snd (post_answer cid entry block d ok sv))" for cid entry d ok sv
  proof (cases "ok \<and> block")
    case True
    then have "answers Q (queue_get (client_queue entry) ms (\<lambda>response. case response of
        None \<Rightarrow> reply_with (empty_response 202) | Some item \<Rightarrow> reply_with (response_message item)))" for ms
      by (intro allI always_queue_get) (simp add: reply_with_def assms split: option.split)
    with True show ?thesis by (simp add: post_answer_def case_prod_unfold Let_def)
  next
    case False
    then show ?thesis using assms(1,2) by (auto simp: post_answer_def Let_def)
  qed
  then show ?thesis unfolding post_request_eq [OF Inr] always_simps snd_conv
    by (intro allI always_queue_put)
qed

lemma get_request_answers:
  assumes "Q (Reply (empty_response 204))" "\<And>item. Q (Reply (request_message item))"
    and "\<And>e. normalize_timeout timeout (max_timeout_ms cfg) = Inl e \<Longrightarrow> Q (Raised e)"
    and "\<And>d. sc_name claims \<noteq> name \<Longrightarrow> Q (Raised (RoleMismatchError d))"
  shows "answers Q (get_request_for_service cfg name claims timeout)"
  using assms by (auto simp: get_request_for_service_def case_prod_unfold Let_def raise_def reply_with_def
      intro!: always_queue_get split: sum.split option.split)

lemma post_response_answers:
  assumes "Q (Reply (empty_response 202))" "Q (Reply (empty_response 503))"
    and "\<And>e. normalize_timeout timeout (max_timeout_ms cfg) = Inl e \<Longrightarrow> Q (Raised e)"
  shows "answers Q (post_response_to_client cfg cid claims rid timeout ct payload)"
  using assms by (auto simp: post_response_to_client_def case_prod_unfold Let_def raise_def reply_with_def
      intro!: always_queue_put split: sum.split)

lemma get_response_answers:
  assumes "Q (Reply (empty_response 204))" "\<And>item. Q (Reply (response_message item))"
    and "\<And>e. normalize_timeout timeout (max_timeout_ms cfg) = Inl e \<Longrightarrow> Q (Raised e)"
    and "\<And>d. cc_client_id claims \<noteq> cid \<Longrightarrow> Q (Raised (ForbiddenError d))"
  shows "answers Q (get_response_for_client cfg cid claims timeout)"
  using assms by (auto simp: get_response_for_client_def case_prod_unfold Let_def raise_def reply_with_def
      intro!: always_queue_get split: sum.split option.split)

lemma answers_depends:
  "(\<And>e. claims = Inl e \<Longrightarrow> Q (Raised e)) \<Longrightarrow> (\<And>c. claims = Inr c \<Longrightarrow> answers Q (k c)) \<Longrightarrow> answers Q (depends claims k)"
  by (auto simp: depends_def split: sum.split)

lemma permitted_answers:
  assumes "permitted x cfg r"
  shows "answers (\<lambda>p. \<not> refused p) (handle x cfg random r)"
proof (cases "hr_endpoint r")
  case (PostService name)
  show ?thesis unfolding handle_def PostService endpoint.case
    by (intro answers_depends answers_params post_request_answers)
      (use assms PostService in \<open>auto simp: permitted_def as_client_def timeout_not_refused split: sum.splits\<close>)
next
  case (GetService name)
  show ?thesis unfolding handle_def GetService endpoint.case
    by (intro answers_depends answers_params get_request_answers)
      (use assms GetService in \<open>auto simp: permitted_def as_service_def timeout_not_refused split: sum.splits\<close>)
next
  case (PostClient cid)
  show ?thesis unfolding handle_def PostClient endpoint.case
    by (intro answers_depends answers_params post_response_answers)
      (use assms PostClient in \<open>auto simp: permitted_def as_service_def timeout_not_refused split: sum.splits\<close>)
next
  case (GetClient cid)
  show ?thesis unfolding handle_def GetClient endpoint.case
    by (intro answers_depends answers_params get_response_answers)
      (use assms GetClient in \<open>auto simp: permitted_def as_client_def timeout_not_refused split: sum.splits\<close>)
qed (use assms in \<open>auto simp: handle_def permitted_def as_client_def depends_def service_auth_def client_auth_def nonempty_def
      client_logoff_def services_load_def Let_def reply_with_def case_prod_unfold split: sum.splits\<close>)

text \<open>Whoever is not is answered at once, in any state, which stays as it is.\<close>

lemma denied_handle:
  assumes "\<not> permitted x cfg r"
  shows "\<exists>p. handle x cfg random r = (\<lambda>sv. (sv, Return p)) \<and> (refused p \<or> p = Unprocessable)"
  using assms claims_errors_refused
  by (auto simp: permitted_def as_client_def as_service_def handle_def depends_def raise_def nonempty_def refused_def
      get_request_for_service_def get_response_for_client_def fun_eq_iff split: endpoint.splits sum.splits)

definition fitting :: "ext \<Rightarrow> settings \<Rightarrow> http_request \<Rightarrow> reply \<Rightarrow> bool" where
  "fitting x cfg r p \<longleftrightarrow> (if permitted x cfg r then \<not> refused p else refused p \<or> p = Unprocessable)"

lemma handle_answers: "answers (fitting x cfg r) (handle x cfg random r)"
proof (cases "permitted x cfg r")
  case True
  then show ?thesis using permitted_answers [OF True] by (simp add: fitting_def [abs_def])
next
  case False
  with denied_handle [OF False, of random] show ?thesis by (auto simp: fitting_def)
qed

section \<open>All runs\<close>

abbreviation heedful :: "ext \<Rightarrow> settings \<Rightarrow> http_request \<Rightarrow> server \<Rightarrow> server \<Rightarrow> (server, reply) co \<Rightarrow> bool" where
  "heedful x cfg r sv sv' c \<equiv> permitted x cfg r \<or> sv' = sv"

lemma handle_heedful:
  "seg_ok (\<lambda>_. True) (\<lambda>_ _. True) (heedful x cfg r) (\<lambda>_. True) s (handle x cfg random r)"
proof (cases "permitted x cfg r")
  case True
  then show ?thesis by (simp add: seg_sat_def always_any)
next
  case False
  with denied_handle [OF False, of random] show ?thesis by (auto simp: seg_sat_def)
qed

interpretation acc: interference "\<lambda>_. True" "\<lambda>_ _. True" "heedful x cfg" "\<lambda>_. True" for x cfg
  by unfold_locales simp_all

text \<open>What every answer of a handler satisfies, every request that has finished was answered with.\<close>

lemma reachable_answers:
  assumes "reachable x cfg rs P" "\<And>random r. answers (Q r) (handle x cfg random r)"
  shows "list_all2 (\<lambda>r. task_always (Q r)) rs (tasks P)"
  using assms(1)
proof (induction rule: reachable.induct)
  case (reach_start clk)
  then show ?case by (simp add: start_def)
next
  case (reach_step rs P m P')
  have old: "length rs = length (tasks P)" "\<And>i. i < length rs \<Longrightarrow> task_always (Q (rs ! i)) (tasks P ! i)"
    using reach_step.IH by (auto simp: list_all2_conv_all_nth)
  have len: "length (tasks P') = length (rs @ arrivals [m])" using reach_step.hyps(2) old(1)
    by (cases m) (auto simp: server_step_def split: if_splits task.splits option.splits prod.splits)
  moreover have "task_always (Q ((rs @ arrivals [m]) ! i)) (tasks P' ! i)" if i: "i < length (rs @ arrivals [m])" for i
  proof (cases "i < length rs")
    case True
    with old task_always_step [OF reach_step.hyps(2) [unfolded server_step_def], of i "Q (rs ! i)"]
    show ?thesis by (simp add: nth_append)
  next
    case False
    with i obtain random r where "m = Arrive random r" "i = length rs" by (cases m) auto
    with reach_step.hyps(2) old(1) assms(2) [of r random] show ?thesis by (auto simp: server_step_def nth_append)
  qed
  ultimately show ?case by (simp add: list_all2_conv_all_nth)
qed

lemma finished_answer:
  assumes "reachable x cfg rs P" "\<And>random r. answers (Q r) (handle x cfg random r)"
    and "finished (Some P) i = Some p" "i < length rs"
  shows "Q (rs ! i) p"
  using reachable_answers [where Q = Q, OF assms(1,2)] assms(3,4)
  by (auto simp: finished_Some list_all2_conv_all_nth dest!: spec [of _ i])

abbreviation policy_kept :: "ext \<Rightarrow> settings \<Rightarrow> http_request list \<Rightarrow> process \<Rightarrow> bool" where
  "policy_kept x cfg rs P \<equiv> loop_ok (\<lambda>_. True) (\<lambda>_ _. True) (heedful x cfg) (\<lambda>_. True) rs P"

lemma policy_step:
  assumes "policy_kept x cfg rs P" "server_step x cfg P m = Some P'"
  shows "policy_kept x cfg (rs @ arrivals [m]) P'" "move_effect (heedful x cfg) sv_time rs P (loop_move x cfg m) P'"
proof -
  have m: "move_ok (\<lambda>_. True) (\<lambda>_ _. True) (heedful x cfg) (\<lambda>_. True) (mem P) rs (loop_move x cfg m) (rs @ arrivals [m])"
    using handle_heedful by (cases m) auto
  note s = acc.step_ok [OF assms(1) assms(2) [unfolded server_step_def] m]
  show "policy_kept x cfg (rs @ arrivals [m]) P'" "move_effect (heedful x cfg) sv_time rs P (loop_move x cfg m) P'"
    by (rule s(1), rule s(3))
qed

lemma reachable_policy: "reachable x cfg rs P \<Longrightarrow> policy_kept x cfg rs P"
proof (induction rule: reachable.induct)
  case (reach_start clk)
  then show ?case by (simp add: loop_ok_def start_def)
next
  case (reach_step rs P m P')
  show ?case by (rule policy_step [OF reach_step(3,2)])
qed

text \<open>
  C7: the handlers enforce the access policy, in every run: a request that the policy permits is never
  answered with an authentication, role or ownership error, whatever happens while it runs; a request that it does
  not permit is answered with such an error (or is malformed), and no step of it ever changes the state of
  the server.
\<close>

theorem access_control:
  assumes "reachable x cfg rs P" "i < length rs"
  shows "(\<forall>p. finished (Some P) i = Some p \<longrightarrow>
      (if permitted x cfg (rs ! i) then \<not> refused p else refused p \<or> p = Unprocessable))
    \<and> (\<forall>m P'. \<not> permitted x cfg (rs ! i) \<longrightarrow> mover m = Some i \<longrightarrow> server_step x cfg P m = Some P' \<longrightarrow> mem P' = mem P)"
proof (intro conjI allI impI)
  fix p assume "finished (Some P) i = Some p"
  from finished_answer [OF assms(1) handle_answers this assms(2)]
  show "if permitted x cfg (rs ! i) then \<not> refused p else refused p \<or> p = Unprocessable" by (simp add: fitting_def)
next
  fix m P' assume "\<not> permitted x cfg (rs ! i)" "mover m = Some i" "server_step x cfg P m = Some P'"
  with policy_step(2) [OF reachable_policy [OF assms(1)] this(3)] show "mem P' = mem P" by (cases m) auto
qed

theorem access_control_witness:
  "\<exists>P p. demo_run demo_start [Arrive [] (demo_request (GetClient ''c2'') demo_client None []), Step 0] = Some P
     \<and> finished (Some P) 0 = Some p \<and> refused p \<and> reply_status p = 403"
proof -
  let ?ms = "[Arrive [] (demo_request (GetClient ''c2'') demo_client None []), Step 0]"
  have "case demo_run demo_start ?ms of None \<Rightarrow> False | Some P \<Rightarrow>
      (case finished (Some P) 0 of None \<Rightarrow> False | Some p \<Rightarrow> reply_status p = 403)" by code_simp
  then obtain P p where P: "demo_run demo_start ?ms = Some P" "finished (Some P) 0 = Some p" "reply_status p = 403"
    by (auto split: option.splits)
  have "\<not> permitted demo_ext demo_cfg (demo_request (GetClient ''c2'') demo_client None [])" by code_simp
  with access_control [OF demo_reachable [OF P(1)], of 0] P show ?thesis by auto
qed

end
