(* ===== verification/Replies.thy ===== *)
theory Replies
  imports Access
begin

text \<open>
  The responses the routes declare, as types, and the typing of every answer of the server.

  \<^item> \<open>json_type\<close>, \<open>conforms\<close>: the pydantic models of \<open>schemas/\<close> as types of JSON documents.
  \<^item> \<open>declared\<close>: what the decorator of each route (\<open>responses\<close>, \<open>response_model\<close>) and the errors its
    dependencies raise allow it to answer.
  \<^item> \<open>answers_well_typed\<close>: in every run every request is answered with a value of the type of its route.
\<close>

section \<open>The response models (schemas/auth.py, schemas/load.py)\<close>

datatype json_type =
    StrT
  | LiteralT string
  | IntT
  | ListT json_type
  | ModelT "(string \<times> json_type) list"

fun conforms :: "json_type \<Rightarrow> json \<Rightarrow> bool" where
  "conforms StrT v = (case v of JStr _ \<Rightarrow> True | _ \<Rightarrow> False)"
| "conforms (LiteralT l) v = (v = JStr l)"
| "conforms IntT v = (case v of JInt _ \<Rightarrow> True | _ \<Rightarrow> False)"
| "conforms (ListT t) v = (case v of JArr vs \<Rightarrow> list_all (conforms t) vs | _ \<Rightarrow> False)"
| "conforms (ModelT props) v = (case v of
     JObj d \<Rightarrow> list_all2 (\<lambda>(name, t) (key, w). key = name \<and> conforms t w) props d | _ \<Rightarrow> False)"

definition service_auth_model :: json_type where
  "service_auth_model = ModelT [(''access_token'', StrT), (''token_type'', LiteralT ''Bearer''),
     (''role'', LiteralT ''service''), (''name'', StrT), (''service_secret'', StrT)]"

definition client_auth_model :: json_type where
  "client_auth_model = ModelT [(''access_token'', StrT), (''token_type'', LiteralT ''Bearer''),
     (''role'', LiteralT ''client''), (''name'', StrT), (''client_id'', StrT)]"

definition client_logoff_model :: json_type where
  "client_logoff_model = ModelT [(''client_id'', StrT), (''status'', LiteralT ''logged_off'')]"

definition load_model :: json_type where
  "load_model = ListT (ModelT [(''service_name'', StrT), (''load'', IntT)])"

definition error_model :: json_type where
  "error_model = ModelT [(''detail'', StrT), (''code'', StrT)]"

section \<open>Types of replies\<close>

datatype reply_type =
    Bare int
  | Message "string list"
  | Document "string list" json_type
  | Failure string
  | Invalid

fun of_type :: "reply_type \<Rightarrow> reply \<Rightarrow> bool" where
  "of_type (Bare code) p = (p = Reply (empty_response code))"
| "of_type (Message names) p = (case p of
     Reply r \<Rightarrow> status r = 200 \<and> media_type r \<noteq> None \<and> map fst (headers r) = names
       \<and> (case content r of Raw _ \<Rightarrow> True | Json _ \<Rightarrow> False)
   | _ \<Rightarrow> False)"
| "of_type (Document names model) p = (case p of
     Reply r \<Rightarrow> status r = 200 \<and> media_type r = Some ''application/json'' \<and> map fst (headers r) = names
       \<and> (case content r of Raw _ \<Rightarrow> False | Json v \<Rightarrow> conforms model v)
   | _ \<Rightarrow> False)"
| "of_type (Failure code) p = (case p of Raised e \<Rightarrow> error_code e = code | _ \<Rightarrow> False)"
| "of_type Invalid p = (p = Unprocessable)"

text \<open>
  What the dependencies of a route, the declarations of its parameters (\<open>min_length=1\<close>) and its
  timeout can make it answer.
\<close>

definition valid_params :: "http_request \<Rightarrow> bool" where
  "valid_params r = (let request_id = (case hr_request_id r of None \<Rightarrow> False | Some s \<Rightarrow> s \<noteq> []) in case hr_endpoint r of
     PostService service_name \<Rightarrow> service_name \<noteq> [] \<and> request_id
   | GetService service_name \<Rightarrow> service_name \<noteq> []
   | PostClient client_id \<Rightarrow> client_id \<noteq> [] \<and> request_id
   | GetClient client_id \<Rightarrow> client_id \<noteq> []
   | AuthService \<Rightarrow> hr_name r \<noteq> []
   | AuthClient \<Rightarrow> hr_name r \<noteq> []
   | _ \<Rightarrow> True)"

abbreviation token_failures :: "reply_type list" where
  "token_failures \<equiv> [Failure ''UNAUTHENTICATED'', Failure ''ROLE_MISMATCH'']"

abbreviation invalid_params :: "http_request \<Rightarrow> reply_type list" where
  "invalid_params r \<equiv> (if valid_params r then [] else [Invalid])"

abbreviation parameter_failures :: "http_request \<Rightarrow> reply_type list" where
  "parameter_failures r \<equiv> Failure ''TIMEOUT_OUT_OF_RANGE'' # invalid_params r"

text \<open>The \<open>responses\<close> of the four routes that move messages; 200 of a post is declared for \<open>block=1\<close> only.\<close>

definition post_request_responses :: "bool \<Rightarrow> reply_type list" where
  "post_request_responses block = (if block then [Message [''X-Pype-Request-Id'']] else []) @ [Bare 202, Bare 503]"

definition get_request_responses :: "reply_type list" where
  "get_request_responses = [Message [''X-Pype-Client-Id'', ''X-Pype-Request-Id''], Bare 204]"

definition post_response_responses :: "reply_type list" where
  "post_response_responses = [Bare 202, Bare 503]"

definition get_response_responses :: "reply_type list" where
  "get_response_responses = [Message [''X-Pype-Request-Id''], Bare 204]"

definition declared :: "http_request \<Rightarrow> reply_type list" where
  "declared r = (case hr_endpoint r of
     PostService _ \<Rightarrow> post_request_responses (hr_block r) @ token_failures @ parameter_failures r
   | GetService _ \<Rightarrow> get_request_responses @ token_failures @ parameter_failures r
   | PostClient _ \<Rightarrow> post_response_responses @ token_failures @ parameter_failures r
   | GetClient _ \<Rightarrow> get_response_responses @ Failure ''FORBIDDEN'' # token_failures @ parameter_failures r
   | AuthService \<Rightarrow> [Document [''X-Pype-Server-IP''] service_auth_model] @ invalid_params r
   | AuthClient \<Rightarrow> [Document [''X-Pype-Server-IP''] client_auth_model] @ invalid_params r
   | LogoffClient \<Rightarrow> Document [] client_logoff_model # token_failures
   | LoadServices \<Rightarrow> [Document [] load_model])"

lemmas declared_defs = declared_def post_request_responses_def get_request_responses_def post_response_responses_def
  get_response_responses_def valid_params_def

definition well_typed :: "http_request \<Rightarrow> reply \<Rightarrow> bool" where
  "well_typed r p = list_ex (\<lambda>t. of_type t p) (declared r)"

text \<open>Every error is serialised as a document with a detail and a code.\<close>

lemma errors_conform: "\<exists>v. content (pype_error_handler e) = Json v \<and> conforms error_model v"
  by (simp add: pype_error_handler_def json_response_def error_model_def)

lemma claims_errors_typed:
  "client_claims_of x cfg h = Inl e \<Longrightarrow> error_code e \<in> {''UNAUTHENTICATED'', ''ROLE_MISMATCH''}"
  "service_claims_of x cfg h = Inl e \<Longrightarrow> error_code e \<in> {''UNAUTHENTICATED'', ''ROLE_MISMATCH''}"
  by (auto simp: service_claims_of_def client_claims_of_def extract_and_decode_def
      split: sum.splits if_splits option.splits prod.splits)

lemma timeout_error_typed: "normalize_timeout t m = Inl e \<Longrightarrow> error_code e = ''TIMEOUT_OUT_OF_RANGE''"
  by (auto simp: normalize_timeout_def split: option.splits if_splits)

lemma loads_conform: "conforms load_model (JArr (map (\<lambda>(name, load). service_load_entry name load) xs))"
  by (auto simp: load_model_def service_load_entry_def list_all_iff split: prod.splits)

section \<open>The handlers are well typed\<close>

lemma handle_well_typed: "answers (well_typed r) (handle x cfg random r)"
proof (cases "hr_endpoint r")
  case (PostService name)
  show ?thesis unfolding handle_def PostService endpoint.case
    by (intro answers_depends answers_params post_request_answers)
      (use PostService in \<open>auto simp: well_typed_def declared_defs response_message_def request_message_def dest!: claims_errors_typed(1) timeout_error_typed\<close>)
next
  case (GetService name)
  show ?thesis unfolding handle_def GetService endpoint.case
    by (intro answers_depends answers_params get_request_answers)
      (use GetService in \<open>auto simp: well_typed_def declared_defs response_message_def request_message_def dest!: claims_errors_typed(2) timeout_error_typed\<close>)
next
  case (PostClient cid)
  show ?thesis unfolding handle_def PostClient endpoint.case
    by (intro answers_depends answers_params post_response_answers)
      (use PostClient in \<open>auto simp: well_typed_def declared_defs response_message_def request_message_def dest!: claims_errors_typed(2) timeout_error_typed\<close>)
next
  case (GetClient cid)
  show ?thesis unfolding handle_def GetClient endpoint.case
    by (intro answers_depends answers_params get_response_answers)
      (use GetClient in \<open>auto simp: well_typed_def declared_defs response_message_def request_message_def dest!: claims_errors_typed(1) timeout_error_typed\<close>)
next
  case LogoffClient
  show ?thesis unfolding handle_def LogoffClient endpoint.case
    by (intro answers_depends)
      (use LogoffClient in \<open>auto simp: well_typed_def declared_defs client_logoff_def Let_def reply_with_def json_response_def
        client_logoff_model_def client_logoff_response_def dest!: claims_errors_typed(1)\<close>)
next
  case AuthService
  then show ?thesis
    by (auto simp: handle_def nonempty_def service_auth_def Let_def reply_with_def case_prod_unfold well_typed_def declared_defs
        json_response_def service_auth_model_def service_auth_response_def)
next
  case AuthClient
  then show ?thesis
    by (auto simp: handle_def nonempty_def client_auth_def Let_def reply_with_def well_typed_def declared_defs
        json_response_def client_auth_model_def client_auth_response_def)
next
  case LoadServices
  then show ?thesis
    by (simp add: handle_def services_load_def reply_with_def well_typed_def declared_defs json_response_def loads_conform)
qed



end
