(* ===== verification/Protocol.thy ===== *)
theory Protocol
  imports Wire Replies
begin

text \<open>
  The library and the server speak the same protocol.

  \<^item> \<open>fault\<close>: the errors with which the library says that the other side broke the protocol
    (an unexpected status, a missing header) or could not be reached.
  \<^item> The locale \<open>agreed\<close>: a transport whose answers have the types that the routes of the server declare; in it
    no method of a signed-in connection ever raises a \<open>fault\<close>. It is interpreted on the transport made of the server.
\<close>

section \<open>Undisturbed answers are well typed\<close>

lemma always_solo: "always Q c \<Longrightarrow> Q (snd (solo clk idle c s))"
proof (induction c arbitrary: s rule: co_cases_induct)
  case (Return r)
  then show ?case by simp
next
  case (Pause k)
  obtain t c where k: "k s = (t, c)" by fastforce
  have "always Q (snd (k s))" using Pause.prems by simp
  then show ?case using Pause.IH [OF k] by (simp add: solo_seg_def k)
next
  case (Await attempt secs k)
  show ?case
  proof (cases "attempt s")
    case None
    obtain t c where k: "k (idle (py_add (clk s) secs) s) = (t, c)" by fastforce
    have "always Q (snd (k (idle (py_add (clk s) secs) s)))" using Await.prems by simp
    then show ?thesis using Await.IH(2) [OF k] by (simp add: None solo_seg_def k)
  next
    case (Some p)
    obtain t k' where p: "p = (t, k')" by fastforce
    obtain u c where k: "k' t = (u, c)" by fastforce
    have "always Q (snd (k' t))" using Await.prems Some p by simp
    then show ?thesis using Await.IH(1) [OF Some [unfolded p] k] by (simp add: Some p solo_seg_def k)
  qed
qed

lemma served_answer: "answers Q h \<Longrightarrow> serve h sv = (sv', p) \<Longrightarrow> Q p"
  using always_solo [of Q "snd (h sv)" clock_of idle_until "fst (h sv)"]
  by (auto simp: serve_def solo_seg_def case_prod_unfold)

section \<open>Transports that keep the protocol\<close>

fun fault :: "client_error \<Rightarrow> bool" where
  "fault (PypeProtocolError _) = True"
| "fault (PypeNetworkError _) = True"
| "fault _ = False"

text \<open>A method that does not end in a fault.\<close>

abbreviation faultless :: "client_error + 'a \<Rightarrow> bool" where
  "faultless result \<equiv> \<forall>e. result = Inl e \<longrightarrow> \<not> fault e"

text \<open>
  A reply of this type is one that a caller who expects \<open>codes\<close>, and on a 200 the headers \<open>names\<close>, can make sense of.
\<close>

fun orderly :: "int set \<Rightarrow> string set \<Rightarrow> reply_type \<Rightarrow> bool" where
  "orderly codes names (Bare code) = (code \<noteq> 200 \<and> code \<in> codes \<union> {503})"
| "orderly codes names (Message hs) = (200 \<in> codes \<and> names \<subseteq> set hs)"
| "orderly codes names (Document hs model) = (200 \<in> codes \<and> names \<subseteq> set hs)"
| "orderly codes names (Failure code) = (code \<noteq> ''PYPE_ERROR'')"
| "orderly codes names Invalid = False"

lemma client_reply_sel:
  "rp_status (client_reply k p) = reply_status p"
  "fst ` set (rp_headers (client_reply k (Reply r))) = fst ` set (headers r) \<union> (if media_type r = None then {} else {''Content-Type''})"
  by (cases p; auto simp: client_reply_def reply_response_def Let_def split: option.split)+

lemma failure_status: "error_code e \<noteq> ''PYPE_ERROR'' \<Longrightarrow> status_code e \<in> {400, 401, 403, 503}"
  by (cases e) simp_all

lemma orderly_reply:
  assumes "of_type t p" "orderly codes names t"
  shows "reply_status p \<in> codes \<union> {400, 401, 403, 503}"
    "reply_status p = 200 \<Longrightarrow> names \<subseteq> fst ` set (rp_headers (client_reply k p))"
  using assms failure_status
  by (cases t; force simp: client_reply_sel(2) split: reply.splits)+

lemma orderly_verdict:
  assumes "of_type t p" "orderly codes names t"
  shows "faultless (verdict m u codes (Answer (client_reply k p)))"
  using orderly_reply(1) [OF assms]
  by (auto simp: verdict_def raise_for_status_def client_reply_sel(1) Let_def split: if_splits)

locale agreed =
  fixes tr :: "'w transport" and base :: string and k :: codec
  assumes answered: "server_request base req = Some r \<Longrightarrow> valid_params r \<Longrightarrow> send tr req w = (oc, w') \<Longrightarrow>
    \<exists>p. oc = Answer (client_reply k p) \<and> well_typed r p"
begin

lemma orderly_call:
  assumes "server_request base req = Some r" "valid_params r" "list_all (orderly codes names) (declared r)" "send tr req w = (oc, w')"
  shows "faultless (verdict m u codes oc)"
    "verdict m u codes oc = Inr resp \<Longrightarrow> rp_status resp = 200 \<Longrightarrow> n \<in> names \<Longrightarrow> map_of (rp_headers resp) n \<noteq> None"
proof -
  obtain p t where p: "oc = Answer (client_reply k p)" and t: "of_type t p" "orderly codes names t"
    using answered [OF assms(1,2,4)] assms(3) by (auto simp: well_typed_def list_ex_iff list_all_iff)
  show "faultless (verdict m u codes oc)" unfolding p by (rule orderly_verdict [OF t])
  assume "verdict m u codes oc = Inr resp" "rp_status resp = 200" "n \<in> names"
  then show "map_of (rp_headers resp) n \<noteq> None"
    using orderly_reply(2) [OF t, where k = k] by (auto simp: p verdict_Inr client_reply_sel(1) map_of_eq_None_iff)
qed

text \<open>The four calls that move messages.\<close>

lemma get_request_faultless:
  assumes "svc_base_url (conns ! self) = base" "svc_service_name (conns ! self) = JStr name" "segment name"
  shows "faultless (fst (service_get_request tr conns self timeout w))"
proof (cases "svc_closed (conns ! self)")
  case True
  then show ?thesis by (simp add: service_get_request_def service_ensure_open_def Let_def)
next
  case False
  let ?req = "service_get_call (conns ! self) timeout" and ?u = "service_get_url (conns ! self)"
  obtain oc w' where send: "send tr ?req w = (oc, w')" by fastforce
  obtain r where r: "server_request base ?req = Some r" "hr_endpoint r = GetService name"
    using assms endpoints(5) [OF assms(3)] by (simp add: server_request_def service_get_call_def del: append.simps)
  have v: "valid_params r" using r(2) assms(3) by (simp add: valid_params_def segment_def)
  have o: "list_all (orderly {200, 204} {''X-Pype-Client-Id'', ''X-Pype-Request-Id''}) (declared r)"
    using v r(2) by (simp add: declared_def get_request_responses_def)
  note call = orderly_call [OF r(1) v o send, where m = "''GET''" and u = ?u]
  show ?thesis
  proof (cases "verdict ''GET'' ?u {200, 204} oc")
    case (Inl e)
    with call(1) show ?thesis by (simp add: service_get_request_open [OF False] send del: append.simps)
  next
    case (Inr resp)
    have "faultless (fetched_from (conns ! self) self resp)"
    proof (cases "rp_status resp = 204")
      case True
      then show ?thesis by (simp add: fetched_from_def)
    next
      case False
      then have "rp_status resp = 200" using Inr by (simp add: verdict_Inr)
      with call(2) [OF Inr] have "map_of (rp_headers resp) ''X-Pype-Client-Id'' \<noteq> None" "map_of (rp_headers resp) ''X-Pype-Request-Id'' \<noteq> None"
        by blast+
      with False show ?thesis by (auto simp: fetched_from_def)
    qed
    with Inr show ?thesis by (simp add: service_get_request_open [OF \<open>\<not> svc_closed (conns ! self)\<close>] send del: append.simps)
  qed
qed

lemma post_faultless:
  assumes "server_request base req = Some r" "valid_params r" "send tr req w = (oc, w')"
    and "hr_endpoint r = PostService name \<and> \<not> hr_block r \<or> hr_endpoint r = PostClient cid"
  shows "faultless (verdict m u {202} oc)"
proof -
  have "list_all (orderly {202} {}) (declared r)"
    using assms(2,4) by (auto simp: declared_def post_request_responses_def post_response_responses_def)
  from orderly_call(1) [OF assms(1,2) this assms(3)] show ?thesis .
qed

lemma to_bytes_faultless: "to_bytes m = Inl e \<Longrightarrow> \<not> fault e"
  by (cases m) (auto split: option.splits)

lemma send_response_faultless:
  assumes "svc_base_url (conns ! cr_connection req) = base" "segment (cr_client_id req)" "cr_request_id req \<noteq> []"
  shows "faultless (fst (request_send_response tr conns req response ct timeout w))"
proof -
  let ?c = "conns ! cr_connection req"
  let ?u = "svc_base_url ?c @ ''/clients/'' @ cr_client_id req"
  have "faultless (verdict ''POST'' ?u {202} oc)"
    if send: "send tr (post_call (svc_session ?c) ?u (svc_settings ?c) (cr_request_id req) ct timeout body) w = (oc, w')" for body oc w'
  proof -
    obtain r where r: "server_request base (post_call (svc_session ?c) ?u (svc_settings ?c) (cr_request_id req) ct timeout body) = Some r"
      "hr_endpoint r = PostClient (cr_client_id req)" "hr_request_id r = Some (cr_request_id req)"
      using assms(1) endpoints(6) [OF assms(2)] by (simp add: server_request_def post_call_def del: append.simps)
    have "valid_params r" using r assms by (simp add: valid_params_def segment_def)
    from post_faultless [OF r(1) this send] r(2) show ?thesis by blast
  qed
  then show ?thesis
    by (simp add: request_send_response_def service_send_response_def Let_def service_ensure_open_def checked_post to_bytes_faultless
        del: append.simps split: sum.split prod.split)
qed

text \<open>The client's side: every call is made to the base URL, by a client whose id is a segment.\<close>

abbreviation joined :: "'j client_connection \<Rightarrow> bool" where
  "joined c \<equiv> cn_base_url c = base \<and> segment (cn_client_id c)"

lemma next_id_nonempty: "next_id c \<noteq> []"
  by (simp add: py_str_int_def py_str_nat.simps)

lemma send_request_faultless:
  assumes "joined c" "segment name"
  shows "faultless (fst (send_request tr name request ct timeout c w))"
proof -
  let ?u = "service_url c name"
  have "faultless (verdict ''POST'' ?u {202} oc)"
    if send: "send tr (post_call (cn_session c) ?u (cn_settings c) (next_id c) ct timeout body) w = (oc, w')" for body oc w'
  proof -
    obtain r where r: "server_request base (post_call (cn_session c) ?u (cn_settings c) (next_id c) ct timeout body) = Some r"
      "hr_endpoint r = PostService name" "hr_request_id r = Some (next_id c)" "\<not> hr_block r"
      using assms(1) endpoints(4) [OF assms(2)] by (cases timeout) (simp_all add: server_request_def post_call_def timeout_param_def del: append.simps)
    have "valid_params r" using r assms(2) next_id_nonempty [of c] by (simp add: valid_params_def segment_def)
    from post_faultless [OF r(1) this send] r(2,4) show ?thesis by blast
  qed
  then show ?thesis
    by (simp add: send_request_def client_ensure_open_def mint_eq checked_post to_bytes_faultless
        del: append.simps split: sum.split prod.split)
qed

lemma poll_one_faultless:
  assumes "joined c"
  shows "faultless (fst (poll_one tr c remaining w))"
proof -
  let ?u = "cn_base_url c @ ''/clients/'' @ cn_client_id c"
  let ?req = "\<lparr>hc_session_headers = ss_headers (cn_session c), hc_method = ''GET'', hc_url = ?u,
    hc_timeout = http_timeout_seconds remaining (cs_network_buffer_ms (cn_settings c)),
    hc_params = timeout_param remaining, hc_headers = [], hc_body = NoBody\<rparr>"
  obtain oc w' where send: "send tr ?req w = (oc, w')" by fastforce
  obtain r where r: "server_request base ?req = Some r" "hr_endpoint r = GetClient (cn_client_id c)"
    using assms endpoints(7) [of "cn_client_id c"] by (simp add: server_request_def del: append.simps)
  have v: "valid_params r" using r(2) assms by (simp add: valid_params_def segment_def)
  have o: "list_all (orderly {200, 204} {''X-Pype-Request-Id''}) (declared r)"
    using v r(2) by (simp add: declared_def get_response_responses_def)
  note call = orderly_call [OF r(1) v o send, where m = "''GET''" and u = ?u]
  show ?thesis
  proof (cases "verdict ''GET'' ?u {200, 204} oc")
    case (Inl e)
    with call(1) show ?thesis by (simp add: poll_one_def checked_call_verdict send del: append.simps)
  next
    case (Inr resp)
    then have "rp_status resp = 204 \<or> rp_status resp = 200" by (auto simp: verdict_Inr)
    with call(2) [OF Inr] have "rp_status resp = 204 \<or> map_of (rp_headers resp) ''X-Pype-Request-Id'' \<noteq> None" by blast
    with Inr show ?thesis by (auto simp: poll_one_def checked_call_verdict send simp del: append.simps)
  qed
qed

lemma get_response_loop_faultless:
  assumes "get_response_loop tr rid forever d c w = Some y"
  shows "joined c \<longrightarrow> faultless (fst y)"
proof -
  have "tr' = tr \<longrightarrow> joined c \<longrightarrow> faultless (fst y)" if "get_response_loop tr' rid forever d c w = Some y" for tr'
  proof (rule get_response_loop.raw_induct [where P = "\<lambda>tr' rid forever d c w y. tr' = tr \<longrightarrow> joined c \<longrightarrow> faultless (fst y)", OF _ that],
      intro impI)
    fix loop and tr' :: "'w transport" and rid forever d and c :: "'j client_connection" and w y
    assume IH: "\<And>tr' rid forever d c w y. loop tr' rid forever d c w = Some y \<Longrightarrow> tr' = tr \<longrightarrow> joined c \<longrightarrow> faultless (fst y)"
      and body: "(case deadline_remaining_ms tr' d w of (remaining, w) \<Rightarrow>
        (case poll_one tr' c remaining w of
          (Inl e, w) \<Rightarrow> Some (Inl e, c, w)
        | (Inr None, w) \<Rightarrow> if \<not> forever then Some (Inl queue_empty, c, w) else loop tr' rid forever d c w
        | (Inr (Some resp), w) \<Rightarrow> if sr_request_id resp = rid then Some (Inr resp, c, w)
            else loop tr' rid forever d (cache_response resp c) w)) = Some y"
      and tr: "tr' = tr" and c: "joined c"
    obtain remaining w1 where rem: "deadline_remaining_ms tr d w = (remaining, w1)" by fastforce
    obtain p w2 where poll: "poll_one tr c remaining w1 = (p, w2)" by fastforce
    note body = body [unfolded tr rem poll prod.case]
    have p: "faultless p" using poll_one_faultless [OF c, of remaining w1] by (simp add: poll)
    show "faultless (fst y)"
    proof (cases p rule: polled_cases)
      case (err e)
      with body p show ?thesis by auto
    next
      case quiet
      with body show ?thesis using IH [of tr rid forever d c w2 y] c by (auto simp: queue_empty_def split: if_splits)
    next
      case (resp s)
      with body show ?thesis using IH [of tr rid forever d "cache_response s c" w2 y] c
        by (auto simp: cache_response_def split: if_splits)
    qed
  qed
  with assms show ?thesis by blast
qed

lemma loop_until_loop_faultless:
  assumes "loop_until_loop tr is_done forever d c w = Some y"
  shows "joined c \<longrightarrow> (\<forall>e. fst y = Some e \<longrightarrow> \<not> fault e)"
proof -
  have "tr' = tr \<longrightarrow> joined c \<longrightarrow> (\<forall>e. fst y = Some e \<longrightarrow> \<not> fault e)" if "loop_until_loop tr' is_done forever d c w = Some y" for tr'
  proof (rule loop_until_loop.raw_induct [where P = "\<lambda>tr' is_done forever d c w y. tr' = tr \<longrightarrow> joined c \<longrightarrow> (\<forall>e. fst y = Some e \<longrightarrow> \<not> fault e)",
      OF _ that], intro impI)
    fix loop and tr' :: "'w transport" and is_done forever d and c :: "'j client_connection" and w y
    assume IH: "\<And>tr' is_done forever d c w y. loop tr' is_done forever d c w = Some y \<Longrightarrow>
          tr' = tr \<longrightarrow> joined c \<longrightarrow> (\<forall>e. fst y = Some e \<longrightarrow> \<not> fault e)"
      and body: "(case deadline_remaining_ms tr' d w of (remaining, w) \<Rightarrow>
        (case poll_one tr' c remaining w of
          (Inl e, w) \<Rightarrow> Some (Some e, c, w)
        | (Inr None, w) \<Rightarrow> if \<not> forever then Some (Some queue_empty, c, w) else loop tr' is_done forever d c w
        | (Inr (Some resp), w) \<Rightarrow> if is_done (cn_cache (cache_response resp c)) then Some (None, cache_response resp c, w)
            else loop tr' is_done forever d (cache_response resp c) w)) = Some y"
      and tr: "tr' = tr" and c: "joined c"
    obtain remaining w1 where rem: "deadline_remaining_ms tr d w = (remaining, w1)" by fastforce
    obtain p w2 where poll: "poll_one tr c remaining w1 = (p, w2)" by fastforce
    note body = body [unfolded tr rem poll prod.case]
    have p: "faultless p" using poll_one_faultless [OF c, of remaining w1] by (simp add: poll)
    show "\<forall>e. fst y = Some e \<longrightarrow> \<not> fault e"
    proof (cases p rule: polled_cases)
      case (err e)
      with body p show ?thesis by auto
    next
      case quiet
      with body show ?thesis using IH [of tr is_done forever d c w2 y] c by (auto simp: queue_empty_def split: if_splits)
    next
      case (resp s)
      with body show ?thesis using IH [of tr is_done forever d "cache_response s c" w2 y] c
        by (auto simp: cache_response_def split: if_splits)
    qed
  qed
  with assms show ?thesis by blast
qed

lemma get_response_faultless:
  assumes "joined c" "get_response tr rid timeout c w = Some (r, c', w')"
  shows "faultless r"
  using assms get_response_loop_faultless [of rid "timeout = None" _ c]
  by (fastforce simp: get_response_def client_ensure_open_def split: if_splits option.splits prod.splits)

lemma call_fallback_faultless:
  assumes "joined c" "call_fallback tr d rid c w = Some (r, c', w')"
  shows "faultless r"
  using assms get_response_faultless [OF assms(1)]
  by (auto simp: call_fallback_def split: prod.splits option.splits if_splits)

lemma gather_faultless:
  assumes "joined c" "gather tr P ids timeout c w = Some (r, c', w')"
  shows "faultless r"
  using assms loop_until_loop_faultless [of "P (remdups ids)" "timeout = None" _ c]
  by (fastforce simp: gather_def loop_until_def Let_def split: if_splits option.splits prod.splits)

lemma gathering_faultless:
  assumes "joined c"
  shows "get_any_responses tr ids timeout c w = Some (r, c', w') \<Longrightarrow> faultless r"
    "get_all_responses tr ids timeout c w = Some (r, c', w') \<Longrightarrow> faultless r"
    "get_response_quorum tr q ids timeout c w = Some (r, c', w') \<Longrightarrow> faultless r"
  using gather_faultless [OF assms]
  by (auto simp: get_any_responses_def get_all_responses_def get_response_quorum_def client_ensure_open_def no_request_ids_def split: if_splits)

lemma client_call_faultless:
  assumes "joined c" "segment name" "client_call tr name request ct timeout c w = Some (r, c', w')"
  shows "faultless r"
proof (cases "cn_closed c \<or> (\<exists>e. to_bytes request = Inl e)")
  case True
  with assms(3) show ?thesis by (cases "cn_closed c"; auto simp: client_call_def client_ensure_open_def mint_eq dest: to_bytes_faultless)
next
  case False
  then obtain body where opn: "\<not> cn_closed c" "to_bytes request = Inr body" by (cases "to_bytes request") auto
  obtain d w1 where d: "new_deadline tr timeout w = (d, w1)" by fastforce
  obtain rem w2 where rem: "deadline_remaining_ms tr d w1 = (rem, w2)" by fastforce
  obtain oc w3 where oc: "send tr (block_call c name body ct rem) w2 = (oc, w3)" by fastforce
  note run = client_call_open [OF opn d rem oc, unfolded assms(3)]
  have fallback: "\<not> fault e" if "Some (Inl e, c', w') = call_fallback tr d rid c1 w3" "joined c1" for e c1 rid
    using call_fallback_faultless [OF that(2) that(1) [symmetric]] by simp
  obtain q where q: "server_request base (block_call c name body ct rem) = Some q"
    "hr_endpoint q = PostService name" "hr_request_id q = Some (next_id c)" "hr_block q"
    using assms(1) endpoints(4) [OF assms(2)] by (simp add: server_request_def block_call_def del: append.simps)
  have v: "valid_params q" using q assms(2) next_id_nonempty [of c] by (simp add: valid_params_def segment_def)
  have o: "list_all (orderly {200, 202} {''X-Pype-Request-Id''}) (declared q)"
    using v q(2,4) by (simp add: declared_def post_request_responses_def)
  note call = orderly_call [OF q(1) v o oc, where m = "''POST''" and u = "service_url c name"]
  show ?thesis
  proof (cases "verdict ''POST'' (service_url c name) {200, 202} oc")
    case (Inl e)
    with run call(1) show ?thesis by simp
  next
    case (Inr resp)
    have j: "joined (minted c)" "\<And>s. joined (cache_response s (minted c))" using assms(1) by (simp_all add: cache_response_def)
    from run call(2) [OF Inr] show ?thesis
      by (auto simp: Inr simp del: append.simps split: if_splits option.splits dest: fallback [OF _ j(1)] fallback [OF _ j(2)])
  qed
qed

end

section \<open>The library on the server\<close>

interpretation lib: agreed "server_transport x cfg k base" base k for x cfg k base
proof
  fix req r and w w' :: "server \<times> bytes list" and oc
  assume r: "server_request base req = Some r" and send: "send (server_transport x cfg k base) req w = (oc, w')"
  obtain sv draws where w: "w = (sv, draws)" by fastforce
  obtain sv' p where serve: "serve (handle x cfg (case draws of [] \<Rightarrow> [] | d # _ \<Rightarrow> d) r) sv = (sv', p)" by fastforce
  show "\<exists>p. oc = Answer (client_reply k p) \<and> well_typed r p"
    using send_server [OF r serve, where k = k] send served_answer [OF handle_well_typed serve] by (auto simp: w)
qed



end
