(* ===== verification/Broker.thy ===== *)
theory Broker
  imports Mailbox
begin

text \<open>
  The whole server against one abstract machine: a broker that owns the mailboxes and a list of
  the services it has heard of.

  \<^item> \<open>broker\<close>, \<open>broker_of\<close>: its state and the abstraction function.
  \<^item> \<open>spec_handle\<close>: what the broker answers to a request, for all eight endpoints and all of their
    errors, as one function without references, clocks or waiting; \<open>broker_step\<close>: its events.
  \<^item> The locale \<open>simulation\<close> lifts a simulation of single events to sequences of them.
  \<^item> \<open>server_refines_broker\<close>: the server, whose handlers run undisturbed, is that machine.
\<close>

section \<open>The abstract machine\<close>

record broker =
  bk_boxes :: mailboxes
  bk_known :: "string list"

definition known_services :: "server \<Rightarrow> string list" where
  "known_services sv = dict_keys (sr_queues (sv_services sv))"

definition broker_of :: "server \<Rightarrow> broker" where
  "broker_of sv = \<lparr>bk_boxes = view sv, bk_known = known_services sv\<rparr>"

definition learn :: "string \<Rightarrow> broker \<Rightarrow> broker" where
  "learn name b = (if name \<in> set (bk_known b) then b else b\<lparr>bk_known := bk_known b @ [name]\<rparr>)"

definition on_boxes :: "(mailboxes \<Rightarrow> mailboxes \<times> reply) \<Rightarrow> broker \<Rightarrow> broker \<times> reply" where
  "on_boxes f b = (case f (bk_boxes b) of (mb, p) \<Rightarrow> (b\<lparr>bk_boxes := mb\<rparr>, p))"

definition empty_boxes :: "string set \<Rightarrow> broker \<Rightarrow> broker" where
  "empty_boxes cids b = b\<lparr>bk_boxes := (bk_boxes b)\<lparr>responses :=
     (\<lambda>cid. if cid \<in> cids then [] else responses (bk_boxes b) cid)\<rparr>\<rparr>"

text \<open>The three ways in which a request is turned away before it does anything.\<close>

definition spec_claims :: "pype_error + 'c \<Rightarrow> ('c \<Rightarrow> broker \<Rightarrow> broker \<times> reply) \<Rightarrow> broker \<Rightarrow> broker \<times> reply" where
  "spec_claims claims k b = (case claims of Inl e \<Rightarrow> (b, Raised e) | Inr c \<Rightarrow> k c b)"

definition spec_valid :: "bool \<Rightarrow> (broker \<Rightarrow> broker \<times> reply) \<Rightarrow> broker \<Rightarrow> broker \<times> reply" where
  "spec_valid ok k b = (if ok then k b else (b, Unprocessable))"

definition spec_timeout :: "settings \<Rightarrow> http_request \<Rightarrow> (broker \<Rightarrow> broker \<times> reply) \<Rightarrow> broker \<Rightarrow> broker \<times> reply" where
  "spec_timeout cfg r k b = (case normalize_timeout (hr_timeout r) (max_timeout_ms cfg) of
     Inl e \<Rightarrow> (b, Raised e) | Inr _ \<Rightarrow> k b)"

definition request_id_of :: "http_request \<Rightarrow> string" where
  "request_id_of r = (case hr_request_id r of None \<Rightarrow> [] | Some rid \<Rightarrow> rid)"

definition spec_handle :: "ext \<Rightarrow> settings \<Rightarrow> bytes \<Rightarrow> http_request \<Rightarrow> broker \<Rightarrow> broker \<times> reply" where
  "spec_handle x cfg random r = (case hr_endpoint r of
     PostService name \<Rightarrow>
       spec_claims (client_claims_of x cfg (hr_authorization r)) (\<lambda>claims.
       spec_valid (name \<noteq> [] \<and> request_id_of r \<noteq> []) (spec_timeout cfg r (\<lambda>b.
         on_boxes (spec_post_request cfg name (hr_block r)
           \<lparr>rq_client_id = cc_client_id claims, rq_request_id = request_id_of r,
            rq_content_type = content_type_or (hr_content_type r) (default_content_type cfg),
            rq_payload = hr_body r\<rparr>) (learn name b))))
   | GetService name \<Rightarrow>
       spec_claims (service_claims_of x cfg (hr_authorization r)) (\<lambda>claims.
       spec_valid (name \<noteq> []) (\<lambda>b.
         if sc_name claims \<noteq> name
         then (b, Raised (RoleMismatchError (''token'' @ [CHR 0x27] @ ''s service name does not match path'')))
         else spec_timeout cfg r (\<lambda>b. on_boxes (spec_get_request name) (learn name b)) b))
   | PostClient cid \<Rightarrow>
       spec_claims (service_claims_of x cfg (hr_authorization r)) (\<lambda>claims.
       spec_valid (cid \<noteq> [] \<and> request_id_of r \<noteq> []) (spec_timeout cfg r (
         on_boxes (spec_post_response cfg cid
           \<lparr>rs_request_id = request_id_of r,
            rs_content_type = content_type_or (hr_content_type r) (default_content_type cfg),
            rs_payload = hr_body r\<rparr>))))
   | GetClient cid \<Rightarrow>
       spec_claims (client_claims_of x cfg (hr_authorization r)) (\<lambda>claims.
       spec_valid (cid \<noteq> []) (\<lambda>b.
         if cc_client_id claims \<noteq> cid
         then (b, Raised (ForbiddenError (''path client_id does not match token'' @ [CHR 0x27] @ ''s client_id'')))
         else spec_timeout cfg r (on_boxes (spec_get_response cid)) b))
   | AuthService \<Rightarrow> spec_valid (hr_name r \<noteq> []) (\<lambda>b.
       (learn (hr_name r) b, Reply (json_response 200 [(''X-Pype-Server-IP'', internal_ip cfg)]
          (service_auth_response (issue_service_jwt x (hr_name r) (generate_secret random) cfg)
             (hr_name r) (generate_secret random)))))
   | AuthClient \<Rightarrow> spec_valid (hr_name r \<noteq> []) (\<lambda>b.
       (b, Reply (json_response 200 [(''X-Pype-Server-IP'', internal_ip cfg)]
          (client_auth_response (issue_client_jwt x (hr_name r) (generate_secret random) cfg)
             (hr_name r) (generate_secret random)))))
   | LogoffClient \<Rightarrow>
       spec_claims (client_claims_of x cfg (hr_authorization r)) (\<lambda>claims b.
         (empty_boxes {cc_client_id claims} b,
          Reply (json_response 200 [] (client_logoff_response (cc_client_id claims)))))
   | LoadServices \<Rightarrow> (\<lambda>b. (b, Reply (json_response 200 [] (JArr (map (\<lambda>name.
       service_load_entry name (int (length (requests (bk_boxes b) name)))) (bk_known b)))))))"

section \<open>Simulation\<close>

text \<open>
  A deterministic machine \<open>step\<close> with outputs is simulated by an abstract, possibly
  nondeterministic one: every event leads from a state that satisfies the invariant to one that
  does, and the abstraction of the two states is an abstract event with the same output.
\<close>

fun outputs :: "('s \<Rightarrow> 'e \<Rightarrow> 's \<times> 'o) \<Rightarrow> 's \<Rightarrow> 'e list \<Rightarrow> 's \<times> 'o list" where
  "outputs step s [] = (s, [])"
| "outputs step s (e # es) = (case step s e of (s', p) \<Rightarrow>
     (case outputs step s' es of (s'', ps) \<Rightarrow> (s'', p # ps)))"

inductive abstract_run :: "('a \<Rightarrow> 'e \<Rightarrow> 'o \<Rightarrow> 'a \<Rightarrow> bool) \<Rightarrow> 'a \<Rightarrow> 'e list \<Rightarrow> 'o list \<Rightarrow> 'a \<Rightarrow> bool" for astep where
  run_none: "abstract_run astep a [] [] a"
| run_more: "astep a e p b \<Longrightarrow> abstract_run astep b es ps c \<Longrightarrow> abstract_run astep a (e # es) (p # ps) c"

inductive_simps abstract_run_simps:
  "abstract_run astep a [] ps b"
  "abstract_run astep a (e # es) ps b"

locale simulation =
  fixes step :: "'s \<Rightarrow> 'e \<Rightarrow> 's \<times> 'o" and astep :: "'a \<Rightarrow> 'e \<Rightarrow> 'o \<Rightarrow> 'a \<Rightarrow> bool"
    and abs :: "'s \<Rightarrow> 'a" and inv :: "'s \<Rightarrow> bool"
  assumes keeps: "inv s \<Longrightarrow> step s e = (s', p) \<Longrightarrow> inv s'"
    and simulates: "inv s \<Longrightarrow> step s e = (s', p) \<Longrightarrow> astep (abs s) e p (abs s')"
begin

lemma simulates_runs: "inv s \<Longrightarrow> outputs step s es = (s', ps) \<Longrightarrow> inv s' \<and> abstract_run astep (abs s) es ps (abs s')"
proof (induction es arbitrary: s ps)
  case Nil
  then show ?case by (simp add: run_none)
next
  case (Cons e es)
  obtain t p where step: "step s e = (t, p)" by fastforce
  obtain qs where rest: "outputs step t es = (s', qs)" and ps: "ps = p # qs"
    using Cons.prems(2) step by (auto split: prod.splits)
  show ?case unfolding ps using Cons.IH [OF keeps [OF Cons.prems(1) step] rest] simulates [OF Cons.prems(1) step]
    by (auto intro: run_more)
qed

end

section \<open>The services the registry knows\<close>

lemma known_simps [simp]:
  "known_services (sv\<lparr>sv_clock := c\<rparr>) = known_services sv"
  "known_services (sv\<lparr>sv_clients := r\<rparr>) = known_services sv"
  "known_services (assign (client_queue e) queue sv) = known_services sv"
  "known_services (assign (service_queue q) queue' sv) = known_services sv"
  "known_services (touch cid sv) = known_services sv"
  "known_services (idle_until d sv) = known_services sv"
  "known_services (drop_client cid sv) = known_services sv"
  by (simp_all add: known_services_def touch_def client_queue_def service_queue_def idle_until_def drop_client_def
      split: prod.split)

lemma known_clock:
  "read_clock sv = (t, sv') \<Longrightarrow> known_services sv' = known_services sv"
  "remaining_ms d sv = (ms, sv') \<Longrightarrow> known_services sv' = known_services sv"
  "client_entry_for cid sv = (e, sv') \<Longrightarrow> known_services sv' = known_services sv"
  by (auto simp: read_clock_def remaining_ms_def client_entry_for_def split: prod.splits)

lemma known_queue_for:
  assumes "service_queue_for name sv = (q, sv')"
  shows "known_services sv' = (if name \<in> set (known_services sv) then known_services sv else known_services sv @ [name])"
  using assms by (auto simp: service_queue_for_def known_services_def service_get_or_create_def dict_simps Let_def
      map_of_eq_None_iff split: prod.splits option.splits dest: map_of_SomeD intro: rev_image_eqI)

text \<open>The services known at the end of an undisturbed run.\<close>

definition knows :: "string list \<Rightarrow> handler \<Rightarrow> server \<Rightarrow> bool" where
  "knows names h sv \<longleftrightarrow> known_services (fst (serve h sv)) = names"

lemma knows_cong: "h sv = h' sv' \<Longrightarrow> knows names h' sv' \<Longrightarrow> knows names h sv"
  by (simp add: knows_def serve_cong [of h sv h' sv'])

lemma knows_simps [simp]:
  "knows names (reply_with p) sv \<longleftrightarrow> known_services sv = names"
  "knows names (raise e) sv \<longleftrightarrow> known_services sv = names"
  "knows names (\<lambda>sv. (sv, Return r)) sv \<longleftrightarrow> known_services sv = names"
  "knows names (\<lambda>sv. (sv, Pause k)) sv \<longleftrightarrow> knows names k sv"
  by (simp_all add: knows_def)

lemma knows_wait [simp]: "known_services (wait_until clock_of idle_until ms sv) = known_services sv"
  by simp

lemma knows_put:
  assumes "known_services sv = names" "\<And>ok s. known_services s = names \<Longrightarrow> knows names (k ok) s"
  shows "knows names (queue_put (service_queue q) item ms k) sv" "knows names (queue_put (client_queue e) item' ms k) sv"
  using assms by (simp_all add: knows_def serve_put)

lemma knows_get:
  assumes "known_services sv = names"
  shows "(\<And>found s. known_services s = names \<Longrightarrow> knows names (k found) s) \<Longrightarrow>
      knows names (queue_get (service_queue q) ms k) sv"
    "(\<And>found s. known_services s = names \<Longrightarrow> knows names (k' found) s) \<Longrightarrow>
      knows names (queue_get (client_queue e) ms k') sv"
  using assms by (simp_all add: knows_def serve_get split: list.split)

lemma knows_found [simp]:
  "knows names (case found of None \<Rightarrow> reply_with p | Some item \<Rightarrow> reply_with (f item)) sv \<longleftrightarrow> known_services sv = names"
  "knows names (\<lambda>sv. case found of None \<Rightarrow> reply_with p (touch cid sv) | Some item \<Rightarrow> reply_with (f item) (touch cid sv)) sv \<longleftrightarrow>
     known_services sv = names"
  by (cases found; simp add: knows_def serve_cong [of _ sv "reply_with _" "touch cid sv"])+

abbreviation learnt :: "string \<Rightarrow> server \<Rightarrow> string list" where
  "learnt name sv \<equiv> (if name \<in> set (known_services sv) then known_services sv else known_services sv @ [name])"

lemma post_request_knows:
  assumes "normalize_timeout timeout (max_timeout_ms cfg) = Inr budget"
  shows "knows (learnt name sv) (post_request_to_service cfg name claims rid timeout block ct payload) sv"
proof -
  have answer: "knows names (post_answer cid entry block d ok) s" if "known_services s = names" for names cid entry d ok s
  proof (cases "ok \<and> block")
    case True
    obtain left b where 1: "remaining_ms d (touch cid s) = (left, b)" by fastforce
    have "known_services b = names" using known_clock(2) [OF 1] that by simp
    note * = knows_get(2) [OF this, where k' = "\<lambda>response. case response of
         None \<Rightarrow> reply_with (empty_response 202) | Some item \<Rightarrow> reply_with (response_message item)"]
    show ?thesis by (rule knows_cong [OF _ *]) (simp_all add: post_answer_def True 1)
  next
    case False
    show ?thesis
      by (rule knows_cong [where h' = "reply_with (empty_response (if ok then 202 else 503))" and sv' = "touch cid s"])
        (use False that in \<open>auto simp: post_answer_def\<close>)
  qed
  let ?cid = "cc_client_id claims"
  let ?s = "touch ?cid (snd (client_entry_for ?cid sv))"
  obtain t b where 2: "read_clock ?s = (t, b)" by fastforce
  obtain queue c where 3: "service_queue_for name b = (queue, c)" by fastforce
  obtain left d where 4: "remaining_ms (deadline_at t budget) c = (left, d)" by fastforce
  have "known_services (snd (client_entry_for ?cid sv)) = known_services sv" using known_clock(3) by (metis prod.collapse)
  then have "known_services d = learnt name sv"
    using known_clock(1) [OF 2] known_queue_for [OF 3] known_clock(2) [OF 4] by simp
  then have "knows (learnt name sv) (queue_put (service_queue queue) item left (post_answer ?cid entry block (deadline_at t budget))) d"
    for item entry by (rule knows_put) (rule answer)
  note * = knows_cong [OF _ this]
  show ?thesis
    by (rule knows_cong [where h' = "\<lambda>sv. (sv, Pause _)" and sv' = ?s])
      (simp add: post_request_eq [OF assms], subst knows_simps, rule *, simp add: 2 3 4)
qed

lemma get_request_knows:
  assumes "normalize_timeout timeout (max_timeout_ms cfg) = Inr ms" "sc_name claims = name"
  shows "knows (learnt name sv) (get_request_for_service cfg name claims timeout) sv"
proof -
  obtain queue s1 where 1: "service_queue_for name sv = (queue, s1)" by fastforce
  have "knows (learnt name sv) (queue_get (service_queue queue) ms (\<lambda>item. case item of
      None \<Rightarrow> reply_with (empty_response 204) | Some item \<Rightarrow> reply_with (request_message item))) s1"
    by (rule knows_get) (simp_all add: known_queue_for [OF 1])
  then show ?thesis by (rule knows_cong [rotated]) (simp add: get_request_for_service_def assms 1)
qed

lemma post_response_knows:
  assumes "normalize_timeout timeout (max_timeout_ms cfg) = Inr ms"
  shows "knows (known_services sv) (post_response_to_client cfg cid claims rid timeout ct payload) sv"
proof -
  obtain entry s1 where 1: "client_entry_for cid sv = (entry, s1)" by fastforce
  have "knows (known_services sv) (\<lambda>sv. (sv, Pause (queue_put (client_queue entry) item ms (\<lambda>enqueued.
      if \<not> enqueued then reply_with (empty_response 503) else reply_with (empty_response 202))))) s1" for item
    unfolding knows_simps by (rule knows_put) (simp_all add: known_clock(3) [OF 1])
  then show ?thesis by (rule knows_cong [rotated]) (simp add: post_response_to_client_def assms 1)
qed

lemma get_response_knows:
  assumes "normalize_timeout timeout (max_timeout_ms cfg) = Inr ms" "cc_client_id claims = cid"
  shows "knows (known_services sv) (get_response_for_client cfg cid claims timeout) sv"
proof -
  obtain entry s1 where 1: "client_entry_for cid sv = (entry, s1)" by fastforce
  have "knows (known_services sv) (queue_get (client_queue entry) ms (\<lambda>item sv. let sv = touch cid sv in case item of
      None \<Rightarrow> reply_with (empty_response 204) sv | Some item \<Rightarrow> reply_with (response_message item) sv)) (touch cid s1)"
    by (rule knows_get) (simp_all add: known_clock(3) [OF 1] Let_def)
  then show ?thesis by (rule knows_cong [rotated]) (simp add: get_response_for_client_def assms 1)
qed

section \<open>One request\<close>

text \<open>\<open>serve\<close> as a machine over the abstract state: the handler answers what the broker answers.\<close>

definition brokered :: "(broker \<Rightarrow> broker \<times> reply) \<Rightarrow> handler \<Rightarrow> server \<Rightarrow> bool" where
  "brokered f h sv \<longleftrightarrow> (broker_of (fst (serve h sv)), snd (serve h sv)) = f (broker_of sv)"

lemma brokered_cong: "h sv = h' sv \<Longrightarrow> brokered f h' sv \<Longrightarrow> brokered f h sv"
  by (simp add: brokered_def serve_cong [of h sv h' sv])

lemma brokered_unprocessable: "brokered (\<lambda>b. (b, Unprocessable)) (\<lambda>sv. (sv, Return Unprocessable)) sv"
  by (simp add: brokered_def)

lemma brokered_raise: "brokered (\<lambda>b. (b, Raised e)) (raise e) sv"
  by (simp add: brokered_def)

lemma brokered_depends:
  "(\<And>c. claims = Inr c \<Longrightarrow> brokered (k' c) (k c) sv) \<Longrightarrow> brokered (spec_claims claims k') (depends claims k) sv"
  by (cases claims) (simp_all add: spec_claims_def [abs_def] depends_def brokered_raise)

lemma brokered_nonempty:
  "(p \<noteq> [] \<Longrightarrow> brokered k' k sv) \<Longrightarrow> brokered (spec_valid (p \<noteq> []) k') (nonempty p k) sv"
  by (cases "p = []") (simp_all add: spec_valid_def [abs_def] nonempty_def brokered_unprocessable)

lemma brokered_required:
  assumes "\<And>rid. p \<noteq> [] \<Longrightarrow> rid \<noteq> [] \<Longrightarrow> request_id_of r = rid \<Longrightarrow> brokered k' (k rid) sv"
  shows "brokered (spec_valid (p \<noteq> [] \<and> request_id_of r \<noteq> []) k') (nonempty p (required (hr_request_id r) k)) sv"
  using assms
  by (cases "p = []"; cases "hr_request_id r"; cases "request_id_of r = []")
    (simp_all add: spec_valid_def [abs_def] nonempty_def required_def request_id_of_def brokered_unprocessable)

lemma learn_of: "learn name (broker_of sv) = (broker_of sv)\<lparr>bk_known := learnt name sv\<rparr>"
  by (simp add: learn_def broker_of_def)

lemma broker_eq: "view sv' = mb \<Longrightarrow> known_services sv' = names \<Longrightarrow> broker_of sv' = \<lparr>bk_boxes = mb, bk_known = names\<rparr>"
  by (simp add: broker_of_def)

text \<open>A handler whose effect on the mailboxes and on the known services is given.\<close>

lemma brokered_boxes:
  assumes "\<And>sv' p. serve h sv = (sv', p) \<Longrightarrow> (view sv', p) = f (view sv)" "knows names h sv"
  shows "brokered (\<lambda>b. on_boxes f (b\<lparr>bk_known := names\<rparr>)) h sv"
proof -
  obtain sv' p where s: "serve h sv = (sv', p)" by fastforce
  have "f (view sv) = (view sv', p)" "known_services sv' = names" using assms s by (simp_all add: knows_def)
  then show ?thesis by (simp add: brokered_def s on_boxes_def broker_of_def)
qed

lemma brokered_known: "brokered f h sv \<Longrightarrow> f (broker_of sv) = f' (broker_of sv) \<Longrightarrow> brokered f' h sv"
  by (simp add: brokered_def)

lemma on_boxes_same: "on_boxes f ((broker_of sv)\<lparr>bk_known := known_services sv\<rparr>) = on_boxes f (broker_of sv)"
  by (simp add: broker_of_def)

text \<open>
  A bad timeout is noticed after the client has been registered (\<open>normalize_timeout\<close> is the first
  line after \<open>get_or_create\<close>), which the mailboxes do not show.
\<close>

lemma silent_raise:
  assumes "h sv = raise e sv'" "view sv' = view sv" "known_services sv' = known_services sv"
  shows "brokered (\<lambda>b. (b, Raised e)) h sv"
proof -
  have "serve h sv = (sv', Raised e)" using assms(1) by (simp add: serve_def solo_seg_def raise_def)
  with assms(2,3) show ?thesis by (simp add: brokered_def broker_of_def)
qed

lemma brokered_post_request:
  assumes "settings_valid cfg" "server_ok x cfg sv" "authentic x cfg (cc_client_id claims)" "rid \<noteq> []"
  shows "brokered (spec_timeout cfg r (\<lambda>b. on_boxes (spec_post_request cfg name (hr_block r)
           \<lparr>rq_client_id = cc_client_id claims, rq_request_id = rid,
            rq_content_type = content_type_or (hr_content_type r) (default_content_type cfg),
            rq_payload = hr_body r\<rparr>) (learn name b)))
    (post_request_to_service cfg name claims rid (hr_timeout r) (hr_block r) (hr_content_type r) (hr_body r)) sv"
proof (cases "normalize_timeout (hr_timeout r) (max_timeout_ms cfg)")
  case (Inl e)
  obtain entry s1 where 1: "client_entry_for (cc_client_id claims) sv = (entry, s1)" by fastforce
  have "brokered (\<lambda>b. (b, Raised e)) (post_request_to_service cfg name claims rid (hr_timeout r) (hr_block r)
      (hr_content_type r) (hr_body r)) sv"
    by (rule silent_raise [where sv' = "touch (cc_client_id claims) s1"])
      (simp_all add: post_request_to_service_def 1 Inl known_clock(3) [OF 1]
        silentD(1) [OF silent_trans [OF silent_client_entry_for(1) [OF assms(2) 1] silent_touch]])
  then show ?thesis by (simp add: spec_timeout_def [abs_def] Inl)
next
  case (Inr ms)
  show ?thesis
    by (rule brokered_known [OF brokered_boxes [where f = "spec_post_request cfg name (hr_block r)
           \<lparr>rq_client_id = cc_client_id claims, rq_request_id = rid,
            rq_content_type = content_type_or (hr_content_type r) (default_content_type cfg),
            rq_payload = hr_body r\<rparr>", OF _ post_request_knows [OF Inr, of name]]])
      (erule post_request_view [OF assms Inr], simp add: spec_timeout_def Inr learn_of)
qed

lemma brokered_get_request:
  assumes "server_ok x cfg sv"
  shows "brokered (\<lambda>b. if sc_name claims \<noteq> name
         then (b, Raised (RoleMismatchError (''token'' @ [CHR 0x27] @ ''s service name does not match path'')))
         else spec_timeout cfg r (\<lambda>b. on_boxes (spec_get_request name) (learn name b)) b)
    (get_request_for_service cfg name claims (hr_timeout r)) sv"
proof (cases "sc_name claims = name")
  case False
  then show ?thesis by (simp add: brokered_raise get_request_for_service_def)
next
  case name: True
  show ?thesis
  proof (cases "normalize_timeout (hr_timeout r) (max_timeout_ms cfg)")
    case (Inl e)
    then show ?thesis using name by (simp add: brokered_raise get_request_for_service_def spec_timeout_def [abs_def])
  next
    case (Inr ms)
    show ?thesis
      by (rule brokered_known [OF brokered_boxes [OF _ get_request_knows [OF Inr name]]])
        (use get_request_view [OF assms Inr, of name claims] name in \<open>auto simp: spec_timeout_def Inr learn_of\<close>)
  qed
qed

lemma brokered_post_response:
  assumes "settings_valid cfg" "server_ok x cfg sv"
  shows "brokered (spec_timeout cfg r (on_boxes (spec_post_response cfg cid
           \<lparr>rs_request_id = rid,
            rs_content_type = content_type_or (hr_content_type r) (default_content_type cfg),
            rs_payload = hr_body r\<rparr>)))
    (post_response_to_client cfg cid claims rid (hr_timeout r) (hr_content_type r) (hr_body r)) sv"
proof (cases "normalize_timeout (hr_timeout r) (max_timeout_ms cfg)")
  case (Inl e)
  obtain entry s1 where 1: "client_entry_for cid sv = (entry, s1)" by fastforce
  have "brokered (\<lambda>b. (b, Raised e)) (post_response_to_client cfg cid claims rid (hr_timeout r)
      (hr_content_type r) (hr_body r)) sv"
    by (rule silent_raise [where sv' = s1])
      (simp_all add: post_response_to_client_def 1 Inl known_clock(3) [OF 1]
        silentD(1) [OF silent_client_entry_for(1) [OF assms(2) 1]])
  then show ?thesis by (simp add: spec_timeout_def [abs_def] Inl)
next
  case (Inr ms)
  show ?thesis
    by (rule brokered_known [OF brokered_boxes [where f = "spec_post_response cfg cid
           \<lparr>rs_request_id = rid,
            rs_content_type = content_type_or (hr_content_type r) (default_content_type cfg),
            rs_payload = hr_body r\<rparr>", OF _ post_response_knows [OF Inr]]])
      (erule post_response_view [OF assms Inr], simp add: spec_timeout_def Inr on_boxes_same)
qed

lemma brokered_get_response:
  assumes "server_ok x cfg sv"
  shows "brokered (\<lambda>b. if cc_client_id claims \<noteq> cid
         then (b, Raised (ForbiddenError (''path client_id does not match token'' @ [CHR 0x27] @ ''s client_id'')))
         else spec_timeout cfg r (on_boxes (spec_get_response cid)) b)
    (get_response_for_client cfg cid claims (hr_timeout r)) sv"
proof (cases "cc_client_id claims = cid")
  case False
  then show ?thesis by (simp add: brokered_raise get_response_for_client_def)
next
  case cid: True
  show ?thesis
  proof (cases "normalize_timeout (hr_timeout r) (max_timeout_ms cfg)")
    case (Inl e)
    obtain entry s1 where 1: "client_entry_for cid sv = (entry, s1)" by fastforce
    have "brokered (\<lambda>b. (b, Raised e)) (get_response_for_client cfg cid claims (hr_timeout r)) sv"
      by (rule silent_raise [where sv' = "touch cid s1"])
        (simp_all add: get_response_for_client_def 1 Inl cid known_clock(3) [OF 1]
          silentD(1) [OF silent_trans [OF silent_client_entry_for(1) [OF assms 1] silent_touch]])
    then show ?thesis using cid by (simp add: spec_timeout_def [abs_def] Inl)
  next
    case (Inr ms)
    show ?thesis
      by (rule brokered_known [OF brokered_boxes [OF _ get_response_knows [OF Inr cid]]])
        (use get_response_view [OF assms Inr, of cid claims] cid in \<open>auto simp: spec_timeout_def Inr on_boxes_same\<close>)
  qed
qed

section \<open>The whole server\<close>

lemma brokered_service_auth:
  assumes "server_ok x cfg sv"
  shows "brokered (\<lambda>b. (learn name b, Reply (json_response 200 [(''X-Pype-Server-IP'', internal_ip cfg')]
          (service_auth_response (issue_service_jwt y name (generate_secret random) cfg') name (generate_secret random)))))
    (service_auth y cfg' random name) sv"
proof -
  obtain q s1 where 1: "service_queue_for name sv = (q, s1)" by fastforce
  have "serve (service_auth y cfg' random name) sv = serve (reply_with (json_response 200 [(''X-Pype-Server-IP'', internal_ip cfg')]
          (service_auth_response (issue_service_jwt y name (generate_secret random) cfg') name (generate_secret random)))) s1"
    by (rule serve_cong) (simp add: service_auth_def Let_def 1)
  then show ?thesis
    by (simp add: brokered_def learn_of)
      (simp add: broker_of_def known_queue_for [OF 1] silentD(1) [OF silent_service_queue_for(1) [OF assms 1]])
qed

text \<open>Entries that are dropped from the client registry: their boxes are empty, the others are as they were.\<close>

lemma client_box_dropped:
  assumes "cr_wf reg" "cr_objects reg' = cr_objects reg" "cr_entries reg' = filter P (cr_entries reg)"
  shows "client_box reg' = (\<lambda>cid. if cid \<in> {c. map_of (cr_entries reg') c = None} then [] else client_box reg cid)"
proof
  fix cid
  have d: "distinct (dict_keys (cr_entries reg))" using assms(1) by (simp add: cr_wf_def)
  then have "map_of (cr_entries reg) cid = Some e" if "map_of (cr_entries reg') cid = Some e" for e
    using that dict_get_filter by (fastforce simp: assms(3))
  then show "client_box reg' cid = (if cid \<in> {c. map_of (cr_entries reg') c = None} then [] else client_box reg cid)"
    by (auto simp: client_box_def assms(2) split: option.split)
qed

lemma broker_dropped:
  assumes "client_box (sv_clients sv') = (\<lambda>cid. if cid \<in> cids then [] else client_box (sv_clients sv) cid)"
    and "sv_services sv' = sv_services sv"
  shows "broker_of sv' = empty_boxes cids (broker_of sv)"
  using assms by (auto simp: broker_of_def empty_boxes_def view_def known_services_def fun_eq_iff)

lemma brokered_logoff:
  "brokered (\<lambda>b. (empty_boxes {cc_client_id claims} b,
      Reply (json_response 200 [] (client_logoff_response (cc_client_id claims))))) (client_logoff claims) sv"
proof -
  let ?cid = "cc_client_id claims"
  have "client_box (sv_clients (drop_client ?cid sv)) = (\<lambda>cid. if cid \<in> {?cid} then [] else client_box (sv_clients sv) cid)"
    by (auto simp: drop_client_def client_remove_def client_box_def dict_simps fun_eq_iff split: option.split)
  then have "broker_of (drop_client ?cid sv) = empty_boxes {?cid} (broker_of sv)"
    by (rule broker_dropped) (simp add: drop_client_def)
  moreover have "serve (client_logoff claims) sv = serve (reply_with (json_response 200 [] (client_logoff_response ?cid)))
      (drop_client ?cid sv)"
    by (rule serve_cong) (simp add: client_logoff_def Let_def)
  ultimately show ?thesis by (simp add: brokered_def)
qed

lemma loads_known:
  assumes "sr_wf (sv_services sv)"
  shows "map (\<lambda>(name, load). service_load_entry name load) (snapshot_loads (sv_services sv)) =
    map (\<lambda>name. service_load_entry name (int (length (requests (view sv) name)))) (known_services sv)"
proof -
  have "map_of (sr_queues (sv_services sv)) name = Some q" if "(name, q) \<in> set (sr_queues (sv_services sv))" for name q
    using assms that by (simp add: sr_wf_def)
  then show ?thesis by (auto simp: snapshot_loads_def known_services_def view_def service_box_def qsize_def)
qed

lemma brokered_load:
  assumes "server_ok x cfg sv"
  shows "brokered (\<lambda>b. (b, Reply (json_response 200 [] (JArr (map (\<lambda>name.
       service_load_entry name (int (length (requests (bk_boxes b) name)))) (bk_known b)))))) services_load sv"
proof -
  have "serve services_load sv = serve (reply_with (json_response 200 [] (JArr (map (\<lambda>name.
       service_load_entry name (int (length (requests (view sv) name)))) (known_services sv))))) sv"
    by (rule serve_cong) (simp add: services_load_def loads_known [OF server_okD(2) [OF assms]])
  then show ?thesis by (simp add: brokered_def broker_of_def)
qed

lemma handle_brokered:
  assumes "settings_valid cfg" "server_ok x cfg sv"
  shows "brokered (spec_handle x cfg random r) (handle x cfg random r) sv"
proof (cases "hr_endpoint r")
  case (PostService name)
  have auth: "authentic x cfg (cc_client_id claims)"
    if "client_claims_of x cfg (hr_authorization r) = Inr claims" for claims
    using that by (auto simp: authentic_def)
  show ?thesis unfolding spec_handle_def handle_def PostService endpoint.case
    by (intro brokered_depends brokered_required) (simp add: brokered_post_request [OF assms auth])
next
  case (GetService name)
  show ?thesis unfolding spec_handle_def handle_def GetService endpoint.case
    by (intro brokered_depends brokered_nonempty brokered_get_request [OF assms(2)])
next
  case (PostClient cid)
  show ?thesis unfolding spec_handle_def handle_def PostClient endpoint.case
    by (intro brokered_depends brokered_required) (simp add: brokered_post_response [OF assms])
next
  case (GetClient cid)
  show ?thesis unfolding spec_handle_def handle_def GetClient endpoint.case
    by (intro brokered_depends brokered_nonempty brokered_get_response [OF assms(2)])
next
  case AuthService
  show ?thesis unfolding spec_handle_def handle_def AuthService endpoint.case
    by (intro brokered_nonempty brokered_service_auth [OF assms(2)])
next
  case AuthClient
  show ?thesis unfolding spec_handle_def handle_def AuthClient endpoint.case
    by (intro brokered_nonempty) (simp add: brokered_def client_auth_def Let_def)
next
  case LogoffClient
  show ?thesis unfolding spec_handle_def handle_def LogoffClient endpoint.case
    by (intro brokered_depends brokered_logoff)
next
  case LoadServices
  show ?thesis unfolding spec_handle_def handle_def LoadServices endpoint.case
    by (rule brokered_load [OF assms(2)])
qed

text \<open>
  The events: a request arrives and is handled undisturbed, the reaper is due or not, time
  passes. The broker has no reaper and no clock; it may forget the responses of some clients
  whenever the reaper runs.
\<close>

datatype broker_event = Handle bytes http_request | Reap | Pass rat | Readings "rat list"

fun server_event :: "ext \<Rightarrow> settings \<Rightarrow> server \<Rightarrow> broker_event \<Rightarrow> server \<times> reply option" where
  "server_event x cfg sv (Handle random r) = map_prod id Some (serve (handle x cfg random r) sv)"
| "server_event x cfg sv Reap = (reaper_iteration sv, None)"
| "server_event x cfg sv (Pass d) = (elapse d sv, None)"
| "server_event x cfg sv (Readings ds) = (jitter ds sv, None)"

inductive broker_step :: "ext \<Rightarrow> settings \<Rightarrow> broker \<Rightarrow> broker_event \<Rightarrow> reply option \<Rightarrow> broker \<Rightarrow> bool" for x cfg where
  answer: "spec_handle x cfg random r b = (b', p) \<Longrightarrow> broker_step x cfg b (Handle random r) (Some p) b'"
| forget: "broker_step x cfg b Reap None (empty_boxes cids b)"
| pass: "broker_step x cfg b (Pass d) None b"
| readings: "broker_step x cfg b (Readings ds) None b"

inductive_simps broker_step_simps:
  "broker_step x cfg b (Handle random r) p b'"
  "broker_step x cfg b Reap p b'"
  "broker_step x cfg b (Pass d) p b'"
  "broker_step x cfg b (Readings ds) p b'"

lemma broker_reap:
  assumes "server_ok x cfg sv"
  shows "\<exists>cids. broker_of (reaper_iteration sv) = empty_boxes cids (broker_of sv)"
proof (cases "\<not> sv_reaping sv \<or> now (sv_clock sv) < sv_wake sv")
  case True
  then show ?thesis by (intro exI [of _ "{}"]) (simp add: reaper_iteration_def empty_boxes_def)
next
  case False
  obtain n rp reg clk where t: "reaper_tick (sv_reaper sv) (sv_clients sv, sv_clock sv) = (n, rp, reg, clk)"
    by (metis prod_cases4)
  note wf = server_okD(1) [OF assms]
  have "client_box reg = (\<lambda>cid. if cid \<in> {c. map_of (cr_entries reg) c = None} then [] else client_box (sv_clients sv) cid)"
    by (rule client_box_dropped [OF wf]) (simp_all add: reaper_tick_result(1) [OF wf t], simp add: survivors_def)
  then show ?thesis
    by (intro exI [of _ "{c. map_of (cr_entries reg) c = None}"] broker_dropped) (use False t in \<open>simp_all add: reaper_iteration_def\<close>)
qed

lemma event_simulated:
  assumes "settings_valid cfg" "server_ok x cfg sv" "server_event x cfg sv e = (sv', p)"
  shows "server_ok x cfg sv'" "broker_step x cfg (broker_of sv) e p (broker_of sv')"
proof -
  have *: "server_ok x cfg sv' \<and> broker_step x cfg (broker_of sv) e p (broker_of sv')"
  proof (cases e)
    case (Handle random r)
    then obtain q where s: "serve (handle x cfg random r) sv = (sv', q)" and p: "p = Some q"
      using assms(3) by (cases "serve (handle x cfg random r) sv") auto
    show ?thesis using serve_ok(1) [OF assms(2) handle_ok s] handle_brokered [OF assms(1,2), of random r]
      by (simp add: Handle p brokered_def s broker_step_simps)
  next
    case Reap
    then show ?thesis using assms(3) environment_ok(3) [OF assms(2)] broker_reap [OF assms(2)]
      by (auto simp: broker_step_simps)
  qed (use assms(3) environment_ok(1,2) [OF assms(2)] in
      \<open>auto simp: broker_step_simps broker_of_def elapse_def jitter_def view_def\<close>)
  then show "server_ok x cfg sv'" "broker_step x cfg (broker_of sv) e p (broker_of sv')" by simp_all
qed

interpretation bk: simulation "server_event x cfg" "broker_step x cfg" broker_of
  "\<lambda>sv. settings_valid cfg \<and> server_ok x cfg sv" for x cfg
  by unfold_locales (use event_simulated in blast)+

text \<open>
  C12: the server is the broker. From any state that satisfies the invariant, any
  sequence of requests that are handled undisturbed, of runs of the reaper and of time passing is a
  sequence of events of the abstract broker with the same answers: each of the eight endpoints
  answers what \<open>spec_handle\<close> says on every one of its branches, errors included, puts into and takes from
  the mailboxes what \<open>spec_handle\<close> says and nothing else, and nothing but a sign-off and the reaper ever drops a
  message.
\<close>

theorem server_refines_broker:
  assumes "settings_valid cfg" "server_ok x cfg sv" "outputs (server_event x cfg) sv es = (sv', ps)"
  shows "server_ok x cfg sv' \<and> abstract_run (broker_step x cfg) (broker_of sv) es ps (broker_of sv')"
  using bk.simulates_runs [OF conjI [OF assms(1,2)] assms(3)] by simp

definition demo_events :: "broker_event list" where
  "demo_events = [Handle [] ((demo_request AuthService None None [])\<lparr>hr_name := ''echo''\<rparr>),
     Handle [] (demo_request (PostService ''work'') demo_client (Some ''7'') [1]), Reap, Pass 1,
     Handle [] (demo_request LoadServices None None [])]"

theorem server_refines_broker_witness:
  "\<exists>sv' ps. outputs (server_event demo_ext demo_cfg) demo_app demo_events = (sv', ps)
     \<and> abstract_run (broker_step demo_ext demo_cfg) (broker_of demo_app) demo_events ps (broker_of sv')
     \<and> last ps = Some (Reply (json_response 200 [] (JArr [service_load_entry ''echo'' 0, service_load_entry ''work'' 1])))"
proof -
  obtain sv' ps where run: "outputs (server_event demo_ext demo_cfg) demo_app demo_events = (sv', ps)" by fastforce
  have "last (snd (outputs (server_event demo_ext demo_cfg) demo_app demo_events)) =
      Some (Reply (json_response 200 [] (JArr [service_load_entry ''echo'' 0, service_load_entry ''work'' 1])))" by code_simp
  with run server_refines_broker [OF demo_cfg_valid demo_app_ok run] show ?thesis by simp
qed

end
