(* ===== verification/Presence.thy ===== *)
theory Presence
  imports Server_App
begin

text \<open>
  How long a client stays registered, over all runs of the process.

  \<^item> \<open>present\<close>: a client is registered with a certain entry and was seen at or after a certain
    time; \<open>retains\<close>: what a step of a request keeps of it. Only a logoff of the client itself
    drops it.
  \<^item> The locale \<open>interference\<close> once more, with \<open>retains\<close> as the guarantee of every segment.
  \<^item> \<open>seen_client_kept\<close>: the reaper drops no client before its threshold.
\<close>

section \<open>What the operations retain\<close>

definition seen_ok :: "server \<Rightarrow> bool" where
  "seen_ok sv \<longleftrightarrow> clock_ok (sv_clock sv) \<and>
     (\<forall>entry \<in> set (cr_objects (sv_clients sv)). ce_last_seen entry \<le> now (sv_clock sv))"

definition present :: "string \<Rightarrow> nat \<Rightarrow> rat \<Rightarrow> server \<Rightarrow> bool" where
  "present cid e t sv \<longleftrightarrow> map_of (cr_entries (sv_clients sv)) cid = Some e
     \<and> e < length (cr_objects (sv_clients sv)) \<and> t \<le> ce_last_seen (cr_objects (sv_clients sv) ! e)"

definition retains :: "(string \<Rightarrow> bool) \<Rightarrow> server \<Rightarrow> server \<Rightarrow> bool" where
  "retains gone sv sv' \<longleftrightarrow> (seen_ok sv \<longrightarrow> seen_ok sv' \<and> now (sv_clock sv) \<le> now (sv_clock sv')
     \<and> (\<forall>cid e t. \<not> gone cid \<longrightarrow> present cid e t sv \<longrightarrow> present cid e t sv'))
     \<and> rp_threshold_seconds (sv_reaper sv') = rp_threshold_seconds (sv_reaper sv)
     \<and> (sv_reaping sv' \<longrightarrow> sv_reaping sv)"

lemma retains_refl [simp]: "retains gone sv sv"
  by (simp add: retains_def)

lemma retains_trans: "retains gone a b \<Longrightarrow> retains gone b c \<Longrightarrow> retains gone a c"
  unfolding retains_def by force

text \<open>Steps that only let the clock run.\<close>

lemma retains_clock:
  assumes "clock_ok (sv_clock sv) \<Longrightarrow> clock_ok clk \<and> now (sv_clock sv) \<le> now clk"
  shows "retains gone sv (sv\<lparr>sv_clock := clk\<rparr>)"
  using assms by (fastforce simp: retains_def seen_ok_def present_def)

lemma retains_read_clock:
  assumes "read_clock sv = (t, sv')"
  shows "retains gone sv sv'"
proof -
  obtain t clk where m: "monotonic (sv_clock sv) = (t, clk)" by fastforce
  then have "sv' = sv\<lparr>sv_clock := clk\<rparr>" using assms by (auto simp: read_clock_def)
  with monotonic_ok [OF m] show ?thesis by (simp add: retains_clock)
qed

lemma retains_remaining_ms: "remaining_ms d sv = (ms, sv') \<Longrightarrow> retains gone sv sv'"
  by (auto simp: remaining_ms_def split: prod.splits intro: retains_read_clock)

lemma retains_service_queue_for: "service_queue_for name sv = (q, sv') \<Longrightarrow> retains gone sv sv'"
  by (auto simp: service_queue_for_def retains_def seen_ok_def present_def split: prod.splits)

lemma retains_assign:
  "retains gone sv (assign (service_queue q) queue sv)"
  "retains gone sv (assign (client_queue e) queue' sv)"
proof -
  show "retains gone sv (assign (service_queue q) queue sv)"
    by (simp add: service_queue_def retains_def seen_ok_def present_def)
  have *: "ce_last_seen ((cr_objects (sv_clients sv))[e := (cr_objects (sv_clients sv) ! e)\<lparr>ce_queue := queue'\<rparr>] ! i) =
      ce_last_seen (cr_objects (sv_clients sv) ! i)" for i
    by (rule nth_list_update_field) simp
  then show "retains gone sv (assign (client_queue e) queue' sv)"
    by (simp add: client_queue_def retains_def seen_ok_def present_def all_set_conv_all_nth)
qed

lemma retains_client_entry_for: "client_entry_for cid sv = (e, sv') \<Longrightarrow> retains gone sv sv'"
proof (cases "map_of (cr_entries (sv_clients sv)) cid")
  case (Some e')
  then show "client_entry_for cid sv = (e, sv') \<Longrightarrow> retains gone sv sv'"
    by (simp add: client_entry_for_def client_get_or_create_def)
next
  case None
  obtain t clk where m: "monotonic (sv_clock sv) = (t, clk)" by fastforce
  assume "client_entry_for cid sv = (e, sv')"
  with None m have sv': "sv' = sv\<lparr>sv_clients := (sv_clients sv)\<lparr>
      cr_objects := cr_objects (sv_clients sv) @
        [\<lparr>ce_client_id = cid, ce_queue = new_queue (cr_queue_max_size (sv_clients sv)), ce_last_seen = t\<rparr>],
      cr_entries := AList.update cid (length (cr_objects (sv_clients sv))) (cr_entries (sv_clients sv))\<rparr>,
      sv_clock := clk\<rparr>" by (auto simp: client_entry_for_def client_get_or_create_def Let_def)
  show "retains gone sv sv'" unfolding retains_def
  proof (intro conjI impI allI)
    assume ok: "seen_ok sv"
    note c = monotonic_ok [OF m]
    show "seen_ok sv'" "now (sv_clock sv) \<le> now (sv_clock sv')" using ok c by (auto simp: sv' seen_ok_def)
    fix c e' s assume "present c e' s sv"
    then show "present c e' s sv'" using None
      by (auto simp: sv' present_def update_conv nth_append)
  qed (simp_all add: sv')
qed

lemma retains_touch: "retains gone sv (touch cid sv)"
proof (cases "map_of (cr_entries (sv_clients sv)) cid")
  case None
  then show ?thesis by (simp add: touch_def bump_last_seen_def)
next
  case (Some e)
  obtain t clk where m: "monotonic (sv_clock sv) = (t, clk)" by fastforce
  have sv': "touch cid sv = sv\<lparr>sv_clients := (sv_clients sv)\<lparr>cr_objects :=
      (cr_objects (sv_clients sv))[e := (cr_objects (sv_clients sv) ! e)\<lparr>ce_last_seen := t\<rparr>]\<rparr>, sv_clock := clk\<rparr>"
    using Some m by (simp add: touch_def bump_last_seen_def Let_def)
  show ?thesis unfolding retains_def
  proof (intro conjI impI allI)
    assume ok: "seen_ok sv"
    note c = monotonic_ok [OF m]
    show "now (sv_clock sv) \<le> now (sv_clock (touch cid sv))" using ok c by (auto simp: sv' seen_ok_def)
    show "seen_ok (touch cid sv)" using ok c set_update_subset_insert
      by (fastforce simp: sv' seen_ok_def)
    fix c' e' s assume "present c' e' s sv"
    moreover have "ce_last_seen (cr_objects (sv_clients sv) ! e') \<le> t" if "e' < length (cr_objects (sv_clients sv))"
      using ok c(2) nth_mem [OF that] unfolding seen_ok_def by (meson order.trans)
    ultimately show "present c' e' s (touch cid sv)"
      by (cases "e' = e") (auto simp: sv' present_def)
  qed (simp_all add: sv')
qed

lemma retains_drop_client: "gone cid \<Longrightarrow> retains gone sv (drop_client cid sv)"
  by (auto simp: drop_client_def client_remove_def retains_def seen_ok_def present_def dict_simps)


section \<open>Every segment of every handler retains\<close>

abbreviation retaining :: "(string \<Rightarrow> bool) \<Rightarrow> server \<Rightarrow> server \<Rightarrow> handler \<Rightarrow> bool" where
  "retaining gone \<equiv> run_ok (\<lambda>_. True) (\<lambda>_ _. True) (\<lambda>sv sv' _. retains gone sv sv') (\<lambda>_. True)"

abbreviation retaining_request :: "(string \<Rightarrow> bool) \<Rightarrow> server \<Rightarrow> handler \<Rightarrow> bool" where
  "retaining_request gone \<equiv> seg_ok (\<lambda>_. True) (\<lambda>_ _. True) (\<lambda>sv sv' _. retains gone sv sv') (\<lambda>_. True)"

lemma retaining_requestI: "(\<And>sv. retaining gone sv sv h) \<Longrightarrow> retaining_request gone s h"
  by (simp add: seg_ok_run_ok)

lemma retaining_cong: "retaining gone base s k \<Longrightarrow> k' s' = k s \<Longrightarrow> retaining gone base s' k'"
  by (simp add: run_ok_def)

lemma retaining_after: "retaining gone sv sv k \<Longrightarrow> retains gone base sv \<Longrightarrow> retaining gone base sv k"
  using retains_trans by (auto simp: run_ok_def)

lemma retaining_reply [intro]: "retaining gone sv sv (reply_with p)" "retaining gone sv sv (raise e)"
  by (simp_all add: run_ok_def reply_with_def raise_def)

lemma retaining_pause: "(\<And>sv. retaining gone sv sv k) \<Longrightarrow> retaining gone sv sv (\<lambda>sv. (sv, Pause k))"
  by (simp add: run_ok_def retaining_requestI)

lemma retaining_put:
  assumes "\<And>q sv. retains gone sv (assign queue q sv)" "\<And>ok sv. retaining gone sv sv (k ok)"
  shows "retaining gone sv sv (queue_put queue item ms k)"
proof (cases "ms = 0")
  case True
  then show ?thesis using assms(2) retaining_after [OF assms(2,1)]
    by (auto simp: run_ok_def queue_put_def split: sum.split)
next
  case False
  then show ?thesis using assms retaining_requestI [OF assms(2)]
    by (auto simp: run_ok_def queue_put_def attempt_sat_def split: sum.splits)
qed

lemma retaining_get:
  assumes "\<And>q sv. retains gone sv (assign queue q sv)" "\<And>found sv. retaining gone sv sv (k found)"
  shows "retaining gone sv sv (queue_get queue ms k)"
proof (cases "ms = 0")
  case True
  then show ?thesis using assms(2) retaining_after [OF assms(2,1)]
    by (auto simp: run_ok_def queue_get_def split: sum.split)
next
  case False
  then show ?thesis using assms retaining_requestI [OF assms(2)]
    by (auto simp: run_ok_def queue_get_def attempt_sat_def split: sum.splits)
qed

lemmas retaining_queue = retaining_put [OF retains_assign(1)] retaining_put [OF retains_assign(2)]
  retaining_get [OF retains_assign(1)] retaining_get [OF retains_assign(2)]

lemma post_answer_retaining: "retaining gone sv sv (post_answer cid entry block d ok)"
proof -
  obtain ms sv1 where 1: "remaining_ms d (touch cid sv) = (ms, sv1)" by fastforce
  have get: "retaining gone sv1 sv1 (queue_get (client_queue entry) ms (\<lambda>response.
      case response of None \<Rightarrow> reply_with (empty_response 202) | Some item \<Rightarrow> reply_with (response_message item)))"
    by (rule retaining_queue) (auto split: option.split)
  have "retains gone sv sv1" using retains_trans [OF retains_touch retains_remaining_ms [OF 1]] .
  note r = retaining_after [OF get this]
    retaining_after [OF retaining_reply(1) [where p = "empty_response (if ok then 202 else 503)"] retains_touch]
  show ?thesis
  proof (cases "ok \<and> block")
    case True
    then show ?thesis by (intro retaining_cong [OF r(1)]) (simp add: post_answer_def 1)
  next
    case False
    then show ?thesis by (intro retaining_cong [OF r(2)]) (auto simp: post_answer_def)
  qed
qed

lemma post_request_retaining:
  "retaining gone sv sv (post_request_to_service cfg name claims rid timeout block ct payload)" (is "retaining gone sv sv ?h")
proof -
  let ?cid = "cc_client_id claims"
  obtain entry sv1 where 1: "client_entry_for ?cid sv = (entry, sv1)" by fastforce
  let ?sv2 = "touch ?cid sv1"
  have r: "retains gone sv ?sv2" using retains_trans [OF retains_client_entry_for [OF 1] retains_touch] .
  show ?thesis
  proof (cases "normalize_timeout timeout (max_timeout_ms cfg)")
    case (Inl e)
    show ?thesis
      by (rule retaining_cong [OF retaining_after [OF retaining_reply(2) r]])
        (simp add: post_request_to_service_def 1 Inl)
  next
    case (Inr total)
    obtain k where k: "?h sv = (?sv2, Pause k)" by (simp add: post_request_to_service_def 1 Inr)
    have "retaining gone s s k" for s
    proof -
      obtain t s1 where 2: "read_clock s = (t, s1)" by fastforce
      obtain queue s2 where 3: "service_queue_for name s1 = (queue, s2)" by fastforce
      obtain ms s3 where 4: "remaining_ms (deadline_at t total) s2 = (ms, s3)" by fastforce
      have "retains gone s s3"
        using retains_trans [OF retains_read_clock [OF 2] retains_trans [OF retains_service_queue_for [OF 3] retains_remaining_ms [OF 4]]] .
      from retaining_after [OF retaining_queue(1) [OF post_answer_retaining] this]
      show ?thesis
        by (rule retaining_cong) (use k in \<open>auto simp: post_request_to_service_def 1 Inr 2 3 4 post_answer_def [abs_def] Let_def\<close>)
    qed
    from retaining_after [OF retaining_pause [OF this] r] show ?thesis by (rule retaining_cong) (simp add: k)
  qed
qed

lemma get_request_retaining: "retaining gone sv sv (get_request_for_service cfg name claims timeout)"
proof -
  obtain queue sv1 where 1: "service_queue_for name sv = (queue, sv1)" by fastforce
  have get: "retaining gone sv1 sv1 (queue_get (service_queue queue) ms
      (\<lambda>item. case item of None \<Rightarrow> reply_with (empty_response 204) | Some item \<Rightarrow> reply_with (request_message item)))" for ms
    by (rule retaining_queue) (auto split: option.split)
  from retaining_after [OF get retains_service_queue_for [OF 1]] show ?thesis
    using retaining_reply(2) by (cases "normalize_timeout timeout (max_timeout_ms cfg)")
      (auto simp: get_request_for_service_def 1 run_ok_def)
qed

lemma post_response_retaining:
  "retaining gone sv sv (post_response_to_client cfg cid claims rid timeout ct payload)" (is "retaining gone sv sv ?h")
proof -
  obtain entry sv1 where 1: "client_entry_for cid sv = (entry, sv1)" by fastforce
  note r = retains_client_entry_for [OF 1]
  show ?thesis
  proof (cases "normalize_timeout timeout (max_timeout_ms cfg)")
    case (Inl e)
    show ?thesis
      by (rule retaining_cong [OF retaining_after [OF retaining_reply(2) r]])
        (simp add: post_response_to_client_def 1 Inl)
  next
    case (Inr ms)
    obtain k where k: "?h sv = (sv1, Pause k)" by (simp add: post_response_to_client_def 1 Inr)
    have "retaining gone s s k" for s
      using k by (auto simp: post_response_to_client_def 1 Inr intro!: retaining_queue)
    from retaining_after [OF retaining_pause [OF this] r] show ?thesis by (rule retaining_cong) (simp add: k)
  qed
qed

lemma get_response_retaining: "retaining gone sv sv (get_response_for_client cfg cid claims timeout)"
proof -
  obtain entry sv1 where 1: "client_entry_for cid sv = (entry, sv1)" by fastforce
  let ?sv2 = "touch cid sv1"
  have r: "retains gone sv ?sv2" using retains_trans [OF retains_client_entry_for [OF 1] retains_touch] .
  have "retaining gone s s (\<lambda>sv. let sv = touch cid sv in case item of
      None \<Rightarrow> reply_with (empty_response 204) sv | Some item \<Rightarrow> reply_with (response_message item) sv)" for s item
    using retaining_after [OF retaining_reply(1) retains_touch] by (cases item) (auto simp: run_ok_def)
  from retaining_after [OF retaining_queue(4) [OF this] r] show ?thesis
    using retaining_reply(2) [of gone sv] retaining_after [OF retaining_reply(2) r]
    by (cases "normalize_timeout timeout (max_timeout_ms cfg)") (auto simp: get_response_for_client_def 1 run_ok_def)
qed

text \<open>A request after which the client may be gone: a logoff with the client's own token.\<close>

definition leaves :: "ext \<Rightarrow> settings \<Rightarrow> http_request \<Rightarrow> string \<Rightarrow> bool" where
  "leaves x cfg r cid \<longleftrightarrow> hr_endpoint r = LogoffClient \<and>
     (\<exists>claims. client_claims_of x cfg (hr_authorization r) = Inr claims \<and> cc_client_id claims = cid)"

lemma retaining_params:
  "(\<And>s. retaining gone s s h) \<Longrightarrow> retaining gone s s (nonempty p h)"
  "(\<And>v s. retaining gone s s (f v)) \<Longrightarrow> retaining gone s s (required q f)"
  "(\<And>c s. claims = Inr c \<Longrightarrow> retaining gone s s (d c)) \<Longrightarrow> retaining gone s s (depends claims d)"
  by (auto simp: run_ok_def nonempty_def required_def depends_def raise_def split: option.split sum.split)

lemma handle_retaining: "retaining_request (leaves x cfg r) s (handle x cfg random r)"
proof (rule retaining_requestI)
  fix sv
  note [simp] = handle_def
  note [intro!] = retaining_params
  show "retaining (leaves x cfg r) sv sv (handle x cfg random r)"
  proof (cases "hr_endpoint r")
    case AuthService
    have "retaining gone s s (service_auth x cfg random (hr_name r))" for gone s
      using retains_service_queue_for
      by (auto simp: service_auth_def run_ok_def reply_with_def Let_def split: prod.split)
    with AuthService show ?thesis by auto
  next
    case AuthClient
    then show ?thesis by (auto simp: client_auth_def Let_def)
  next
    case LogoffClient
    have "retaining (leaves x cfg r) s s (client_logoff claims)"
      if "client_claims_of x cfg (hr_authorization r) = Inr claims" for s claims
      using that LogoffClient retains_drop_client [of "leaves x cfg r" "cc_client_id claims"]
      by (auto simp: client_logoff_def run_ok_def reply_with_def Let_def leaves_def)
    with LogoffClient show ?thesis by auto
  next
    case LoadServices
    then show ?thesis by (simp add: services_load_def run_ok_def reply_with_def)
  qed (auto intro: post_request_retaining get_request_retaining post_response_retaining get_response_retaining)
qed

interpretation ret: interference "\<lambda>_. True" "\<lambda>_ _. True"
    "\<lambda>r sv sv' _. retains (leaves x cfg r) sv sv'" "\<lambda>_. True" for x cfg
  by unfold_locales simp_all

section \<open>All runs\<close>

abbreviation requests_retain :: "ext \<Rightarrow> settings \<Rightarrow> http_request list \<Rightarrow> process \<Rightarrow> bool" where
  "requests_retain x cfg \<equiv>
     loop_ok (\<lambda>_. True) (\<lambda>_ _. True) (\<lambda>r sv sv' _. retains (leaves x cfg r) sv sv') (\<lambda>_. True)"

lemma requests_retain_step:
  assumes "requests_retain x cfg rs P" "server_step x cfg P m = Some P'"
  shows "requests_retain x cfg (rs @ arrivals [m]) P'"
    "move_effect (\<lambda>r sv sv' _. retains (leaves x cfg r) sv sv') sv_time rs P (loop_move x cfg m) P'"
proof -
  have "move_ok (\<lambda>_. True) (\<lambda>_ _. True) (\<lambda>r sv sv' _. retains (leaves x cfg r) sv sv') (\<lambda>_. True)
    (mem P) rs (loop_move x cfg m) (rs @ arrivals [m])"
    using handle_retaining by (cases m) auto
  note * = ret.step_ok [OF assms(1) assms(2) [unfolded server_step_def] this]
  show "requests_retain x cfg (rs @ arrivals [m]) P'"
    "move_effect (\<lambda>r sv sv' _. retains (leaves x cfg r) sv sv') sv_time rs P (loop_move x cfg m) P'"
    by (rule *)+
qed

text \<open>The moves of the environment. The reaper is the only one that drops entries.\<close>

lemma retains_environment:
  "retains gone sv (elapse d sv)" "retains gone sv (jitter ds sv)" "retains gone sv (stop_reaper sv)"
proof -
  show "retains gone sv (elapse d sv)" using advance_ok by (simp add: elapse_def retains_clock)
  show "retains gone sv (jitter ds sv)" unfolding jitter_def
    by (rule retains_clock) (simp add: clock_ok_def list_all_iff)
  show "retains gone sv (stop_reaper sv)"
    by (simp add: stop_reaper_def retains_def seen_ok_def present_def)
qed

lemma reaper_iteration_cases:
  obtains (rest) "reaper_iteration sv = sv" "\<not> sv_reaping sv \<or> now (sv_clock sv) < sv_wake sv"
  | (tick) n rp reg clk where "reaper_tick (sv_reaper sv) (sv_clients sv, sv_clock sv) = (n, rp, reg, clk)"
      "reaper_iteration sv = sv\<lparr>sv_reaper := rp, sv_clients := reg, sv_clock := clk,
         sv_wake := py_add (now clk) (rp_period_seconds rp)\<rparr>" "sv_reaping sv"
proof (cases "\<not> sv_reaping sv \<or> now (sv_clock sv) < sv_wake sv")
  case True
  show ?thesis by (rule rest) (use True in \<open>simp_all add: reaper_iteration_def\<close>)
next
  case False
  obtain n rp reg clk where t: "reaper_tick (sv_reaper sv) (sv_clients sv, sv_clock sv) = (n, rp, reg, clk)"
    by (metis prod_cases4)
  show ?thesis by (rule tick [OF t]) (use False t in \<open>simp_all add: reaper_iteration_def\<close>)
qed

lemma reaper_tick_time:
  assumes "cr_wf reg" "reaper_tick rp (reg, clk) = (n, rp', reg', clk')" "clock_ok clk"
  shows "rp_threshold_seconds rp' = rp_threshold_seconds rp" "reg' = reg \<or> now clk' = fst (monotonic clk)"
proof -
  have d: "distinct (dict_keys (cr_entries reg))" using assms(1) by (simp add: cr_wf_def)
  obtain t c where m: "monotonic clk = (t, c)" by fastforce
  show "rp_threshold_seconds rp' = rp_threshold_seconds rp" "reg' = reg \<or> now clk' = fst (monotonic clk)"
    using assms(2) monotonic_ok [OF m assms(3)] m unfolding reaper_tick_eq [OF d]
    by (auto simp: Let_def split: if_splits)
qed

lemma reaper_iteration_seen:
  assumes "cr_wf (sv_clients sv)" "seen_ok sv"
  shows "seen_ok (reaper_iteration sv) \<and> now (sv_clock sv) \<le> now (sv_clock (reaper_iteration sv))
    \<and> rp_threshold_seconds (sv_reaper (reaper_iteration sv)) = rp_threshold_seconds (sv_reaper sv)
    \<and> sv_reaping (reaper_iteration sv) = sv_reaping sv"
proof (cases rule: reaper_iteration_cases [of sv])
  case rest
  with assms show ?thesis by simp
next
  case (tick n rp reg clk)
  have clk: "clock_ok (sv_clock sv)" using assms(2) by (simp add: seen_ok_def)
  from reaper_tick_keeps [OF assms(1) clk tick(1)] reaper_tick_time [OF assms(1) tick(1) clk] assms(2)
  show ?thesis by (force simp: tick(2) seen_ok_def)
qed

lemma reaper_iteration_keeps:
  assumes "cr_wf (sv_clients sv)" "seen_ok sv" "present cid e t sv"
    and "fl (rp_threshold_seconds (sv_reaper sv)) = rp_threshold_seconds (sv_reaper sv)"
    and "now (sv_clock (reaper_iteration sv)) \<le> t + rp_threshold_seconds (sv_reaper sv) \<or> \<not> sv_reaping sv"
  shows "present cid e t (reaper_iteration sv)"
proof (cases rule: reaper_iteration_cases [of sv])
  case rest
  with assms show ?thesis by simp
next
  case (tick n rp reg clk)
  have clk: "clock_ok (sv_clock sv)" using assms(2) by (simp add: seen_ok_def)
  note r = reaper_tick_keeps [OF assms(1) clk tick(1)]
  show ?thesis
  proof (cases "reg = sv_clients sv")
    case True
    then show ?thesis using assms(3) by (simp add: tick(2) present_def)
  next
    case False
    then have "now clk = fst (monotonic (sv_clock sv))" using reaper_tick_time [OF assms(1) tick(1) clk] by simp
    then have "client_get cid reg = Some e \<and> cr_objects reg ! e = cr_objects (sv_clients sv) ! e"
      by (intro keeps_live [OF assms(1) tick(1)]) (use assms tick in \<open>auto simp: present_def\<close>)
    with assms(3) r show ?thesis by (simp add: tick(2) present_def client_get_def)
  qed
qed

text \<open>One move: either a turn of the reaper, or a step that only its own request's client can lose by.\<close>

lemma presence_move:
  assumes "process_ok x cfg rs P" "requests_retain x cfg rs P" "server_step x cfg P m = Some P'"
  shows "m = Wake \<and> mem P' = reaper_iteration (mem P)
    \<or> (\<exists>gone. retains gone (mem P) (mem P') \<and>
        (\<forall>cid. gone cid \<longrightarrow> (\<exists>i < length rs. finished (Some P) i = None \<and> leaves x cfg (rs ! i) cid)))"
proof -
  have len: "length (tasks P) = length rs" using assms(1) by (auto simp: loop_ok_def dest: list_all2_lengthD)
  note e = requests_retain_step(2) [OF assms(2,3)]
  have i: "i < length rs \<and> finished (Some P) i = None" if "mover m = Some i" for i
    using assms(3) that len
    by (cases m) (auto simp: server_step_def finished_def split: if_splits task.splits option.splits prod.splits)
  show ?thesis
  proof (cases "mover m")
    case None
    then have "m = Wake \<and> mem P' = reaper_iteration (mem P) \<or> retains (\<lambda>_. False) (mem P) (mem P')"
      using e by (cases m) (simp_all add: retains_environment)
    then show ?thesis by blast
  next
    case (Some j)
    then have "retains (leaves x cfg (rs ! j)) (mem P) (mem P')" using e by (cases m) simp_all
    with i [OF Some] show ?thesis by blast
  qed
qed

lemma presence_step:
  assumes "process_ok x cfg rs P" "requests_retain x cfg rs P" "server_step x cfg P m = Some P'" "seen_ok (mem P)"
  shows "seen_ok (mem P')" "sv_time (mem P) \<le> sv_time (mem P')"
    "rp_threshold_seconds (sv_reaper (mem P')) = rp_threshold_seconds (sv_reaper (mem P))"
    "sv_reaping (mem P') \<Longrightarrow> sv_reaping (mem P)"
    "present cid e t (mem P) \<Longrightarrow> fl (rp_threshold_seconds (sv_reaper (mem P))) = rp_threshold_seconds (sv_reaper (mem P)) \<Longrightarrow>
      sv_time (mem P') \<le> t + rp_threshold_seconds (sv_reaper (mem P)) \<or> \<not> sv_reaping (mem P) \<Longrightarrow>
      \<forall>i < length rs. leaves x cfg (rs ! i) cid \<longrightarrow> finished (Some P) i \<noteq> None \<Longrightarrow> present cid e t (mem P')"
proof -
  have wf: "cr_wf (sv_clients (mem P))" using assms(1) by (auto simp: loop_ok_def server_ok_def)
  note m = presence_move [OF assms(1-3)]
  note r = reaper_iteration_seen [OF wf assms(4)] reaper_iteration_keeps [OF wf assms(4)]
  show "seen_ok (mem P')" "sv_time (mem P) \<le> sv_time (mem P')"
    "rp_threshold_seconds (sv_reaper (mem P')) = rp_threshold_seconds (sv_reaper (mem P))"
    "sv_reaping (mem P') \<Longrightarrow> sv_reaping (mem P)"
    using m r(1) assms(4) by (auto simp: retains_def sv_time_def)
  show "present cid e t (mem P')"
    if "present cid e t (mem P)" "fl (rp_threshold_seconds (sv_reaper (mem P))) = rp_threshold_seconds (sv_reaper (mem P))"
      "sv_time (mem P') \<le> t + rp_threshold_seconds (sv_reaper (mem P)) \<or> \<not> sv_reaping (mem P)"
      "\<forall>i < length rs. leaves x cfg (rs ! i) cid \<longrightarrow> finished (Some P) i \<noteq> None"
    using m
  proof
    assume "m = Wake \<and> mem P' = reaper_iteration (mem P)"
    with that show ?thesis using r(2) by (simp add: sv_time_def)
  next
    assume "\<exists>gone. retains gone (mem P) (mem P') \<and>
      (\<forall>cid. gone cid \<longrightarrow> (\<exists>i < length rs. finished (Some P) i = None \<and> leaves x cfg (rs ! i) cid))"
    with that assms(4) show ?thesis unfolding retains_def by blast
  qed
qed

lemma reachable_seen:
  "reachable x cfg rs P \<Longrightarrow> requests_retain x cfg rs P \<and> seen_ok (mem P) \<and>
     rp_threshold_seconds (sv_reaper (mem P)) = client_inactivity_threshold_seconds cfg"
proof (induction rule: reachable.induct)
  case (reach_start clk)
  then show ?case by (simp add: loop_ok_def start_def start_reaper_def create_app_def seen_ok_def
        new_client_registry_def new_reaper_def)
next
  case (reach_step rs P m P')
  then show ?case using requests_retain_step(1) presence_step(1,3) [OF reachable_ok] by auto
qed

lemma finished_step:
  assumes "server_step x cfg P m = Some P'" "finished (Some P) i \<noteq> None"
  shows "finished (Some P') i \<noteq> None"
  using assms by (cases m) (auto simp: server_step_def finished_def nth_append nth_list_update
      split: if_splits task.splits option.splits prod.splits)

lemma run_keeps_present:
  assumes "server_run x cfg P ms = Some P'" "reachable x cfg rs P" "present cid e t (mem P)"
    and "fl (client_inactivity_threshold_seconds cfg) = client_inactivity_threshold_seconds cfg"
    and "sv_time (mem P') \<le> t + client_inactivity_threshold_seconds cfg \<or> \<not> sv_reaping (mem P)"
    and "\<forall>i < length rs. leaves x cfg (rs ! i) cid \<longrightarrow> finished (Some P) i \<noteq> None"
    and "\<forall>r \<in> set (arrivals ms). \<not> leaves x cfg r cid"
  shows "present cid e t (mem P') \<and> seen_ok (mem P')"
  using assms
proof (induction ms arbitrary: P rs)
  case Nil
  then show ?case using reachable_seen by auto
next
  case (Cons m ms)
  then obtain P1 where P1: "server_step x cfg P m = Some P1" "server_run x cfg P1 ms = Some P'"
    by (auto split: option.splits)
  note r = reachable_seen [OF Cons.prems(2)] and ok = reachable_ok [OF Cons.prems(2)]
  note s = presence_step [OF ok conjunct1 [OF r] P1(1)]
  have r1: "reachable x cfg (rs @ arrivals [m]) P1" by (rule reach_step [OF Cons.prems(2) P1(1)])
  have "grows (mem P1) (mem P')" using run_grows [OF reachable_ok [OF r1] P1(2)] .
  then have "sv_time (mem P1) \<le> sv_time (mem P')" by (simp add: grows_def sv_time_def)
  then have early: "sv_time (mem P1) \<le> t + client_inactivity_threshold_seconds cfg \<or> \<not> sv_reaping (mem P)"
    using Cons.prems(5) by auto
  have "length rs = length (tasks P)" using ok by (auto simp: loop_ok_def dest: list_all2_lengthD)
  have "\<forall>i < length (rs @ arrivals [m]). leaves x cfg ((rs @ arrivals [m]) ! i) cid \<longrightarrow> finished (Some P1) i \<noteq> None"
  proof (intro allI impI)
    fix i assume i: "i < length (rs @ arrivals [m])" "leaves x cfg ((rs @ arrivals [m]) ! i) cid"
    have "\<not> leaves x cfg r cid" if "r \<in> set (arrivals [m])" for r
      using Cons.prems(7) that by (cases m) auto
    then have "i < length rs" using i by (metis length_append nth_append nth_mem nat_add_left_cancel_less le_add_diff_inverse not_less)
    then show "finished (Some P1) i \<noteq> None"
      using finished_step [OF P1(1)] Cons.prems(6) i(2) by (simp add: nth_append)
  qed
  moreover have "present cid e t (mem P1)" using s(5) r Cons.prems(3,4,6) early by simp
  moreover have "\<forall>r \<in> set (arrivals ms). \<not> leaves x cfg r cid" using Cons.prems(7) by (cases m) auto
  moreover have "sv_time (mem P') \<le> t + client_inactivity_threshold_seconds cfg \<or> \<not> sv_reaping (mem P1)"
    using Cons.prems(5) s(4) r by auto
  ultimately show ?case using Cons.IH [OF P1(2) r1] Cons.prems(4) by simp
qed

text \<open>
  C9: no client is evicted before its time. In every run, whatever else happens, a registered client
  keeps its entry, and so its queue with all responses in it, as long as no logoff with its
  own token is under way or arrives and the time since it was last seen is within the inactivity
  threshold; after a shutdown of the reaper it keeps it for ever. The time at which it was last seen
  never decreases and never lies in the future.
\<close>

theorem seen_client_kept:
  assumes "settings_valid cfg" "reachable x cfg rs P" "server_run x cfg P ms = Some P'"
    and "map_of (cr_entries (sv_clients (mem P))) cid = Some e"
    and "sv_time (mem P') \<le> ce_last_seen (cr_objects (sv_clients (mem P)) ! e) + client_inactivity_threshold_seconds cfg
      \<or> \<not> sv_reaping (mem P)"
    and "\<forall>i < length rs. leaves x cfg (rs ! i) cid \<longrightarrow> finished (Some P) i \<noteq> None"
    and "\<forall>r \<in> set (arrivals ms). \<not> leaves x cfg r cid"
  shows "map_of (cr_entries (sv_clients (mem P'))) cid = Some e
    \<and> ce_last_seen (cr_objects (sv_clients (mem P)) ! e) \<le> ce_last_seen (cr_objects (sv_clients (mem P')) ! e)
    \<and> ce_last_seen (cr_objects (sv_clients (mem P')) ! e) \<le> sv_time (mem P')"
proof -
  have thr: "fl (client_inactivity_threshold_seconds cfg) = client_inactivity_threshold_seconds cfg"
    using assms(1) by (simp add: settings_valid_def)
  have "server_ok x cfg (mem P)" using reachable_ok [OF assms(2)] by (simp add: loop_ok_def)
  then have "present cid e (ce_last_seen (cr_objects (sv_clients (mem P)) ! e)) (mem P)"
    using cr_ref_valid(1) assms(4) by (simp add: present_def server_ok_def)
  with run_keeps_present [OF assms(3,2) this thr assms(5-7)] show ?thesis
    using nth_mem by (fastforce simp: present_def seen_ok_def sv_time_def)
qed

theorem seen_client_kept_witness:
  "\<exists>P P'. demo_run demo_start [Arrive [] (demo_request (GetClient ''c1'') demo_client None []), Step 0] = Some P
     \<and> demo_run P [Elapse 5, Wake] = Some P'
     \<and> map_of (cr_entries (sv_clients (mem P'))) ''c1'' = Some 0 \<and> sv_time (mem P') = 105"
proof -
  let ?ms = "[Arrive [] (demo_request (GetClient ''c1'') demo_client None []), Step 0]"
  have "case demo_run demo_start ?ms of None \<Rightarrow> False | Some P \<Rightarrow>
      map_of (cr_entries (sv_clients (mem P))) ''c1'' = Some 0
      \<and> ce_last_seen (cr_objects (sv_clients (mem P)) ! 0) = 100
      \<and> (case demo_run P [Elapse 5, Wake] of None \<Rightarrow> False | Some P' \<Rightarrow> sv_time (mem P') = 105)" by code_simp
  then obtain P P' where P: "demo_run demo_start ?ms = Some P" "demo_run P [Elapse 5, Wake] = Some P'"
    "map_of (cr_entries (sv_clients (mem P))) ''c1'' = Some 0"
    "ce_last_seen (cr_objects (sv_clients (mem P)) ! 0) = 100" "sv_time (mem P') = 105"
    by (auto split: option.splits)
  have "client_inactivity_threshold_seconds demo_cfg = 600" by (simp add: demo_cfg_def default_settings_def)
  with seen_client_kept [OF demo_cfg_valid demo_reachable [OF P(1)] P(2,3)] P show ?thesis
    by (simp add: demo_request_def leaves_def)
qed

end
