(* ===== verification/Mail_Events.thy ===== *)
theory Mail_Events
  imports Broker Presence
begin

text \<open>
  Every interleaving of the handlers, the reaper and time is a sequence of atomic events of the mailboxes.

  \<^item> \<open>mail_event\<close>, \<open>mail_step\<close>, \<open>mail_run\<close>: the events and what each does to the mailboxes.
  \<^item> \<open>may\<close>: which request may cause an event; \<open>answered_by\<close>: the answers that go with it.
  \<^item> \<open>runs_are_mail_events\<close>: the refinement, for all runs of the process.
\<close>

section \<open>The events\<close>

text \<open>
  A request is accepted into a mailbox or taken out of it, and so is a response; a client's
  mailbox is dropped. A handler that holds on to the queue of a client that has been dropped meanwhile
  can still put a response into it or take one out of it, which the mailboxes do not show.
\<close>

datatype mail_event =
    Post string pype_request
  | Take string pype_request
  | Answer string pype_response
  | Collect string pype_response
  | Strand pype_response
  | Salvage pype_response
  | Forget "string set"

inductive mail_step :: "mail_event \<Rightarrow> mailboxes \<Rightarrow> mailboxes \<Rightarrow> bool" where
  post: "mail_step (Post name r) mb (mb\<lparr>requests := (requests mb)(name := requests mb name @ [r])\<rparr>)"
| take: "requests mb name = r # rest \<Longrightarrow> mail_step (Take name r) mb (mb\<lparr>requests := (requests mb)(name := rest)\<rparr>)"
| answer: "mail_step (Answer cid r) mb (mb\<lparr>responses := (responses mb)(cid := responses mb cid @ [r])\<rparr>)"
| collect: "responses mb cid = r # rest \<Longrightarrow> mail_step (Collect cid r) mb (mb\<lparr>responses := (responses mb)(cid := rest)\<rparr>)"
| strand: "mail_step (Strand r) mb mb"
| salvage: "mail_step (Salvage r) mb mb"
| forget: "mail_step (Forget cids) mb (mb\<lparr>responses := (\<lambda>cid. if cid \<in> cids then [] else responses mb cid)\<rparr>)"

inductive mail_run :: "mail_event list \<Rightarrow> mailboxes \<Rightarrow> mailboxes \<Rightarrow> bool" where
  mail_none: "mail_run [] mb mb"
| mail_more: "mail_step ev a b \<Longrightarrow> mail_run evs b c \<Longrightarrow> mail_run (ev # evs) a c"

lemma mail_run_append: "mail_run evs a b \<Longrightarrow> mail_run evs' b c \<Longrightarrow> mail_run (evs @ evs') a c"
  by (induction rule: mail_run.induct) (simp_all add: mail_more)

lemma mail_one: "mail_step ev a b \<Longrightarrow> mail_run [ev] a b"
  by (rule mail_more [OF _ mail_none])

fun caused_by :: "principal \<Rightarrow> mail_event \<Rightarrow> bool" where
  "caused_by who (Post name r) = (who = Client (rq_client_id r))"
| "caused_by who (Take name r) = (who = Service name)"
| "caused_by who (Answer cid r) = (\<exists>name. who = Service name)"
| "caused_by who (Collect cid r) = (who = Client cid)"
| "caused_by who (Strand r) = (\<exists>name. who = Service name)"
| "caused_by who (Salvage r) = (\<exists>cid. who = Client cid)"
| "caused_by who (Forget cids) = False"

definition may :: "ext \<Rightarrow> settings \<Rightarrow> http_request \<Rightarrow> mail_event \<Rightarrow> bool" where
  "may x cfg r ev \<longleftrightarrow> caused_by (principal_of x cfg r) ev \<or> (\<exists>cids. ev = Forget cids \<and> (\<forall>cid \<in> cids. leaves x cfg r cid))"

fun answered_by :: "mail_event \<Rightarrow> reply \<Rightarrow> bool" where
  "answered_by (Post name r) p = (\<not> rejected p)"
| "answered_by (Take name r) p = (p = Reply (request_message r))"
| "answered_by (Answer cid r) p = (\<not> rejected p)"
| "answered_by (Collect cid r) p = (p = Reply (response_message r))"
| "answered_by (Strand r) p = (\<not> rejected p)"
| "answered_by (Salvage r) p = (p = Reply (response_message r))"
| "answered_by (Forget cids) p = True"

lemma answered_by_eta:
  "answered_by (Post name q) = (\<lambda>p. \<not> rejected p)" "answered_by (Take name q) = (\<lambda>p. p = Reply (request_message q))"
  "answered_by (Answer cid r) = (\<lambda>p. \<not> rejected p)" "answered_by (Collect cid r) = (\<lambda>p. p = Reply (response_message r))"
  "answered_by (Strand r) = (\<lambda>p. \<not> rejected p)" "answered_by (Salvage r) = (\<lambda>p. p = Reply (response_message r))"
  by (simp_all add: fun_eq_iff)

section \<open>Mailboxes of a state, read through the bindings of a later one\<close>

definition box_of :: "(nat \<Rightarrow> 'a list) \<Rightarrow> nat option \<Rightarrow> 'a list" where
  "box_of items q = (case q of None \<Rightarrow> [] | Some q \<Rightarrow> items q)"

lemma view_boxes:
  assumes "server_ok x cfg sv"
  shows "requests (view sv) name = box_of (svc_items sv) (map_of (sr_queues (sv_services sv)) name)"
    "responses (view sv) cid = box_of (cl_items sv) (map_of (cr_entries (sv_clients sv)) cid)"
  using sr_ref_valid [OF server_okD(2) [OF assms]] cr_ref_valid(1) [OF server_okD(1) [OF assms]]
  by (auto simp: view_def service_box_def client_box_def box_of_def svc_items_def cl_items_def split: option.split)

lemma requests_later:
  assumes "server_ok x cfg a" "grows a b"
  shows "requests (view a) name = box_of (svc_items a) (map_of (sr_queues (sv_services b)) name)"
proof (cases "map_of (sr_queues (sv_services a)) name")
  case None
  then have "\<forall>q. map_of (sr_queues (sv_services b)) name = Some q \<longrightarrow> svc_items a q = []"
    using assms(2) by (force simp: grows_def fresh_names_def svc_items_def)
  with None show ?thesis by (simp add: view_boxes [OF assms(1)] box_of_def split: option.split)
next
  case (Some q)
  then have "map_of (sr_queues (sv_services b)) name = Some q" using assms(2) by (simp add: grows_def)
  with Some show ?thesis by (simp add: view_boxes [OF assms(1)])
qed

text \<open>The clients whose messages a step drops.\<close>

definition forgotten :: "server \<Rightarrow> server \<Rightarrow> string set" where
  "forgotten a b = {cid. responses (view a) cid \<noteq> [] \<and>
     map_of (cr_entries (sv_clients b)) cid \<noteq> map_of (cr_entries (sv_clients a)) cid}"

lemma responses_later:
  assumes "server_ok x cfg a" "grows a b"
  shows "(if cid \<in> forgotten a b then [] else responses (view a) cid) =
    box_of (cl_items a) (map_of (cr_entries (sv_clients b)) cid)"
proof (cases "map_of (cr_entries (sv_clients b)) cid = map_of (cr_entries (sv_clients a)) cid")
  case True
  then show ?thesis by (simp add: forgotten_def view_boxes [OF assms(1)])
next
  case False
  then have "\<forall>e. map_of (cr_entries (sv_clients b)) cid = Some e \<longrightarrow> cl_items a e = []"
    using assms(2) by (force simp: grows_def fresh_names_def cl_items_def)
  with False show ?thesis by (auto simp: forgotten_def box_of_def split: option.split)
qed

text \<open>At most one queue has an event: at most one mailbox changes.\<close>

lemma one_box:
  assumes "single ev" "\<And>q. follows (ev q) (A q) (B q)"
    and "\<And>j k q. bind j = Some q \<Longrightarrow> bind k = Some q \<Longrightarrow> j = k"
  obtains (none) "\<forall>q. ev q = Same" "(\<lambda>n. box_of B (bind n)) = (\<lambda>n. box_of A (bind n))"
  | (hidden) q where "ev q \<noteq> Same" "\<forall>n. bind n \<noteq> Some q" "(\<lambda>n. box_of B (bind n)) = (\<lambda>n. box_of A (bind n))"
  | (shown) q name where "ev q \<noteq> Same" "bind name = Some q"
      "(\<lambda>n. box_of B (bind n)) = (\<lambda>n. box_of A (bind n))(name := B q)" "A q = box_of A (bind name)"
proof -
  obtain q where q: "\<And>q'. q' \<noteq> q \<Longrightarrow> ev q' = Same" using assms(1) by (auto simp: single_def)
  have other: "B q' = A q'" if "q' \<noteq> q" for q' using assms(2) [of q'] q [OF that] by simp
  show ?thesis
  proof (cases "ev q = Same")
    case True
    with q have "\<forall>q. ev q = Same" by metis
    moreover from this have "B q = A q" for q using assms(2) [of q] by simp
    then have "B = A" by (rule ext)
    ultimately show ?thesis using none by simp
  next
    case event: False
    show ?thesis
    proof (cases "\<exists>name. bind name = Some q")
      case True
      then obtain name where name: "bind name = Some q" ..
      have "(\<lambda>n. box_of B (bind n)) = (\<lambda>n. box_of A (bind n))(name := B q)"
      proof
        fix n
        show "box_of B (bind n) = ((\<lambda>n. box_of A (bind n))(name := B q)) n"
        proof (cases "n = name")
          case True
          then show ?thesis by (simp add: box_of_def name)
        next
          case False
          then have "bind n \<noteq> Some q" using assms(3) [OF name, of n] by auto
          with False other show ?thesis by (cases "bind n") (auto simp: box_of_def)
        qed
      qed
      moreover have "A q = box_of A (bind name)" by (simp add: box_of_def name)
      ultimately show ?thesis by (rule shown [OF event name])
    next
      case False
      then have unbound: "\<forall>n. bind n \<noteq> Some q" by simp
      have "(\<lambda>n. box_of B (bind n)) = (\<lambda>n. box_of A (bind n))"
      proof
        fix n
        show "box_of B (bind n) = box_of A (bind n)"
          using unbound [rule_format, of n] other by (cases "bind n") (auto simp: box_of_def)
      qed
      then show ?thesis by (rule hidden [OF event unbound])
    qed
  qed
qed

section \<open>One step\<close>

definition cause :: "principal \<Rightarrow> (server, reply) co \<Rightarrow> mail_event \<Rightarrow> bool" where
  "cause who c ev \<longleftrightarrow> caused_by who ev \<and> always (answered_by ev) c"

lemma requests_events:
  assumes ok: "server_ok x cfg a" "server_ok x cfg b" and l: "ledger a b se ce"
    and p: "\<And>q. svc_permitted who b c q (se q)" and mb: "requests mb = requests (view a)"
  shows "\<exists>evs. length evs \<le> 1 \<and> mail_run evs mb (mb\<lparr>requests := requests (view b)\<rparr>) \<and> list_all (cause who c) evs"
proof -
  let ?bind = "map_of (sr_queues (sv_services b))"
  have a: "requests mb = (\<lambda>n. box_of (svc_items a) (?bind n))"
    using requests_later [OF ok(1) ledger_grows [OF l]] by (simp add: mb fun_eq_iff)
  have b: "requests (view b) = (\<lambda>n. box_of (svc_items b) (?bind n))" by (simp add: view_boxes [OF ok(2)] fun_eq_iff)
  have s: "single se" "\<And>q. follows (se q) (svc_items a q) (svc_items b q)" using l by (auto simp: ledger_def)
  show ?thesis
  proof (rule one_box [OF s, of ?bind])
    show "?bind j = Some q \<Longrightarrow> ?bind k = Some q \<Longrightarrow> j = k" for j k q by (rule sr.inv_inject [OF server_okD(2) [OF ok(2)]])
    assume "\<forall>q. se q = Same" "(\<lambda>n. box_of (svc_items b) (?bind n)) = (\<lambda>n. box_of (svc_items a) (?bind n))"
    then have "mb\<lparr>requests := requests (view b)\<rparr> = mb" unfolding a b by (simp flip: a)
    then show ?thesis by (intro exI [of _ "[]"]) (simp add: mail_none)
  next
    fix q assume "se q \<noteq> Same" "\<forall>n. ?bind n \<noteq> Some q"
    then show ?thesis using p [of q] by (cases "se q") auto
  next
    fix q name assume ev: "se q \<noteq> Same" and name: "?bind name = Some q"
      and eq: "(\<lambda>n. box_of (svc_items b) (?bind n)) = (\<lambda>n. box_of (svc_items a) (?bind n))(name := svc_items b q)"
      and old: "svc_items a q = box_of (svc_items a) (?bind name)"
    have new: "requests (view b) = (requests mb)(name := svc_items b q)" unfolding a b by (rule eq)
    have old: "requests mb name = svc_items a q" unfolding a by (simp add: old)
    show ?thesis
    proof (cases "se q")
      case Same
      with ev show ?thesis by simp
    next
      case (Enq r)
      then have "mail_step (Post name r) mb (mb\<lparr>requests := requests (view b)\<rparr>)"
        using s(2) [of q] mail_step.post [of name r mb] by (simp add: new old)
      moreover have "cause who c (Post name r)" using p [of q] Enq by (simp add: cause_def answered_by_eta)
      ultimately show ?thesis by (intro exI [of _ "[Post name r]"]) (simp add: mail_one)
    next
      case (Deq r)
      then have "mail_step (Take name r) mb (mb\<lparr>requests := requests (view b)\<rparr>)"
        using s(2) [of q] by (simp add: new old mail_step.take)
      moreover have "cause who c (Take name r)"
        using p [of q] Deq sr.inv_inject [OF server_okD(2) [OF ok(2)] _ name] by (auto simp: cause_def answered_by_eta)
      ultimately show ?thesis by (intro exI [of _ "[Take name r]"]) (simp add: mail_one)
    qed
  qed
qed

lemma responses_events:
  assumes ok: "server_ok x cfg a" "server_ok x cfg b" and l: "ledger a b se ce"
    and p: "\<And>e. cl_permitted who b c e (ce e)"
    and mb: "responses mb = (\<lambda>cid. if cid \<in> forgotten a b then [] else responses (view a) cid)"
  shows "\<exists>evs. length evs \<le> 1 \<and> mail_run evs mb (mb\<lparr>responses := responses (view b)\<rparr>) \<and> list_all (cause who c) evs"
proof -
  let ?bind = "map_of (cr_entries (sv_clients b))"
  have a: "responses mb = (\<lambda>n. box_of (cl_items a) (?bind n))"
    unfolding mb by (rule ext) (rule responses_later [OF ok(1) ledger_grows [OF l]])
  have b: "responses (view b) = (\<lambda>n. box_of (cl_items b) (?bind n))" by (simp add: view_boxes [OF ok(2)] fun_eq_iff)
  have s: "single ce" "\<And>q. follows (ce q) (cl_items a q) (cl_items b q)" using l by (auto simp: ledger_def)
  note ref = cr_ref_valid [OF server_okD(1) [OF ok(2)]]
  show ?thesis
  proof (rule one_box [OF s, of ?bind])
    show "?bind j = Some q \<Longrightarrow> ?bind k = Some q \<Longrightarrow> j = k" for j k q using ref(2) by metis
    assume "\<forall>q. ce q = Same" "(\<lambda>n. box_of (cl_items b) (?bind n)) = (\<lambda>n. box_of (cl_items a) (?bind n))"
    then have "mb\<lparr>responses := responses (view b)\<rparr> = mb" unfolding a b by (simp flip: a)
    then show ?thesis by (intro exI [of _ "[]"]) (simp add: mail_none)
  next
    fix q assume ev: "ce q \<noteq> Same" and "\<forall>n. ?bind n \<noteq> Some q"
      and eq: "(\<lambda>n. box_of (cl_items b) (?bind n)) = (\<lambda>n. box_of (cl_items a) (?bind n))"
    have same: "mb\<lparr>responses := responses (view b)\<rparr> = mb" using eq unfolding a b by (simp flip: a)
    show ?thesis
    proof (cases "ce q")
      case Same
      with ev show ?thesis by simp
    next
      case (Enq r)
      then have "cause who c (Strand r)" using p [of q] by (simp add: cause_def answered_by_eta)
      then show ?thesis by (intro exI [of _ "[Strand r]"]) (simp add: same mail_one strand)
    next
      case (Deq r)
      then have "cause who c (Salvage r)" using p [of q] by (simp add: cause_def answered_by_eta)
      then show ?thesis by (intro exI [of _ "[Salvage r]"]) (simp add: same mail_one salvage)
    qed
  next
    fix q cid assume ev: "ce q \<noteq> Same" and cid: "?bind cid = Some q"
      and eq: "(\<lambda>n. box_of (cl_items b) (?bind n)) = (\<lambda>n. box_of (cl_items a) (?bind n))(cid := cl_items b q)"
      and old: "cl_items a q = box_of (cl_items a) (?bind cid)"
    have new: "responses (view b) = (responses mb)(cid := cl_items b q)" unfolding a b by (rule eq)
    have old: "responses mb cid = cl_items a q" unfolding a by (simp add: old)
    show ?thesis
    proof (cases "ce q")
      case Same
      with ev show ?thesis by simp
    next
      case (Enq r)
      then have "mail_step (Answer cid r) mb (mb\<lparr>responses := responses (view b)\<rparr>)"
        using s(2) [of q] mail_step.answer [of cid r mb] by (simp add: new old)
      moreover have "cause who c (Answer cid r)" using p [of q] Enq by (simp add: cause_def answered_by_eta)
      ultimately show ?thesis by (intro exI [of _ "[Answer cid r]"]) (simp add: mail_one)
    next
      case (Deq r)
      then have "mail_step (Collect cid r) mb (mb\<lparr>responses := responses (view b)\<rparr>)"
        using s(2) [of q] by (simp add: new old collect)
      moreover have "cause who c (Collect cid r)" using p [of q] Deq ref(2) [OF cid] by (simp add: cause_def answered_by_eta)
      ultimately show ?thesis by (intro exI [of _ "[Collect cid r]"]) (simp add: mail_one)
    qed
  qed
qed

lemma effect_mail_events:
  assumes ok: "server_ok x cfg a" "server_ok x cfg b" and e: "effect who a b c"
  shows "\<exists>evs. length evs \<le> 3 \<and> mail_run evs (view a) (view b)
    \<and> list_all (\<lambda>ev. cause who c ev \<or> ev = Forget (forgotten a b) \<and> forgotten a b \<noteq> {}) evs"
proof -
  obtain se ce where l: "ledger a b se ce" and p: "\<And>q. svc_permitted who b c q (se q)" "\<And>e. cl_permitted who b c e (ce e)"
    using e by (auto simp: effect_def)
  let ?mb = "(view a)\<lparr>responses := (\<lambda>cid. if cid \<in> forgotten a b then [] else responses (view a) cid)\<rparr>"
  obtain evs1 where 1: "length evs1 \<le> 1" "mail_run evs1 (view a) ?mb"
    "list_all (\<lambda>ev. ev = Forget (forgotten a b) \<and> forgotten a b \<noteq> {}) evs1"
  proof (cases "forgotten a b = {}")
    case True
    then show ?thesis using mail_none [of "view a"] by (intro that [of "[]"]) simp_all
  next
    case False
    then show ?thesis using mail_one [OF forget [of "forgotten a b" "view a"]] by (intro that [of "[Forget (forgotten a b)]"]) simp_all
  qed
  obtain evs2 where 2: "length evs2 \<le> 1" "mail_run evs2 ?mb (?mb\<lparr>requests := requests (view b)\<rparr>)" "list_all (cause who c) evs2"
    using requests_events [OF ok l p(1), of ?mb] by auto
  obtain evs3 where 3: "length evs3 \<le> 1" "list_all (cause who c) evs3"
    "mail_run evs3 (?mb\<lparr>requests := requests (view b)\<rparr>) (?mb\<lparr>requests := requests (view b)\<rparr>\<lparr>responses := responses (view b)\<rparr>)"
    using responses_events [OF ok l p(2), of "?mb\<lparr>requests := requests (view b)\<rparr>"] by auto
  have "?mb\<lparr>requests := requests (view b)\<rparr>\<lparr>responses := responses (view b)\<rparr> = view b" by simp
  with 3 have "mail_run (evs1 @ evs2 @ evs3) (view a) (view b)"
    using mail_run_append [OF 1(2) mail_run_append [OF 2(2)]] by simp
  with 1 2 3 show ?thesis by (intro exI [of _ "evs1 @ evs2 @ evs3"]) (auto simp: list_all_iff)
qed

section \<open>All runs\<close>

lemma forgotten_present:
  assumes "server_ok x cfg a" "cid \<in> forgotten a b"
  obtains e t where "present cid e t a" "\<not> present cid e t b"
proof -
  obtain e where e: "map_of (cr_entries (sv_clients a)) cid = Some e"
    using assms(2) view_boxes(2) [OF assms(1), of cid] by (force simp: forgotten_def box_of_def split: option.splits)
  have "present cid e (ce_last_seen (cr_objects (sv_clients a) ! e)) a"
    using e cr_ref_valid(1) [OF server_okD(1) [OF assms(1)] e] by (simp add: present_def)
  moreover have "\<not> present cid e (ce_last_seen (cr_objects (sv_clients a) ! e)) b"
    using assms(2) e by (simp add: forgotten_def present_def)
  ultimately show ?thesis by (rule that)
qed

lemma forgotten_leaves:
  assumes "server_ok x cfg a" "seen_ok a" "retains gone a b" "cid \<in> forgotten a b"
  shows "gone cid"
  using forgotten_present [OF assms(1,4)] assms(2,3) unfolding retains_def by metis

text \<open>The answers of request \<open>i\<close> from here on, whatever happens, go with an event.\<close>

definition will_answer :: "ext \<Rightarrow> settings \<Rightarrow> process \<Rightarrow> nat \<Rightarrow> mail_event \<Rightarrow> bool" where
  "will_answer x cfg P i ev \<longleftrightarrow> (\<forall>ms P' p. server_run x cfg P ms = Some P' \<longrightarrow> finished (Some P') i = Some p \<longrightarrow> answered_by ev p)"

definition accounted :: "ext \<Rightarrow> settings \<Rightarrow> http_request list \<Rightarrow> process \<Rightarrow> mail_event \<Rightarrow> bool" where
  "accounted x cfg rs P ev \<longleftrightarrow> (\<exists>i < length rs. may x cfg (rs ! i) ev \<and> will_answer x cfg P i ev)"

lemma step_mail_events:
  assumes "reachable x cfg rs P" "server_step x cfg P m = Some P'"
  shows "\<exists>evs. length evs \<le> 3 \<and> mail_run evs (view (mem P)) (view (mem P'))
    \<and> (\<forall>ev \<in> set evs. accounted x cfg rs P' ev \<or> m = Wake \<and> (\<exists>cids. ev = Forget cids))"
proof -
  note ok = reachable_ok [OF assms(1)] and seen = reachable_seen [OF assms(1)]
  have a: "server_ok x cfg (mem P)" using ok by (simp add: loop_ok_def)
  have b: "server_ok x cfg (mem P')" using server_step_ok(1) [OF ok assms(2)] by (simp add: loop_ok_def)
  note e = server_step_ok(3) [OF ok assms(2)] and r = requests_retain_step(2) [OF conjunct1 [OF seen] assms(2)]
  show ?thesis
  proof (cases "mover m")
    case None
    have "quiet (mem P) (mem P')" using e None environment_ok [OF a] by (cases m) (simp_all add: quiet_refl)
    from effect_mail_events [OF a b effect_quiet [OF this, of Nobody "Return Unprocessable"]] obtain evs where
      evs: "length evs \<le> 3" "mail_run evs (view (mem P)) (view (mem P'))"
        "list_all (\<lambda>ev. cause Nobody (Return Unprocessable) ev \<or> ev = Forget (forgotten (mem P) (mem P')) \<and> forgotten (mem P) (mem P') \<noteq> {}) evs"
      by blast
    have "\<not> cause Nobody c ev" for c ev by (cases ev) (simp_all add: cause_def)
    moreover have "m = Wake" if "forgotten (mem P) (mem P') \<noteq> {}"
      using that e None by (cases m) (auto simp: forgotten_def elapse_def jitter_def stop_reaper_def)
    ultimately have "\<forall>ev \<in> set evs. m = Wake \<and> (\<exists>cids. ev = Forget cids)" using evs(3) by (auto simp: list_all_iff)
    with evs show ?thesis by blast
  next
    case (Some i)
    have len: "length (tasks P) = length rs" using ok by (auto simp: loop_ok_def dest: list_all2_lengthD)
    have i: "i < length rs" "i < length (tasks P')"
      using assms(2) Some len by (cases m; auto simp: server_step_def split: if_splits task.splits option.splits prod.splits)+
    obtain c where c: "effect (principal_of x cfg (rs ! i)) (mem P) (mem P') c" "tasks P' ! i = enter (sv_time (mem P')) c"
      using e Some i(1) by (cases m) auto
    have gone: "retains (leaves x cfg (rs ! i)) (mem P) (mem P')" using r Some by (cases m) auto
    obtain evs where evs: "length evs \<le> 3" "mail_run evs (view (mem P)) (view (mem P'))"
        "list_all (\<lambda>ev. cause (principal_of x cfg (rs ! i)) c ev \<or> ev = Forget (forgotten (mem P) (mem P')) \<and> forgotten (mem P) (mem P') \<noteq> {}) evs"
      using effect_mail_events [OF a b c(1)] by blast
    have "accounted x cfg rs P' ev" if ev: "ev \<in> set evs" for ev
    proof -
      consider (caused) "cause (principal_of x cfg (rs ! i)) c ev" | (lost) "ev = Forget (forgotten (mem P) (mem P'))"
        using evs(3) ev by (auto simp: list_all_iff)
      then have "may x cfg (rs ! i) ev \<and> always (answered_by ev) c"
      proof cases
        case caused
        then show ?thesis by (simp add: cause_def may_def)
      next
        case lost
        have "answered_by ev = (\<lambda>_. True)" by (simp add: lost fun_eq_iff)
        moreover have "\<forall>cid \<in> forgotten (mem P) (mem P'). leaves x cfg (rs ! i) cid"
          using forgotten_leaves [OF a _ gone] seen by blast
        ultimately show ?thesis by (simp add: may_def lost)
      qed
      moreover from this have "will_answer x cfg P' i ev"
        using always_finished [OF _ i(2) c(2)] by (auto simp: will_answer_def finished_Some)
      ultimately show ?thesis using i(1) by (auto simp: accounted_def)
    qed
    with evs(1,2) show ?thesis by blast
  qed
qed

lemma server_run_append:
  "server_run x cfg P (ms @ ms') = (case server_run x cfg P ms of None \<Rightarrow> None | Some P' \<Rightarrow> server_run x cfg P' ms')"
  by (induction ms arbitrary: P) (auto split: option.splits)

lemma accounted_later:
  assumes "accounted x cfg rs P ev" "server_run x cfg P ms = Some P'"
  shows "accounted x cfg (rs @ rs') P' ev"
proof -
  obtain i where i: "i < length rs" "may x cfg (rs ! i) ev" "will_answer x cfg P i ev"
    using assms(1) by (auto simp: accounted_def)
  have "will_answer x cfg P' i ev" unfolding will_answer_def
  proof (intro allI impI)
    fix ms' P'' p assume "server_run x cfg P' ms' = Some P''" "finished (Some P'') i = Some p"
    with i(3) assms(2) show "answered_by ev p" by (auto simp: will_answer_def server_run_append dest!: spec [of _ "ms @ ms'"])
  qed
  with i show ?thesis unfolding accounted_def by (intro exI [of _ i]) (simp add: nth_append)
qed

lemma arrivals_Cons: "arrivals (m # ms) = arrivals [m] @ arrivals ms"
  by (cases m) simp_all

lemma run_mail_events:
  "server_run x cfg P ms = Some P' \<Longrightarrow> reachable x cfg rs P \<Longrightarrow>
   \<exists>evs. length evs \<le> 3 * length ms \<and> mail_run evs (view (mem P)) (view (mem P'))
    \<and> (\<forall>ev \<in> set evs. accounted x cfg (rs @ arrivals ms) P' ev \<or> Wake \<in> set ms \<and> (\<exists>cids. ev = Forget cids))"
proof (induction ms arbitrary: rs P)
  case Nil
  then show ?case by (intro exI [of _ "[]"]) (simp add: mail_none)
next
  case (Cons m ms)
  obtain P1 where P1: "server_step x cfg P m = Some P1" "server_run x cfg P1 ms = Some P'"
    using Cons.prems(1) by (auto split: option.splits)
  obtain evs1 where 1: "length evs1 \<le> 3" "mail_run evs1 (view (mem P)) (view (mem P1))"
    "\<forall>ev \<in> set evs1. accounted x cfg rs P1 ev \<or> m = Wake \<and> (\<exists>cids. ev = Forget cids)"
    using step_mail_events [OF Cons.prems(2) P1(1)] by blast
  obtain evs2 where 2: "length evs2 \<le> 3 * length ms" "mail_run evs2 (view (mem P1)) (view (mem P'))"
    "\<forall>ev \<in> set evs2. accounted x cfg (rs @ arrivals (m # ms)) P' ev \<or> Wake \<in> set ms \<and> (\<exists>cids. ev = Forget cids)"
    using Cons.IH [OF P1(2) reach_step [OF Cons.prems(2) P1(1)]] by (auto simp: arrivals_Cons [of m ms])
  have "\<forall>ev \<in> set evs1. accounted x cfg (rs @ arrivals (m # ms)) P' ev \<or> Wake \<in> set (m # ms) \<and> (\<exists>cids. ev = Forget cids)"
    using 1(3) accounted_later [OF _ P1(2)] by auto
  with 1 2 mail_run_append [OF 1(2) 2(2)] show ?case by (intro exI [of _ "evs1 @ evs2"]) auto
qed

text \<open>
  C4: every interleaving is a sequence of atomic events of the mailboxes. Whatever requests arrive, in
  whatever order their handlers run, wait and time out, and whenever the reaper runs, the mailboxes change by
  the events below and nothing else, at most three per move: a request accepted into a service's mailbox on behalf of the
  client it names, a request taken from the head of the mailbox of the service in the taker's own token, a response accepted
  for a client from a service, a response taken from the head of the client's own mailbox, a client's mailbox
  dropped by its own logoff or by the reaper. Each event but those of the reaper belongs to one of the requests, and every answer
  this request gets in any continuation is the one that goes with it: exactly the message taken, never 503 after one was accepted.
\<close>

theorem runs_are_mail_events:
  assumes "reachable x cfg rs P" "server_run x cfg P ms = Some P'"
  shows "\<exists>evs. length evs \<le> 3 * length ms \<and> mail_run evs (view (mem P)) (view (mem P'))
    \<and> (\<forall>ev \<in> set evs. (\<exists>i < length (rs @ arrivals ms). may x cfg ((rs @ arrivals ms) ! i) ev
          \<and> (\<forall>ms' P'' p. server_run x cfg P' ms' = Some P'' \<longrightarrow> finished (Some P'') i = Some p \<longrightarrow> answered_by ev p))
        \<or> Wake \<in> set ms \<and> (\<exists>cids. ev = Forget cids))"
  using run_mail_events [OF assms(2,1)] unfolding accounted_def will_answer_def .

theorem runs_are_mail_events_witness:
  "\<exists>P evs. demo_run demo_start (demo_post @ [Serve 0]) = Some P \<and> mail_run evs (view (mem demo_start)) (view (mem P))
     \<and> evs \<noteq> [] \<and> requests (view (mem P)) ''echo'' \<noteq> []"
proof -
  have "case demo_run demo_start (demo_post @ [Serve 0]) of None \<Rightarrow> False
    | Some P \<Rightarrow> requests (view (mem P)) ''echo'' \<noteq> []" by code_simp
  then obtain P where P: "demo_run demo_start (demo_post @ [Serve 0]) = Some P" "requests (view (mem P)) ''echo'' \<noteq> []"
    by (auto split: option.splits)
  from runs_are_mail_events [OF demo_start_reachable P(1)] obtain evs where
    evs: "mail_run evs (view (mem demo_start)) (view (mem P))" by blast
  have "requests (view (mem demo_start)) ''echo'' = []"
    by (simp add: demo_start_def start_def start_reaper_def create_app_def new_service_registry_def view_def service_box_def)
  then have "evs \<noteq> []" using evs P(2) by (auto elim: mail_run.cases)
  with P evs show ?thesis by blast
qed

end
