(* ===== verification/Delivery.thy ===== *)
theory Delivery
  imports Broker
begin

text \<open>
  Requests that need not wait.

  \<^item> \<open>prompt\<close>: a coroutine that comes to its end without any time passing; it ends as \<open>serve\<close> does.
  \<^item> \<open>ready\<close>: the mailboxes have what a request needs: a message to take, or room for the one it brings.
  \<^item> \<open>ready_requests_served\<close>: in every reachable state such a request is served at once,
    between whatever other requests, and answered what the broker answers.
\<close>

section \<open>Coroutines that do not wait\<close>

inductive prompt :: "server \<times> (server, reply) co \<Rightarrow> server \<Rightarrow> reply \<Rightarrow> bool" where
  prompt_Return: "prompt (s, Return p) s p"
| prompt_Pause: "prompt (k s) s' p \<Longrightarrow> prompt (s, Pause k) s' p"
| prompt_Await: "attempt s = Some (t, k') \<Longrightarrow> prompt (k' t) s' p \<Longrightarrow> prompt (s, Await attempt secs k) s' p"

lemma prompt_simps [simp]:
  "prompt (reply_with r sv) s' p \<longleftrightarrow> s' = sv \<and> p = Reply r"
  "prompt (raise e sv) s' p \<longleftrightarrow> s' = sv \<and> p = Raised e"
  "prompt (sv, Return q) s' p \<longleftrightarrow> s' = sv \<and> p = q"
  "prompt (sv, Pause k) s' p \<longleftrightarrow> prompt (k sv) s' p"
  by (auto simp: reply_with_def raise_def elim: prompt.cases intro: prompt.intros)

lemma prompt_get:
  assumes "q_items (deref ref sv) = item # rest"
    and "prompt (k (Some item) (assign ref ((deref ref sv)\<lparr>q_items := rest\<rparr>) sv)) s' p"
  shows "prompt (queue_get ref ms k sv) s' p"
  using assms by (auto simp: queue_get_def get_nowait_def intro!: prompt_Await)

lemma prompt_put:
  assumes "\<not> full (deref ref sv)"
    and "prompt (k True (assign ref ((deref ref sv)\<lparr>q_items := q_items (deref ref sv) @ [item]\<rparr>) sv)) s' p"
  shows "prompt (queue_put ref item ms k sv) s' p"
  using assms by (auto simp: queue_put_def put_nowait_def intro!: prompt_Await)

lemma prompt_serve: "prompt (h sv) sv' p \<Longrightarrow> serve h sv = (sv', p)"
proof -
  have "prompt sc sv' p \<Longrightarrow> solo clock_of idle_until (snd sc) (fst sc) = (sv', p)" for sc
    by (induction sc sv' p rule: prompt.induct) (simp_all add: solo_seg_def case_prod_unfold)
  then show "prompt (h sv) sv' p \<Longrightarrow> serve h sv = (sv', p)"
    by (simp add: serve_def solo_seg_def case_prod_unfold)
qed

text \<open>The moves of one task, without any time passing.\<close>

definition calm :: "nat \<Rightarrow> server_move \<Rightarrow> bool" where
  "calm i m \<longleftrightarrow> m = Step i \<or> m = Serve i"

lemma calm_moves [simp]: "calm i (Step i)" "calm i (Serve i)"
  by (simp_all add: calm_def)

lemma prompt_scheduled:
  assumes "prompt sc sv' p"
  shows "mem P = fst sc \<Longrightarrow> i < length (tasks P) \<Longrightarrow> tasks P ! i = enter t (snd sc) \<Longrightarrow>
    \<exists>ms. list_all (calm i) ms \<and>
      server_run x cfg P ms = Some (P\<lparr>mem := sv', tasks := (tasks P)[i := Finished p]\<rparr>)"
  using assms
proof (induction sc sv' p arbitrary: P t rule: prompt.induct)
  case (prompt_Return s p)
  then have "P\<lparr>mem := s, tasks := (tasks P)[i := Finished p]\<rparr> = P"
    using list_update_id [of "tasks P" i] by simp
  then show ?case by (intro exI [of _ "[]"]) simp
next
  case (prompt_Pause k s s' p)
  obtain u c where k: "k s = (u, c)" by fastforce
  let ?P = "P\<lparr>mem := u, tasks := (tasks P)[i := enter (sv_time u) c]\<rparr>"
  have "server_step x cfg P (Step i) = Some ?P" using prompt_Pause.prems k by (simp add: server_step_def)
  moreover obtain ms where "list_all (calm i) ms"
    "server_run x cfg ?P ms = Some (?P\<lparr>mem := s', tasks := (tasks ?P)[i := Finished p]\<rparr>)"
    using prompt_Pause.IH [of ?P "sv_time u"] prompt_Pause.prems k by auto
  ultimately show ?case by (intro exI [of _ "Step i # ms"]) simp
next
  case (prompt_Await attempt s u k' s' p secs k)
  obtain v c where k: "k' u = (v, c)" by fastforce
  let ?P = "P\<lparr>mem := v, tasks := (tasks P)[i := enter (sv_time v) c]\<rparr>"
  let ?Q = "P\<lparr>mem := u, tasks := (tasks P)[i := Runnable k']\<rparr>"
  have "server_step x cfg P (Serve i) = Some ?Q" "server_step x cfg ?Q (Step i) = Some ?P"
    using prompt_Await.prems prompt_Await.hyps(1) k by (simp_all add: server_step_def)
  moreover obtain ms where "list_all (calm i) ms"
    "server_run x cfg ?P ms = Some (?P\<lparr>mem := s', tasks := (tasks ?P)[i := Finished p]\<rparr>)"
    using prompt_Await.IH [of ?P "sv_time v"] prompt_Await.prems k by auto
  ultimately show ?case by (intro exI [of _ "Serve i # Step i # ms"]) simp
qed

section \<open>Requests that find what they need\<close>

definition ready :: "ext \<Rightarrow> settings \<Rightarrow> http_request \<Rightarrow> mailboxes \<Rightarrow> bool" where
  "ready x cfg r mb = (case hr_endpoint r of
     PostService name \<Rightarrow> int (length (requests mb name)) < service_queue_max_size cfg
       \<and> (hr_block r \<longrightarrow> (case client_claims_of x cfg (hr_authorization r) of
            Inl _ \<Rightarrow> True | Inr claims \<Rightarrow> responses mb (cc_client_id claims) \<noteq> []))
   | GetService name \<Rightarrow> requests mb name \<noteq> []
   | PostClient cid \<Rightarrow> int (length (responses mb cid)) < client_queue_max_size cfg
   | GetClient cid \<Rightarrow> responses mb cid \<noteq> []
   | _ \<Rightarrow> True)"

definition prompts :: "handler \<Rightarrow> server \<Rightarrow> bool" where
  "prompts h sv \<longleftrightarrow> (\<exists>sv' p. prompt (h sv) sv' p)"

lemma prompts_simps [simp]: "prompts (reply_with r) sv" "prompts (raise e) sv" "prompts (\<lambda>sv. (sv, Return p)) sv"
  by (simp_all add: prompts_def)

lemma prompts_cong: "h sv = h' sv' \<Longrightarrow> prompts h' sv' \<Longrightarrow> prompts h sv"
  by (simp add: prompts_def)

lemma prompts_get:
  "q_items (deref ref sv) = item # rest \<Longrightarrow>
   prompts (k (Some item)) (assign ref ((deref ref sv)\<lparr>q_items := rest\<rparr>) sv) \<Longrightarrow> prompts (queue_get ref ms k) sv"
  unfolding prompts_def using prompt_get by metis

lemma prompts_put:
  "\<not> full (deref ref sv) \<Longrightarrow>
   prompts (k True) (assign ref ((deref ref sv)\<lparr>q_items := q_items (deref ref sv) @ [item]\<rparr>) sv) \<Longrightarrow>
   prompts (queue_put ref item ms k) sv"
  unfolding prompts_def using prompt_put by metis

lemma prompts_pause: "prompts k sv' \<Longrightarrow> h sv = (sv', Pause k) \<Longrightarrow> prompts h sv"
  by (auto simp: prompts_def)

lemma prompts_touch: "prompts (\<lambda>sv. reply_with r (touch cid sv)) sv"
  by (rule prompts_cong [where h' = "reply_with r" and sv' = "touch cid sv"]) simp_all

lemma get_request_prompts:
  assumes "server_ok x cfg sv" "requests (view sv) name \<noteq> []"
  shows "prompts (get_request_for_service cfg name claims timeout) sv"
proof -
  obtain q s1 where 1: "service_queue_for name sv = (q, s1)" by fastforce
  note sil = silent_service_queue_for [OF assms(1) 1]
  obtain r rest where "q_items (deref (service_queue q) s1) = r # rest"
    using assms(2) silentD(1) [OF sil(1)] items_view(1) [OF sil(2)] by (metis neq_Nil_conv)
  then have *: "prompts (queue_get (service_queue q) ms (\<lambda>item. case item of
      None \<Rightarrow> reply_with (empty_response 204) | Some item \<Rightarrow> reply_with (request_message item))) s1" for ms
    by (rule prompts_get) simp
  show ?thesis using prompts_cong [OF _ *, of "get_request_for_service cfg name claims timeout"]
    by (cases "sc_name claims = name"; cases "normalize_timeout timeout (max_timeout_ms cfg)")
      (simp_all add: get_request_for_service_def 1 prompts_cong [of _ _ "raise _" sv])
qed

lemma get_response_prompts:
  assumes "server_ok x cfg sv" "responses (view sv) cid \<noteq> []"
  shows "prompts (get_response_for_client cfg cid claims timeout) sv"
proof -
  obtain e s1 where 1: "client_entry_for cid sv = (e, s1)" by fastforce
  note sil = silent_client_entry_for [OF assms(1) 1]
  note sil2 = silent_trans [OF sil(1) silent_touch, of cid] and e = silentD(2) [OF silent_touch sil(2), of cid]
  obtain r rest where "q_items (deref (client_queue e) (touch cid s1)) = r # rest"
    using assms(2) silentD(1) [OF sil2] items_view(2) [OF e] by (metis neq_Nil_conv)
  then have *: "prompts (queue_get (client_queue e) ms (\<lambda>item sv. let sv = touch cid sv in case item of
      None \<Rightarrow> reply_with (empty_response 204) sv | Some item \<Rightarrow> reply_with (response_message item) sv)) (touch cid s1)" for ms
    by (rule prompts_get) (simp add: prompts_touch)
  show ?thesis using prompts_cong [OF _ *, of "get_response_for_client cfg cid claims timeout"]
    by (cases "cc_client_id claims = cid"; cases "normalize_timeout timeout (max_timeout_ms cfg)")
      (simp_all add: get_response_for_client_def 1 prompts_cong [of _ _ "raise _" sv] prompts_cong [of _ _ "raise _" "touch cid s1"])
qed

lemma post_response_prompts:
  assumes "settings_valid cfg" "server_ok x cfg sv" "int (length (responses (view sv) cid)) < client_queue_max_size cfg"
  shows "prompts (post_response_to_client cfg cid claims rid timeout ct payload) sv"
proof -
  obtain e s1 where 1: "client_entry_for cid sv = (e, s1)" by fastforce
  note ok = client_entry_for_ok(1) [OF assms(2) 1] and sil = silent_client_entry_for [OF assms(2) 1]
  have "\<not> full (deref (client_queue e) s1)"
    using assms(3) silentD(1) [OF sil(1)] full_view(2) [OF assms(1) ok sil(2)] by simp
  then have "prompts (queue_put (client_queue e) item ms (\<lambda>enqueued.
      if \<not> enqueued then reply_with (empty_response 503) else reply_with (empty_response 202))) s1" for item ms
    by (rule prompts_put) simp
  note * = prompts_pause [where h = "post_response_to_client cfg cid claims rid timeout ct payload" and sv = sv, OF this]
  show ?thesis using *
    by (cases "normalize_timeout timeout (max_timeout_ms cfg)")
      (simp_all add: post_response_to_client_def 1 prompts_cong [of _ _ "raise _" s1])
qed

lemma post_request_prompts:
  assumes "settings_valid cfg" "server_ok x cfg sv" "authentic x cfg (cc_client_id claims)" "rid \<noteq> []"
    and "int (length (requests (view sv) name)) < service_queue_max_size cfg"
    and "block \<Longrightarrow> responses (view sv) (cc_client_id claims) \<noteq> []"
  shows "prompts (post_request_to_service cfg name claims rid timeout block ct payload) sv"
proof (cases "normalize_timeout timeout (max_timeout_ms cfg)")
  case (Inl e)
  obtain entry s1 where 1: "client_entry_for (cc_client_id claims) sv = (entry, s1)" by fastforce
  show ?thesis
    by (rule prompts_cong [where h' = "raise e" and sv' = "touch (cc_client_id claims) s1"])
      (simp_all add: post_request_to_service_def 1 Inl)
next
  case (Inr budget)
  let ?cid = "cc_client_id claims"
  let ?item = "\<lparr>rq_client_id = ?cid, rq_request_id = rid,
     rq_content_type = content_type_or ct (default_content_type cfg), rq_payload = payload\<rparr>"
  obtain entry s1 where 1: "client_entry_for ?cid sv = (entry, s1)" by fastforce
  note s1 = client_entry_for_ok(1) [OF assms(2) 1] silent_client_entry_for [OF assms(2) 1]
  let ?s2 = "touch ?cid s1"
  note s2 = touch_ok(1) [OF s1(1), of ?cid] silent_trans [OF s1(2) silent_touch, of ?cid]
  obtain t s3 where 3: "read_clock ?s2 = (t, s3)" by fastforce
  note s3 = read_clock_ok(1) [OF s2(1) 3] silent_trans [OF s2(2) silent_read_clock [OF 3]]
  obtain queue s4 where 4: "service_queue_for name s3 = (queue, s4)" by fastforce
  note s4 = service_queue_for_ok(1) [OF s3(1) 4] silent_trans [OF s3(2) silent_service_queue_for(1) [OF s3(1) 4]]
  let ?d = "deadline_at t budget"
  obtain ms s5 where 5: "remaining_ms ?d s4 = (ms, s5)" by fastforce
  note s5 = remaining_ms_ok(1) [OF s4(1) 5] silent_trans [OF s4(2) silent_remaining [OF 5]]
  note q = silentD(3) [OF silent_remaining [OF 5] silent_service_queue_for(2) [OF s3(1) 4]]
  have "silent ?s2 s5"
    by (rule silent_trans [OF silent_read_clock [OF 3] silent_trans [OF silent_service_queue_for(1) [OF s3(1) 4] silent_remaining [OF 5]]])
  note e = silentD(2) [OF silent_trans [OF silent_touch this] s1(3)]
  have room: "\<not> full (deref (service_queue queue) s5)"
    using assms(5) full_view(1) [OF assms(1) s5(1) q] silentD(1) [OF s5(2)] by simp
  let ?s6 = "assign (service_queue queue) ((deref (service_queue queue) s5)\<lparr>q_items :=
    q_items (deref (service_queue queue) s5) @ [?item]\<rparr>) s5"
  have "prompts (post_answer ?cid entry block ?d True) ?s6"
  proof (cases block)
    case False
    then show ?thesis
      by (intro prompts_cong [OF _ prompts_touch [of "empty_response 202" ?cid ?s6]]) (simp add: post_answer_def)
  next
    case True
    obtain left s7 where 7: "remaining_ms ?d (touch ?cid ?s6) = (left, s7)" by fastforce
    note sil = silent_trans [OF silent_touch silent_remaining [OF 7]]
    have "map_of (cr_entries (sv_clients ?s6)) ?cid = Some entry" by (simp add: e)
    from silentD(2) [OF sil this] have e7: "map_of (cr_entries (sv_clients s7)) ?cid = Some entry" .
    have "responses (view s7) ?cid \<noteq> []"
      using assms(6) [OF True] silentD(1) [OF sil] view_assign_service [OF s5(1) q] silentD(1) [OF s5(2)] by simp
    then obtain r rest where "q_items (deref (client_queue entry) s7) = r # rest"
      using items_view(2) [OF e7] by (metis neq_Nil_conv)
    then have "prompts (queue_get (client_queue entry) left (\<lambda>response. case response of
         None \<Rightarrow> reply_with (empty_response 202) | Some item \<Rightarrow> reply_with (response_message item))) s7"
      by (rule prompts_get) simp
    then show ?thesis by (rule prompts_cong [rotated]) (simp add: post_answer_def True 7)
  qed
  with room have "prompts (queue_put (service_queue queue) ?item ms (post_answer ?cid entry block ?d)) s5"
    by (rule prompts_put)
  then have "prompts (\<lambda>s. queue_put (service_queue (fst (service_queue_for name (snd (read_clock s))))) ?item
         (fst (remaining_ms (deadline_at (fst (read_clock s)) budget) (snd (service_queue_for name (snd (read_clock s))))))
         (post_answer ?cid entry block (deadline_at (fst (read_clock s)) budget))
         (snd (remaining_ms (deadline_at (fst (read_clock s)) budget) (snd (service_queue_for name (snd (read_clock s))))))) ?s2"
    by (rule prompts_cong [rotated]) (simp add: 3 4 5)
  then show ?thesis by (rule prompts_pause) (simp add: post_request_eq [OF Inr] 1)
qed

section \<open>They are served at once\<close>

lemma prompts_depends: "(\<And>c. claims = Inr c \<Longrightarrow> prompts (k c) sv) \<Longrightarrow> prompts (depends claims k) sv"
  by (cases claims) (simp_all add: depends_def)

lemma prompts_nonempty: "prompts k sv \<Longrightarrow> prompts (nonempty p k) sv"
  by (simp add: nonempty_def)

lemma prompts_required: "(\<And>rid. rid \<noteq> [] \<Longrightarrow> prompts (k rid) sv) \<Longrightarrow> prompts (required p k) sv"
  by (auto simp: required_def nonempty_def split: option.split)

lemma handle_prompts:
  assumes "settings_valid cfg" "server_ok x cfg sv" "ready x cfg r (view sv)"
  shows "prompts (handle x cfg random r) sv"
proof (cases "hr_endpoint r")
  case (PostService name)
  have "authentic x cfg (cc_client_id claims)" if "client_claims_of x cfg (hr_authorization r) = Inr claims" for claims
    using that by (auto simp: authentic_def)
  then show ?thesis unfolding handle_def PostService endpoint.case
    by (intro prompts_depends prompts_nonempty prompts_required post_request_prompts [OF assms(1,2)])
      (use assms(3) PostService in \<open>auto simp: ready_def\<close>)
next
  case (GetService name)
  show ?thesis unfolding handle_def GetService endpoint.case
    by (intro prompts_depends prompts_nonempty get_request_prompts [OF assms(2)])
      (use assms(3) GetService in \<open>simp add: ready_def\<close>)
next
  case (PostClient cid)
  show ?thesis unfolding handle_def PostClient endpoint.case
    by (intro prompts_depends prompts_nonempty prompts_required post_response_prompts [OF assms(1,2)])
      (use assms(3) PostClient in \<open>simp add: ready_def\<close>)
next
  case (GetClient cid)
  show ?thesis unfolding handle_def GetClient endpoint.case
    by (intro prompts_depends prompts_nonempty get_response_prompts [OF assms(2)])
      (use assms(3) GetClient in \<open>simp add: ready_def\<close>)
qed (auto simp: handle_def prompts_def nonempty_def depends_def service_auth_def client_auth_def client_logoff_def
    services_load_def Let_def case_prod_unfold split: sum.split)

text \<open>
  C13: a message that waits can be had at once. In every reachable state, whatever other requests are
  in progress, a new request that finds what it needs (a service whose mailbox holds a request, a client
  whose mailbox holds a response, a sender whose receiver has room, and every request that waits for nothing)
  is served by steps of its own alone, without any time passing, is answered what the broker answers in that
  state and leaves the broker's state behind; all other requests stay where they are.
\<close>

theorem ready_requests_served:
  assumes "reachable x cfg rs P" "settings_valid cfg" "ready x cfg r (view (mem P))"
  shows "\<exists>ms P' p. list_all (calm (length (tasks P))) ms
    \<and> server_run x cfg P (Arrive random r # ms) = Some P' \<and> finished (Some P') (length (tasks P)) = Some p
    \<and> (broker_of (mem P'), p) = spec_handle x cfg random r (broker_of (mem P))
    \<and> (\<forall>j < length (tasks P). tasks P' ! j = tasks P ! j)"
proof -
  let ?h = "handle x cfg random r" and ?n = "length (tasks P)"
  have ok: "server_ok x cfg (mem P)" using reachable_ok [OF assms(1)] by (simp add: loop_ok_def)
  obtain sv' p where pr: "prompt (?h (mem P)) sv' p"
    using handle_prompts [OF assms(2) ok assms(3), of random] by (auto simp: prompts_def)
  let ?P = "P\<lparr>tasks := tasks P @ [Runnable ?h]\<rparr>"
  have "prompt (mem P, Pause ?h) sv' p" using pr by simp
  from prompt_scheduled [OF this, of ?P ?n] obtain ms where ms: "list_all (calm ?n) ms"
    "server_run x cfg ?P ms = Some (P\<lparr>mem := sv', tasks := tasks P @ [Finished p]\<rparr>)" by auto
  have "server_run x cfg P (Arrive random r # ms) = Some (P\<lparr>mem := sv', tasks := tasks P @ [Finished p]\<rparr>)"
    using ms(2) by (simp add: server_step_def)
  moreover have "(broker_of sv', p) = spec_handle x cfg random r (broker_of (mem P))"
    using handle_brokered [OF assms(2) ok, of random r] prompt_serve [where h = ?h and sv = "mem P", OF pr] by (simp add: brokered_def)
  ultimately show ?thesis using ms(1)
    by (intro exI [of _ ms] exI [of _ "P\<lparr>mem := sv', tasks := tasks P @ [Finished p]\<rparr>"] exI [of _ p])
      (simp add: finished_Some nth_append)
qed

theorem ready_requests_served_witness:
  "\<exists>P ms P'. demo_run demo_start (demo_post @ [Serve 0]) = Some P \<and> list_all (calm 1) ms
     \<and> demo_run P (Arrive [] (demo_request (GetService ''echo'') demo_service None []) # ms) = Some P'
     \<and> finished (Some P') 1 \<noteq> None"
proof -
  let ?g = "demo_request (GetService ''echo'') demo_service None []"
  have "case demo_run demo_start (demo_post @ [Serve 0]) of None \<Rightarrow> False
    | Some P \<Rightarrow> ready demo_ext demo_cfg ?g (view (mem P)) \<and> length (tasks P) = 1" by code_simp
  then obtain P where P: "demo_run demo_start (demo_post @ [Serve 0]) = Some P"
    "ready demo_ext demo_cfg ?g (view (mem P))" "length (tasks P) = 1" by (auto split: option.splits)
  from ready_requests_served [OF demo_reachable [OF P(1)] demo_cfg_valid P(2), of "[]"] P(3) obtain ms P' p where
    "list_all (calm 1) ms" "demo_run P (Arrive [] ?g # ms) = Some P'" "finished (Some P') 1 = Some p" by auto
  then have "list_all (calm 1) ms \<and> demo_run P (Arrive [] ?g # ms) = Some P' \<and> finished (Some P') 1 \<noteq> None" by simp
  with P(1) show ?thesis by blast
qed

end
