(* ===== verification/Timing.thy ===== *)
theory Timing
  imports Mailbox
begin

text \<open>
  How long a request takes when nothing disturbs it.

  \<^item> \<open>horizon\<close>: the time a state of the process can reach by reading its clock alone.
  \<^item> \<open>timeouts_honoured\<close>: every endpoint answers by the end of its timeout and does not give up before it,
    in particular the two phases of a blocking post together.
\<close>

section \<open>Readings of the clock\<close>

definition horizon :: "server \<Rightarrow> rat" where
  "horizon sv = now (sv_clock sv) + sum_list (ticks (sv_clock sv))"

text \<open>A step that does nothing to the clock but read it.\<close>

definition reads :: "server \<Rightarrow> server \<Rightarrow> bool" where
  "reads sv sv' \<longleftrightarrow> (clock_ok (sv_clock sv) \<longrightarrow>
     clock_ok (sv_clock sv') \<and> clock_of sv \<le> clock_of sv' \<and> horizon sv' = horizon sv)"

lemma reads_trans: "reads a b \<Longrightarrow> reads b c \<Longrightarrow> reads a c"
  by (auto simp: reads_def)

lemma reads_same [simp]: "sv_clock sv' = sv_clock sv \<Longrightarrow> reads sv sv'"
  by (simp add: reads_def clock_of_def horizon_def)

lemma clock_le_horizon: "clock_ok (sv_clock sv) \<Longrightarrow> clock_of sv \<le> horizon sv"
  by (simp add: clock_ok_def clock_of_def horizon_def list_all_iff sum_list_nonneg)

lemma reads_monotonic:
  assumes "monotonic (sv_clock sv) = (t, clk)" "sv_clock sv' = clk"
  shows "reads sv sv'" "clock_of sv' = t"
  using assms(1) unfolding reads_def clock_of_def horizon_def assms(2)
  by (auto simp: monotonic_def clock_ok_def split: list.splits)

lemma reads_read_clock:
  assumes "read_clock sv = (t, sv')"
  shows "reads sv sv'" "clock_of sv' = t"
proof -
  obtain u clk where m: "monotonic (sv_clock sv) = (u, clk)" by fastforce
  with assms have "sv' = sv\<lparr>sv_clock := clk\<rparr>" "u = t" by (auto simp: read_clock_def)
  with reads_monotonic [OF m, of sv'] show "reads sv sv'" "clock_of sv' = t" by simp_all
qed

lemma reads_remaining_ms:
  assumes "remaining_ms d sv = (ms, sv')"
  shows "reads sv sv'" "ms = max 0 (ms_until d (clock_of sv'))"
proof -
  obtain t s where r: "read_clock sv = (t, s)" by fastforce
  with assms have "sv' = s" "ms = max 0 (ms_until d t)" by (simp_all add: remaining_ms_def)
  with reads_read_clock [OF r] show "reads sv sv'" "ms = max 0 (ms_until d (clock_of sv'))" by simp_all
qed

lemma reads_touch: "reads sv (touch cid sv)"
proof (cases "map_of (cr_entries (sv_clients sv)) cid")
  case None
  then show ?thesis by (simp add: touch_def bump_last_seen_def)
next
  case (Some e)
  obtain t clk where m: "monotonic (sv_clock sv) = (t, clk)" by fastforce
  then have "sv_clock (touch cid sv) = clk" using Some by (simp add: touch_def bump_last_seen_def Let_def)
  with m show ?thesis by (rule reads_monotonic)
qed

lemma reads_client_entry_for: "reads sv (snd (client_entry_for cid sv))"
proof (cases "map_of (cr_entries (sv_clients sv)) cid")
  case (Some e)
  then show ?thesis by (simp add: client_entry_for_def client_get_or_create_def)
next
  case None
  obtain t clk where m: "monotonic (sv_clock sv) = (t, clk)" by fastforce
  then have "sv_clock (snd (client_entry_for cid sv)) = clk"
    using None by (simp add: client_entry_for_def client_get_or_create_def Let_def)
  with m show ?thesis by (rule reads_monotonic)
qed

lemma clock_unread [simp]:
  "sv_clock (snd (service_queue_for name sv)) = sv_clock sv"
  "sv_clock (drop_client cid sv) = sv_clock sv"
  "sv_clock (assign (service_queue q) queue sv) = sv_clock sv"
  "sv_clock (assign (client_queue e) queue' sv) = sv_clock sv"
  by (simp_all add: service_queue_for_def drop_client_def service_queue_def client_queue_def case_prod_unfold)

section \<open>Waits\<close>

text \<open>
  What is known of a request that has used up to \<open>ms\<close> milliseconds of waiting since a state \<open>sv\<close>, up to
  the rounding of the floats.
\<close>

definition eps :: rat where "eps = 8 / 2 ^ 20"

definition on_time :: "server \<Rightarrow> int \<Rightarrow> server \<Rightarrow> bool" where
  "on_time sv ms sv' \<longleftrightarrow> clock_ok (sv_clock sv') \<and> clock_of sv \<le> clock_of sv'
     \<and> horizon sv' \<le> horizon sv + of_int ms / 1000 + eps
     \<and> horizon sv' - clock_of sv' \<le> horizon sv - clock_of sv"

definition gave_up :: "server \<Rightarrow> int \<Rightarrow> server \<Rightarrow> bool" where
  "gave_up sv ms sv' \<longleftrightarrow> clock_of sv + of_int ms / 1000 - 3 / 1000 \<le> clock_of sv'"

lemma on_time_ok: "on_time sv ms a \<Longrightarrow> clock_ok (sv_clock a)"
  by (simp add: on_time_def)

lemma on_time_reads:
  assumes "reads sv sv'" "clock_ok (sv_clock sv)" "0 \<le> ms"
  shows "on_time sv ms sv'"
  using assms by (simp add: on_time_def reads_def eps_def)

lemma on_time_then_reads: "on_time sv ms a \<Longrightarrow> reads a b \<Longrightarrow> on_time sv ms b"
  by (auto simp: on_time_def reads_def)

lemma gave_up_then_reads: "gave_up sv ms a \<Longrightarrow> reads a b \<Longrightarrow> clock_ok (sv_clock a) \<Longrightarrow> gave_up sv ms b"
  by (auto simp: gave_up_def reads_def)

lemma reads_then_on_time: "reads sv a \<Longrightarrow> clock_ok (sv_clock sv) \<Longrightarrow> on_time a ms b \<Longrightarrow> on_time sv ms b"
  by (auto simp: on_time_def reads_def)

lemma reads_then_gave_up: "reads sv a \<Longrightarrow> clock_ok (sv_clock sv) \<Longrightarrow> gave_up a ms b \<Longrightarrow> gave_up sv ms b"
  by (auto simp: gave_up_def reads_def)

lemma wait_clock:
  assumes "clock_ok (sv_clock sv)" "clock_of sv \<le> 2 ^ 32" "0 \<le> ms" "ms \<le> 2 ^ 32"
  defines "w \<equiv> wait_until clock_of idle_until ms sv"
  shows "clock_ok (sv_clock w)" "clock_of sv \<le> clock_of w"
    "clock_of w \<le> clock_of sv + of_int ms / 1000 + 2 / 2 ^ 20"
    "clock_of sv + of_int ms / 1000 - 2 / 2 ^ 20 \<le> clock_of w"
    "horizon w - clock_of w = horizon sv - clock_of sv"
proof -
  have pos: "0 \<le> clock_of sv" using assms(1) by (simp add: clock_ok_def clock_of_def)
  have ms: "0 \<le> rat_of_int ms" using assms(3) by simp
  note D = deadline_at_bounds [OF pos assms(2-4)]
  note a = advance_ok [where c = "sv_clock sv" and t = "deadline_at (clock_of sv) ms"]
  have w: "w = (if ms = 0 then sv else sv\<lparr>sv_clock := advance (deadline_at (clock_of sv) ms) (sv_clock sv)\<rparr>)"
    by (simp add: w_def idle_until_def deadline_at_def)
  show "clock_ok (sv_clock w)" "clock_of sv \<le> clock_of w" using a assms(1) by (simp_all add: w clock_of_def)
  show "clock_of w \<le> clock_of sv + of_int ms / 1000 + 2 / 2 ^ 20"
    "clock_of sv + of_int ms / 1000 - 2 / 2 ^ 20 \<le> clock_of w"
    using D(1,2) ms by (auto simp: w clock_of_def advance_def)
  show "horizon w - clock_of w = horizon sv - clock_of sv"
    by (simp add: w clock_of_def horizon_def advance_def)
qed

lemma wait_on_time:
  assumes "clock_ok (sv_clock sv)" "clock_of sv \<le> 2 ^ 32" "0 \<le> ms" "ms \<le> 2 ^ 32"
  shows "on_time sv ms (wait_until clock_of idle_until ms sv)" "gave_up sv ms (wait_until clock_of idle_until ms sv)"
  using wait_clock [OF assms] by (simp_all add: on_time_def gave_up_def eps_def split del: if_split)

text \<open>A wait for what is left of a deadline that was set in the state \<open>sv\<close>.\<close>

lemma wait_deadline:
  assumes sv: "clock_ok (sv_clock sv)" and a: "on_time sv ms a" "clock_of a \<le> 2 ^ 32"
    and ms: "0 \<le> ms" "ms \<le> 2 ^ 31" and r: "r = max 0 (ms_until (deadline_at (clock_of sv) ms) (clock_of a))"
  defines "w \<equiv> wait_until clock_of idle_until r a"
  shows "on_time sv ms w" "gave_up sv ms w"
proof -
  let ?d = "deadline_at (clock_of sv) ms"
  have t: "0 \<le> clock_of sv" "clock_of sv \<le> clock_of a" "clock_of sv \<le> 2 ^ 32" and ok: "clock_ok (sv_clock a)"
    using sv a by (auto simp: on_time_def clock_ok_def clock_of_def)
  have ms': "ms \<le> 2 ^ 32" "rat_of_int ms \<le> 2 ^ 31" "0 \<le> rat_of_int ms"
    using ms of_int_le_iff [of ms "2 ^ 31", where 'a = rat] by simp_all
  have r': "0 \<le> r" "r \<le> 2 ^ 32" using ms_until_le [OF t(1,3) ms(1) ms'(1) t(2)] ms r by auto
  note w = wait_clock [OF ok a(2) r', folded w_def]
  note D = deadline_at_bounds [OF t(1,3) ms(1) ms'(1)]
  have "clock_of w \<le> max (clock_of a) (clock_of sv + of_int ms / 1000 + 6 / 2 ^ 20)"
  proof (cases "r = 0")
    case True
    then show ?thesis by (simp add: w_def)
  next
    case False
    then have "clock_of a + of_int r / 1000 \<le> ?d + 2 / 2 ^ 20"
      using r ms_until_upper [OF t(1-3) a(2) ms(1) ms'(1)] by (simp add: max_def split: if_splits)
    with w(3) D(1) show ?thesis by simp
  qed
  with w a(1) show "on_time sv ms w" unfolding on_time_def eps_def max_def by (auto split: if_splits)
  show "gave_up sv ms w"
  proof (cases "clock_of a \<le> clock_of sv + 2 ^ 22")
    case True
    have "of_int ms - 1000 * (clock_of a - clock_of sv) - 2 < rat_of_int r"
      using ms_until_ge [OF t(1,3) ms(1) ms'(1) t(2) True] r by (simp add: max_def split: if_splits) 
    with w(4) show ?thesis by (simp add: gave_up_def)
  next
    case False
    with w(2) ms' show ?thesis by (simp add: gave_up_def)
  qed
qed

section \<open>The handlers\<close>

text \<open>
  The rest \<open>h\<close> of a handler that started in \<open>sv\<close> and has got to \<open>a\<close>: it answers in time, and an answer
  in \<open>Q\<close>, which says that the time is up, not too early.
\<close>

definition timely :: "server \<Rightarrow> int \<Rightarrow> (reply \<Rightarrow> bool) \<Rightarrow> handler \<Rightarrow> server \<Rightarrow> bool" where
  "timely sv ms Q h a \<longleftrightarrow> (\<forall>sv' p. serve h a = (sv', p) \<longrightarrow> on_time sv ms sv' \<and> (Q p \<longrightarrow> gave_up sv ms sv'))"

lemma timely_base: "timely b ms Q h a \<Longrightarrow> reads sv b \<Longrightarrow> clock_ok (sv_clock sv) \<Longrightarrow> timely sv ms Q h a"
  unfolding timely_def using reads_then_on_time reads_then_gave_up by blast

lemma timely_cong: "timely sv ms Q h a \<Longrightarrow> h' a' = h a \<Longrightarrow> timely sv ms Q h' a'"
  using serve_cong [of h' a' h a] by (simp add: timely_def)

lemma timely_pause: "timely sv ms Q k a \<Longrightarrow> timely sv ms Q (\<lambda>sv. (sv, Pause k)) a"
  by (simp add: timely_def)

lemma timely_reply:
  assumes "on_time sv ms a" "Q (Reply p) \<Longrightarrow> gave_up sv ms a"
  shows "timely sv ms Q (reply_with p) a"
  using assms by (simp add: timely_def)

lemma timely_put:
  assumes "timely sv ms Q (k False) (wait_until clock_of idle_until r a)"
    and "\<And>queue. timely sv ms Q (k True) (assign ref queue a)"
  shows "timely sv ms Q (queue_put ref item r k) a"
  using assms by (simp add: timely_def serve_put)

lemma timely_get:
  assumes "timely sv ms Q (k None) (wait_until clock_of idle_until r a)"
    and "\<And>queue item. timely sv ms Q (k (Some item)) (assign ref queue a)"
  shows "timely sv ms Q (queue_get ref r k) a"
  using assms by (simp add: timely_def serve_get split: list.split)

lemma timely_touch_reply:
  assumes "on_time sv ms a" "Q (Reply p) \<Longrightarrow> gave_up sv ms a"
  shows "timely sv ms Q (\<lambda>sv. reply_with p (touch cid sv)) a"
  by (rule timely_cong [OF timely_reply [where a = "touch cid a"]])
    (use assms on_time_then_reads [OF assms(1) reads_touch] gave_up_then_reads [OF _ reads_touch on_time_ok [OF assms(1)]]
     in simp_all)

lemma on_time_assign:
  "on_time sv ms a \<Longrightarrow> on_time sv ms (assign (service_queue q) queue a)"
  "on_time sv ms a \<Longrightarrow> on_time sv ms (assign (client_queue e) queue' a)"
  by (erule on_time_then_reads, simp)+

text \<open>The answers that say that the time is up.\<close>

definition timed_out :: "http_request \<Rightarrow> reply \<Rightarrow> bool" where
  "timed_out r p \<longleftrightarrow> p = Reply (empty_response 204) \<or> p = Reply (empty_response 503)
     \<or> (p = Reply (empty_response 202) \<and> hr_block r \<and> (\<exists>name. hr_endpoint r = PostService name))"

lemma timed_out_message [simp]: "\<not> timed_out r (Reply (request_message q))" "\<not> timed_out r (Reply (response_message s))"
  "\<not> timed_out r (Raised e)" "\<not> timed_out r Unprocessable" "\<not> timed_out r (Reply (json_response c hs v))"
  by (auto simp: timed_out_def request_message_def response_message_def empty_response_def json_response_def)

lemma on_time_range:
  assumes "on_time sv ms a" "horizon sv + of_int ms / 1000 + 1 \<le> 2 ^ 32"
  shows "clock_of a \<le> 2 ^ 32"
  using assms clock_le_horizon [OF on_time_ok [OF assms(1)]] by (simp add: on_time_def eps_def)

text \<open>A handler that reads the clock and then waits once, for its whole timeout.\<close>

lemma wait_whole:
  assumes "reads sv a" "clock_ok (sv_clock sv)" "0 \<le> ms" "ms \<le> 2 ^ 31" "horizon sv + of_int ms / 1000 + 1 \<le> 2 ^ 32"
  shows "on_time sv ms (wait_until clock_of idle_until ms a)" "gave_up sv ms (wait_until clock_of idle_until ms a)"
proof -
  have a: "clock_ok (sv_clock a)" "clock_of a \<le> 2 ^ 32"
    using assms(1,2) on_time_range [OF on_time_reads [OF assms(1-3)] assms(5)] by (simp_all add: reads_def)
  note w = wait_on_time [OF a assms(3)]
  show "on_time sv ms (wait_until clock_of idle_until ms a)" "gave_up sv ms (wait_until clock_of idle_until ms a)"
    using reads_then_on_time [OF assms(1,2) w(1)] reads_then_gave_up [OF assms(1,2) w(2)] assms(4) by simp_all
qed

lemma get_request_timely:
  assumes "normalize_timeout timeout (max_timeout_ms cfg) = Inr ms"
    and "clock_ok (sv_clock sv)" "0 \<le> ms" "ms \<le> 2 ^ 31" "horizon sv + of_int ms / 1000 + 1 \<le> 2 ^ 32"
  shows "timely sv ms (timed_out r) (get_request_for_service cfg name claims timeout) sv"
proof -
  obtain queue s1 where 1: "service_queue_for name sv = (queue, s1)" by fastforce
  have rd: "reads sv s1" using clock_unread(1) [of name sv] 1 by simp
  note w = wait_whole [OF rd assms(2-5)] and imm = on_time_reads [OF rd assms(2,3)]
  have *: "timely sv ms (timed_out r) (queue_get (service_queue queue) ms (\<lambda>item. case item of
      None \<Rightarrow> reply_with (empty_response 204) | Some item \<Rightarrow> reply_with (request_message item))) s1"
    by (rule timely_get) (simp add: timely_reply w, auto intro!: timely_reply on_time_assign imm)
  have raised: "timely sv ms (timed_out r) (raise e) sv" for e
    using on_time_reads [OF _ assms(2,3)] by (simp add: timely_def)
  note * = timely_cong [OF *]
  show ?thesis
  proof (cases "sc_name claims = name")
    case True
    show ?thesis by (rule *) (simp add: get_request_for_service_def assms(1) 1 True)
  next
    case False
    show ?thesis by (rule timely_cong [OF raised]) (use False in \<open>simp add: get_request_for_service_def\<close>)
  qed
qed

lemma get_response_timely:
  assumes "normalize_timeout timeout (max_timeout_ms cfg) = Inr ms"
    and "clock_ok (sv_clock sv)" "0 \<le> ms" "ms \<le> 2 ^ 31" "horizon sv + of_int ms / 1000 + 1 \<le> 2 ^ 32"
  shows "timely sv ms (timed_out r) (get_response_for_client cfg cid claims timeout) sv"
proof -
  obtain entry s1 where 1: "client_entry_for cid sv = (entry, s1)" by fastforce
  let ?s2 = "touch cid s1"
  have rd: "reads sv ?s2" using reads_trans [OF reads_client_entry_for reads_touch] 1 by (metis snd_conv)
  note w = wait_whole [OF rd assms(2-5)] and imm = on_time_reads [OF rd assms(2,3)]
  have *: "timely sv ms (timed_out r) (queue_get (client_queue entry) ms (\<lambda>item sv. let sv = touch cid sv in case item of
      None \<Rightarrow> reply_with (empty_response 204) sv | Some item \<Rightarrow> reply_with (response_message item) sv)) ?s2"
    by (rule timely_get) (simp add: timely_touch_reply w, auto intro!: timely_touch_reply on_time_assign imm)
  have raised: "timely sv ms (timed_out r) (raise e) sv" for e
    using on_time_reads [OF _ assms(2,3)] by (simp add: timely_def)
  note * = timely_cong [OF *]
  show ?thesis
  proof (cases "cc_client_id claims = cid")
    case True
    show ?thesis by (rule *) (simp add: get_response_for_client_def assms(1) 1 True)
  next
    case False
    show ?thesis by (rule timely_cong [OF raised]) (use False in \<open>simp add: get_response_for_client_def\<close>)
  qed
qed

lemma post_response_timely:
  assumes "normalize_timeout timeout (max_timeout_ms cfg) = Inr ms"
    and "clock_ok (sv_clock sv)" "0 \<le> ms" "ms \<le> 2 ^ 31" "horizon sv + of_int ms / 1000 + 1 \<le> 2 ^ 32"
    and "hr_endpoint r = PostClient cid"
  shows "timely sv ms (timed_out r) (post_response_to_client cfg cid claims rid timeout ct payload) sv"
proof -
  obtain entry s1 where 1: "client_entry_for cid sv = (entry, s1)" by fastforce
  have rd: "reads sv s1" using reads_client_entry_for [of sv cid] 1 by simp
  note w = wait_whole [OF rd assms(2-5)] and imm = on_time_reads [OF rd assms(2,3)]
  have "\<not> timed_out r (Reply (empty_response 202))" using assms(6) by (auto simp: timed_out_def empty_response_def)
  then have "timely sv ms (timed_out r) (queue_put (client_queue entry) item ms (\<lambda>enqueued.
      if \<not> enqueued then reply_with (empty_response 503) else reply_with (empty_response 202))) s1" for item
    by (intro timely_put) (simp add: timely_reply w, auto intro!: timely_reply on_time_assign imm)
  then have "timely sv ms (timed_out r) (\<lambda>sv. (sv, Pause (queue_put (client_queue entry) item ms (\<lambda>enqueued.
      if \<not> enqueued then reply_with (empty_response 503) else reply_with (empty_response 202))))) s1" for item
    by (rule timely_pause)
  then show ?thesis by (rule timely_cong) (simp add: post_response_to_client_def assms(1) 1)
qed

text \<open>Posting a request: both phases share one deadline, set after the registration of the client.\<close>

lemma post_answer_timely:
  assumes start: "clock_ok (sv_clock sv)" "0 \<le> ms" "ms \<le> 2 ^ 31" "horizon sv + of_int ms / 1000 + 1 \<le> 2 ^ 32"
    and a: "on_time sv ms a" and r: "hr_block r \<longleftrightarrow> block" and ok: "\<not> ok \<Longrightarrow> gave_up sv ms a"
  shows "timely sv ms (timed_out r) (post_answer cid entry block (deadline_at (clock_of sv) ms) ok) a"
proof (cases "ok \<and> block")
  case True
  obtain left b where 1: "remaining_ms (deadline_at (clock_of sv) ms) (touch cid a) = (left, b)" by fastforce
  have b: "on_time sv ms b"
    by (rule on_time_then_reads [OF on_time_then_reads [OF a reads_touch] reads_remaining_ms(1) [OF 1]])
  note w = wait_deadline [OF start(1) b on_time_range [OF b start(4)] start(2,3) reads_remaining_ms(2) [OF 1]]
  have "timely sv ms (timed_out r) (queue_get (client_queue entry) left (\<lambda>response. case response of
      None \<Rightarrow> reply_with (empty_response 202) | Some item \<Rightarrow> reply_with (response_message item))) b"
    by (rule timely_get) (simp add: timely_reply w, auto intro!: timely_reply on_time_assign b)
  then show ?thesis by (rule timely_cong) (simp add: post_answer_def True 1)
next
  case False
  have "\<not> block \<Longrightarrow> \<not> timed_out r (Reply (empty_response 202))" using r by (auto simp: timed_out_def empty_response_def)
  with False ok have "timely sv ms (timed_out r) (\<lambda>sv. reply_with (empty_response (if ok then 202 else 503)) (touch cid sv)) a"
    by (intro timely_touch_reply a) (auto split: if_splits)
  then show ?thesis by (rule timely_cong) (use False in \<open>auto simp: post_answer_def\<close>)
qed

lemma post_request_timely:
  assumes "normalize_timeout timeout (max_timeout_ms cfg) = Inr ms"
    and start: "clock_ok (sv_clock sv)" "0 \<le> ms" "ms \<le> 2 ^ 31" "horizon sv + of_int ms / 1000 + 1 \<le> 2 ^ 32"
    and r: "hr_block r \<longleftrightarrow> block"
  shows "timely sv ms (timed_out r) (post_request_to_service cfg name claims rid timeout block ct payload) sv"
proof -
  let ?cid = "cc_client_id claims"
  let ?s = "touch ?cid (snd (client_entry_for ?cid sv))"
  obtain t b where 2: "read_clock ?s = (t, b)" by fastforce
  obtain queue c where 3: "service_queue_for name b = (queue, c)" by fastforce
  obtain left d where 4: "remaining_ms (deadline_at t ms) c = (left, d)" by fastforce
  have b: "reads sv b" by (rule reads_trans [OF reads_trans [OF reads_client_entry_for reads_touch] reads_read_clock(1) [OF 2]])
  have c: "reads b c" using clock_unread(1) [of name b] 3 by simp
  have t: "clock_of b = t" by (rule reads_read_clock(2) [OF 2])
  have start': "clock_ok (sv_clock b)" "horizon b + of_int ms / 1000 + 1 \<le> 2 ^ 32" using b start by (simp_all add: reads_def)
  have d: "on_time b ms d" by (rule on_time_reads [OF reads_trans [OF c reads_remaining_ms(1) [OF 4]] start'(1) start(2)])
  note w = wait_deadline [OF start'(1) d on_time_range [OF d start'(2)] start(2,3) reads_remaining_ms(2) [OF 4 [folded t]]]
  note answer = post_answer_timely [OF start'(1) start(2,3) start'(2) _ r, unfolded t]
  have "timely b ms (timed_out r) (queue_put (service_queue queue) item left (post_answer ?cid entry block (deadline_at t ms))) d"
    for item entry
    by (rule timely_put) (intro answer w, intro answer on_time_assign d, simp)
  then have "timely sv ms (timed_out r) (queue_put (service_queue queue) item left (post_answer ?cid entry block (deadline_at t ms))) d"
    for item entry by (rule timely_base [OF _ b start(1)])
  note * = timely_pause [OF timely_cong [OF this]]
  show ?thesis by (rule timely_cong [OF *]) (simp_all add: post_request_eq [OF assms(1)] 2 3 4)
qed

text \<open>
  C10: timeouts are honoured on both sides. A request that runs undisturbed is answered by the
  end of its timeout, up to the time the code itself takes (the readings of the clock) and the
  rounding of floats, also when it first waits for room in the queue and then for a response; and an
  answer that says that the time is up (204, 503, or 202 to a blocking post) comes no more than
  three milliseconds before the end of the timeout.
\<close>

theorem timeouts_honoured:
  assumes "normalize_timeout (hr_timeout r) (max_timeout_ms cfg) = Inr ms"
    and "0 \<le> ms" "ms \<le> 2 ^ 31" "clock_ok (sv_clock sv)"
    and "now (sv_clock sv) + sum_list (ticks (sv_clock sv)) + of_int ms / 1000 + 1 \<le> 2 ^ 32"
    and "serve (handle x cfg random r) sv = (sv', p)"
  shows "now (sv_clock sv) \<le> now (sv_clock sv')
    \<and> now (sv_clock sv') \<le> now (sv_clock sv) + sum_list (ticks (sv_clock sv)) + of_int ms / 1000 + 1 / 2 ^ 17
    \<and> (timed_out r p \<longrightarrow> now (sv_clock sv) + of_int ms / 1000 - 3 / 1000 \<le> now (sv_clock sv'))"
proof -
  note h = assms(4,2,3) assms(5) [folded horizon_def]
  have at_once: "timely sv ms (timed_out r) k sv" if k: "\<And>a. sv_clock (fst (k a)) = sv_clock a"
    "\<And>a. \<exists>p. snd (k a) = Return p \<and> \<not> timed_out r p" for k
  proof -
    obtain q where "snd (k sv) = Return q" "\<not> timed_out r q" using k(2) by blast
    moreover have "on_time sv ms (fst (k sv))" using k(1) h by (intro on_time_reads) simp_all
    ultimately show ?thesis by (simp add: timely_def serve_def solo_seg_def case_prod_unfold)
  qed
  have params [intro!]: "timely sv ms (timed_out r) (\<lambda>sv. (sv, Return Unprocessable)) sv"
    "timely sv ms (timed_out r) (raise e) sv" for e
    by (rule at_once; simp add: raise_def)+
  have "timely sv ms (timed_out r) (handle x cfg random r) sv"
  proof (cases "hr_endpoint r")
    case (PostService name)
    then show ?thesis using post_request_timely [OF assms(1) h, of r "hr_block r"]
      by (auto simp: handle_def depends_def nonempty_def required_def split: sum.split option.split)
  next
    case (GetService name)
    then show ?thesis using get_request_timely [OF assms(1) h]
      by (auto simp: handle_def depends_def nonempty_def split: sum.split)
  next
    case (PostClient cid)
    then show ?thesis using post_response_timely [OF assms(1) h PostClient]
      by (auto simp: handle_def depends_def nonempty_def required_def split: sum.split option.split)
  next
    case (GetClient cid)
    then show ?thesis using get_response_timely [OF assms(1) h]
      by (auto simp: handle_def depends_def nonempty_def split: sum.split)
  next
    case LogoffClient
    then show ?thesis by (auto simp: handle_def depends_def client_logoff_def reply_with_def Let_def
          intro!: at_once split: sum.split)
  qed (auto simp: handle_def nonempty_def service_auth_def client_auth_def services_load_def reply_with_def Let_def
      case_prod_unfold intro!: at_once)
  then have "on_time sv ms sv'" "timed_out r p \<longrightarrow> gave_up sv ms sv'" using assms(6) by (auto simp: timely_def)
  then show ?thesis using clock_le_horizon [OF on_time_ok, of sv ms sv']
    by (auto simp: on_time_def gave_up_def clock_of_def horizon_def eps_def)
qed

theorem timeouts_honoured_witness:
  "\<exists>sv'. serve (handle demo_ext demo_cfg [] (demo_request (GetService ''echo'') demo_service None []))
       (create_app demo_cfg \<lparr>now = 100, ticks = [1, 2]\<rparr>) = (sv', Reply (empty_response 204))
     \<and> 100 + 1 - 3 / 1000 \<le> now (sv_clock sv') \<and> now (sv_clock sv') \<le> 100 + 3 + 1 + 1 / 2 ^ 17"
proof -
  let ?r = "demo_request (GetService ''echo'') demo_service None []"
  let ?sv = "create_app demo_cfg \<lparr>now = 100, ticks = [1, 2]\<rparr>"
  obtain sv' p where s: "serve (handle demo_ext demo_cfg [] ?r) ?sv = (sv', p)" by fastforce
  have "snd (serve (handle demo_ext demo_cfg [] ?r) ?sv) = Reply (empty_response 204)" by code_simp
  with s have p: "p = Reply (empty_response 204)" by simp
  have "timed_out ?r p" by (simp add: p timed_out_def)
  moreover have "normalize_timeout (hr_timeout ?r) (max_timeout_ms demo_cfg) = Inr 1000" by code_simp
  ultimately show ?thesis using timeouts_honoured [OF _ _ _ _ _ s, of 1000] s p
    by (simp add: create_app_def clock_ok_def)
qed

end
